(* ===== verification/Prelude.thy ===== *)
theory Prelude
  imports
    Main
    "HOL-Library.Word"
    "HOL-Library.Monad_Syntax"
    "HOL-Library.AList"
    "HOL-Library.Char_ord"
    "HOL-Library.List_Lexorder"
begin

text \<open>
  Shared vocabulary of the development: the fixed-width integers of the C sources, MAC
  addresses with the byte-wise order of \<^verbatim>\<open>memcmp\<close>, key-ordered dictionaries (what a libubox
  AVL tree with a total order and no duplicates holds), the loop combinator used for
  \<^verbatim>\<open>list_for_each_entry\<close> bodies, and the lemmas every component uses about them.

  Conventions. A C \<^verbatim>\<open>int\<close> and a \<^verbatim>\<open>uint32_t\<close> are both a 32-bit word; a comparison is
  written on the words when C compares unsigned values and on their \<open>sint\<close> when C compares
  signed ones. A conversion to a wider type is \<open>ucast\<close> (from unsigned) or \<open>scast\<close> (from
  signed), a conversion to a narrower type is \<open>ucast\<close>. An operation whose C code would have
  undefined behaviour (a freed or null pointer followed, an array index out of range, a
  division by zero) returns \<^term>\<open>None\<close>.
\<close>

section \<open>Fixed-width integers\<close>

type_synonym u8 = "8 word"
type_synonym u16 = "16 word"
type_synonym u32 = "32 word"
type_synonym u64 = "64 word"
type_synonym s32 = "32 word"

text \<open>Facts about wrap-around clock arithmetic.\<close>

named_theorems clock_simps

section \<open>Loops\<close>

text \<open>
  The body of a \<^verbatim>\<open>for\<close> loop over a container is run once per element, in iteration order;
  a body that has undefined behaviour ends the run.
\<close>

primrec for_each :: "('x \<Rightarrow> 's \<Rightarrow> 's option) \<Rightarrow> 'x list \<Rightarrow> 's \<Rightarrow> 's option" where
  "for_each f [] s = Some s"
| "for_each f (x # xs) s = Option.bind (f x s) (for_each f xs)"

section \<open>MAC addresses\<close>

datatype mac = MAC u8 u8 u8 u8 u8 u8

fun mac_bytes :: "mac \<Rightarrow> u8 list" where
  "mac_bytes (MAC a b c d e f) = [a, b, c, d, e, f]"

fun memcmp :: "u8 list \<Rightarrow> u8 list \<Rightarrow> int" where
  "memcmp (x # xs) (y # ys) = (if x = y then memcmp xs ys else uint x - uint y)"
| "memcmp _ _ = 0"

text \<open>\<^verbatim>\<open>avl_macaddr_cmp\<close> of sta.c: the comparator of the station tree.\<close>

definition avl_macaddr_cmp :: "mac \<Rightarrow> mac \<Rightarrow> int" where
  "avl_macaddr_cmp k1 k2 = memcmp (mac_bytes k1) (mac_bytes k2)"

fun hex_digit :: "nat \<Rightarrow> char" where
  "hex_digit n = (if n < 10 then char_of (48 + n) else char_of (87 + n))"

definition hex_byte :: "u8 \<Rightarrow> string" where
  "hex_byte b = [hex_digit (unat b div 16), hex_digit (unat b mod 16)]"

text \<open>\<^verbatim>\<open>MAC_ADDR_FMT\<close> of utils.h, \<^verbatim>\<open>%02x:%02x:%02x:%02x:%02x:%02x\<close>.\<close>

definition mac_addr_fmt :: "mac \<Rightarrow> string" where
  "mac_addr_fmt m = concat (map (\<lambda>(i, b). (if i = (0::nat) then hex_byte b else CHR '':'' # hex_byte b))
     (enumerate 0 (mac_bytes m)))"

section \<open>Key-ordered dictionaries\<close>

definition dict_insert :: "'k::linorder \<Rightarrow> 'v \<Rightarrow> ('k \<times> 'v) list \<Rightarrow> ('k \<times> 'v) list" where
  "dict_insert k v xs = insort_key fst (k, v) xs"

definition dict_modify :: "'k \<Rightarrow> ('v \<Rightarrow> 'v) \<Rightarrow> ('k \<times> 'v) list \<Rightarrow> ('k \<times> 'v) list" where
  "dict_modify k f xs = map (\<lambda>(k', v). (k', if k' = k then f v else v)) xs"

definition dict_delete :: "'k \<Rightarrow> ('k \<times> 'v) list \<Rightarrow> ('k \<times> 'v) list" where
  "dict_delete k xs = filter (\<lambda>(k', v). k' \<noteq> k) xs"

definition dict_ok :: "('k::linorder \<times> 'v) list \<Rightarrow> bool" where
  "dict_ok xs \<longleftrightarrow> sorted (map fst xs) \<and> distinct (map fst xs)"

section \<open>Lemmas\<close>

subsection \<open>Widening\<close>

lemma unat_widen [simp]: "unat (ucast (w :: u32) :: u64) = unat w"
proof -
  have "unat w < 2 ^ 32" using unsigned_less [of w, where 'a = nat] by simp
  then show ?thesis by (simp add: unsigned_ucast_eq take_bit_nat_eq_self)
qed

subsection \<open>Loops\<close>

lemma for_each_append:
  "for_each f (xs @ ys) s = Option.bind (for_each f xs s) (for_each f ys)"
  by (induction xs arbitrary: s) (auto simp: bind_eq_Some_conv split: Option.bind_split)

lemma for_each_invariant:
  assumes "for_each f xs s = Some s'" and "P s"
    and "\<And>x t t'. x \<in> set xs \<Longrightarrow> P t \<Longrightarrow> f x t = Some t' \<Longrightarrow> P t'"
  shows "P s'"
  using assms
proof (induction xs arbitrary: s)
  case Nil
  then show ?case by simp
next
  case (Cons x xs)
  from Cons.prems(1) obtain t where t: "f x s = Some t" and rest: "for_each f xs t = Some s'"
    by (auto simp: bind_eq_Some_conv)
  have "P t" using Cons.prems(2,3) t by (meson list.set_intros(1))
  with Cons.IH [OF rest] Cons.prems(3) show ?case by auto
qed

lemma for_each_total:
  assumes "P s"
    and "\<And>x t. x \<in> set xs \<Longrightarrow> P t \<Longrightarrow> \<exists>t'. f x t = Some t' \<and> P t'"
  shows "\<exists>s'. for_each f xs s = Some s' \<and> P s'"
  using assms
proof (induction xs arbitrary: s)
  case Nil
  then show ?case by simp
next
  case (Cons x xs)
  from Cons.prems obtain t where t: "f x s = Some t" "P t"
    by (meson list.set_intros(1))
  from Cons.IH [OF t(2)] Cons.prems(2) obtain s' where "for_each f xs t = Some s'" "P s'"
    by auto
  with t show ?case by auto
qed

subsection \<open>Searching\<close>

lemma find_Some_mem: "List.find P xs = Some x \<Longrightarrow> x \<in> set xs \<and> P x"
  by (induction xs) (auto split: if_splits)

lemma find_append_skip: "(\<And>y. y \<in> set us \<Longrightarrow> \<not> P y) \<Longrightarrow> List.find P (us @ vs) = List.find P vs"
  by (induction us) auto

subsection \<open>Dictionaries\<close>

lemma map_of_dict_insert [simp]:
  "k \<notin> fst ` set xs \<Longrightarrow> map_of (dict_insert k v xs) = (map_of xs)(k \<mapsto> v)"
  unfolding dict_insert_def by (induction xs) (auto simp: fun_eq_iff)

lemma map_of_dict_modify [simp]:
  "map_of (dict_modify k f xs) k' = (if k' = k then map_option f (map_of xs k) else map_of xs k')"
  unfolding dict_modify_def by (induction xs) auto

lemma map_of_dict_delete [simp]: "map_of (dict_delete k xs) = (map_of xs)(k := None)"
  unfolding dict_delete_def by (induction xs) (auto simp: fun_eq_iff)

lemma keys_dict_modify [simp]: "map fst (dict_modify k f xs) = map fst xs"
  unfolding dict_modify_def by (induction xs) auto

lemma keys_dict_insert [simp]: "fst ` set (dict_insert k v xs) = insert k (fst ` set xs)"
  unfolding dict_insert_def by (simp add: set_insort_key)

lemma dict_ok_insert [simp]:
  "k \<notin> fst ` set xs \<Longrightarrow> dict_ok (dict_insert k v xs) = dict_ok xs"
proof (induction xs)
  case Nil
  then show ?case by (simp add: dict_ok_def dict_insert_def)
next
  case (Cons x xs)
  then show ?case
    by (auto simp: dict_ok_def dict_insert_def set_insort_key sorted_insort_key
        insort_key.simps image_iff)
qed

lemma dict_ok_modify [simp]: "dict_ok (dict_modify k f xs) = dict_ok xs"
  by (simp add: dict_ok_def)

lemma dict_ok_delete [simp]: "dict_ok xs \<Longrightarrow> dict_ok (dict_delete k xs)"
proof (induction xs)
  case Nil
  then show ?case by (simp add: dict_ok_def dict_delete_def)
next
  case (Cons x xs)
  then have "dict_ok (dict_delete k xs)" by (simp add: dict_ok_def)
  with Cons.prems show ?case
    by (auto simp: dict_ok_def dict_delete_def)
qed

lemma dict_ok_Nil [simp]: "dict_ok []"
  by (simp add: dict_ok_def)

subsection \<open>Byte-wise comparison\<close>

lemma memcmp_self [simp]: "memcmp xs xs = 0"
  by (induction xs) auto

lemma memcmp_swap: "memcmp ys xs = - memcmp xs ys"
  by (induction xs ys rule: memcmp.induct) auto

lemma memcmp_zero: "length xs = length ys \<Longrightarrow> memcmp xs ys = 0 \<longleftrightarrow> xs = ys"
  by (induction xs ys rule: memcmp.induct) (auto simp: word_uint_eq_iff split: if_splits)

lemma memcmp_trans:
  "length xs = length ys \<Longrightarrow> length ys = length zs \<Longrightarrow>
   memcmp xs ys \<le> 0 \<Longrightarrow> memcmp ys zs \<le> 0 \<Longrightarrow> memcmp xs zs \<le> 0"
proof (induction xs arbitrary: ys zs)
  case Nil
  then show ?case by simp
next
  case (Cons x xs)
  from Cons.prems(1,2) obtain y ys' z zs' where ys: "ys = y # ys'" and zs: "zs = z # zs'"
    by (cases ys; cases zs) auto
  show ?case
  proof (cases "x = y \<and> y = z")
    case True
    with Cons.prems Cons.IH [of ys' zs'] ys zs show ?thesis by simp
  next
    case False
    from Cons.prems(3,4) ys zs have "uint x \<le> uint y" "uint y \<le> uint z"
      by (auto split: if_splits)
    moreover from this False have "uint x \<noteq> uint z" by (auto simp: word_uint_eq_iff)
    ultimately show ?thesis using ys zs by (auto split: if_splits)
  qed
qed

lemma length_mac_bytes [simp]: "length (mac_bytes m) = 6"
  by (cases m) simp

lemma mac_bytes_inj [simp]: "mac_bytes a = mac_bytes b \<longleftrightarrow> a = b"
  by (cases a; cases b) simp

text \<open>
  The comparator of the station tree is a total order on addresses, so that the tree is a
  dictionary; the type of addresses is ordered by it.
\<close>

instantiation mac :: linorder
begin

definition less_eq_mac :: "mac \<Rightarrow> mac \<Rightarrow> bool" where
  "less_eq_mac a b \<longleftrightarrow> avl_macaddr_cmp a b \<le> 0"

definition less_mac :: "mac \<Rightarrow> mac \<Rightarrow> bool" where
  "less_mac a b \<longleftrightarrow> avl_macaddr_cmp a b < 0"

instance
proof
  fix a b c :: mac
  show "(a < b) = (a \<le> b \<and> \<not> b \<le> a)"
    using memcmp_swap [of "mac_bytes b" "mac_bytes a"]
    by (auto simp: less_eq_mac_def less_mac_def avl_macaddr_cmp_def)
  show "a \<le> a"
    by (simp add: less_eq_mac_def avl_macaddr_cmp_def)
  show "a \<le> b \<Longrightarrow> b \<le> c \<Longrightarrow> a \<le> c"
    using memcmp_trans [of "mac_bytes a" "mac_bytes b" "mac_bytes c"]
    by (simp add: less_eq_mac_def avl_macaddr_cmp_def)
  show "a \<le> b \<Longrightarrow> b \<le> a \<Longrightarrow> a = b"
    using memcmp_swap [of "mac_bytes b" "mac_bytes a"] memcmp_zero [of "mac_bytes a" "mac_bytes b"]
    by (simp add: less_eq_mac_def avl_macaddr_cmp_def)
  show "a \<le> b \<or> b \<le> a"
    using memcmp_swap [of "mac_bytes b" "mac_bytes a"]
    by (auto simp: less_eq_mac_def avl_macaddr_cmp_def)
qed

end

end
