(* ===== verification/Usteer_State.thy ===== *)
theory Usteer_State
  imports Complex_Main Prelude
begin

text \<open>
  The data of the daemon (usteer.h, node.h, hearing_map.h, timeout.h) and its global state.

  Pointers. A station (\<^verbatim>\<open>struct sta\<close>) is named by its address, the key of the tree it is in.
  A node is named by a \<open>node_ref\<close>: a local node by its ubus path, the key of its tree; a
  remote node by the address it was allocated at. A \<^verbatim>\<open>struct sta_info\<close> lives in \<open>si_heap\<close> at
  an address that is never reused, so that following a pointer to a freed entry is visible:
  the heap has nothing there. The two lists an entry is linked into are the address lists
  \<open>st_nodes\<close> of its station and \<open>node_sta_info\<close> of its node, most recent entry first.

  What the daemon tells the outside world (ubus calls, multicast messages, scripts) is the
  list \<open>out\<close>, in the order of the calls. Messages are the calls of the libubox builders in
  order; their byte encoding belongs to libubox and is not modelled.
\<close>

section \<open>Enumerations\<close>

datatype usteer_event_type =
  EVENT_TYPE_PROBE | EVENT_TYPE_ASSOC | EVENT_TYPE_AUTH | EVENT_TYPE_BEACON | EVENT_TYPE_MAX

fun event_index :: "usteer_event_type \<Rightarrow> nat" where
  "event_index EVENT_TYPE_PROBE = 0"
| "event_index EVENT_TYPE_ASSOC = 1"
| "event_index EVENT_TYPE_AUTH = 2"
| "event_index EVENT_TYPE_BEACON = 3"
| "event_index EVENT_TYPE_MAX = 4"

datatype usteer_node_type = NODE_TYPE_LOCAL | NODE_TYPE_REMOTE

datatype roam_trigger_state =
  ROAM_TRIGGER_IDLE | ROAM_TRIGGER_SCAN | ROAM_TRIGGER_SCAN_DONE
| ROAM_TRIGGER_WAIT_KICK | ROAM_TRIGGER_NOTIFY_KICK | ROAM_TRIGGER_KICK

datatype local_req_state = REQ_IDLE | REQ_CLIENTS | REQ_RRM_SET_LIST | REQ_RRM_GET_OWN

section \<open>Pointers and messages\<close>

datatype node_ref = NLocal string | NRemote nat

type_synonym blob = "u8 list"

datatype blobmsg =
  Add_u8 u8 | Add_u16 u16 | Add_u32 u32 | Add_u64 u64 | Add_string string
| Add_field blob
| Add_table "(string \<times> blobmsg) list" | Add_array "(string \<times> blobmsg) list"

datatype blob_item =
  Put nat "u8 list" | Put_string nat string | Put_int8 nat u8 | Put_int32 nat u32
| Put_blob nat blob | Put_array_field blob
| Nest nat "blob_item list"

text \<open>The two asynchronous requests of a local node.\<close>

datatype ubus_req = Node_req string | Netifd_req string

datatype action =
  Ubus_invoke u32 string "(string \<times> blobmsg) list"
| Ubus_invoke_async u32 string "(string \<times> blobmsg) list"
| Ubus_abort ubus_req
| Ubus_register string
| Ubus_unregister string
| Ubus_subscribe string u32
| Ubus_register_events string
| Ubus_lookup string
| Ubus_reply "(string \<times> blobmsg) list"
| Sendmsg u32 "blob_item list"
| System string
| Uloop_fd_add int
| Uloop_fd_delete
| Socket int
| Close int

section \<open>Configuration\<close>

record usteer_config =
  syslog :: bool
  remote_disabled :: bool
  debug_level :: u32
  sta_block_timeout :: u32
  local_sta_timeout :: u32
  local_sta_update :: u32
  max_retry_band :: u32
  seen_policy_timeout :: u32
  band_steering_threshold :: u32
  load_balancing_threshold :: u32
  vendor_update_interval :: u32
  remote_update_interval :: u32
  remote_node_timeout :: u32
  min_snr :: s32
  min_connect_snr :: s32
  signal_diff_threshold :: u32
  roam_scan_snr :: s32
  roam_scan_tries :: u32
  roam_scan_interval :: u32
  roam_trigger_snr :: s32
  roam_trigger_interval :: u32
  roam_kick_delay :: u32
  initial_connect_delay :: u32
  load_kick_enabled :: bool
  load_kick_threshold :: u32
  load_kick_delay :: u32
  load_kick_min_clients :: u32
  load_kick_reason_code :: u32
  kick_client_active_sec :: u32
  kick_client_active_bits :: u32
  beacon_report_invalide_timeout :: u32
  beacon_request_frequency :: u32
  beacon_request_signal_modifier :: u32

text \<open>\<^verbatim>\<open>memset\<close> to zero, then the assignments of \<^verbatim>\<open>usteer_init_defaults\<close> (main.c).\<close>

definition usteer_init_defaults :: usteer_config where
  "usteer_init_defaults = \<lparr>
     syslog = False, remote_disabled = False, debug_level = 0,
     sta_block_timeout = 30 * 1000,
     local_sta_timeout = 120 * 1000,
     local_sta_update = 1 * 1000,
     max_retry_band = 5,
     seen_policy_timeout = 30 * 1000,
     band_steering_threshold = 5,
     load_balancing_threshold = 5,
     vendor_update_interval = 60 * 1000,
     remote_update_interval = 1000,
     remote_node_timeout = 120 * 1000,
     min_snr = 0, min_connect_snr = 0, signal_diff_threshold = 0,
     roam_scan_snr = 0,
     roam_scan_tries = 3,
     roam_scan_interval = 10 * 1000,
     roam_trigger_snr = 0,
     roam_trigger_interval = 60 * 1000,
     roam_kick_delay = 100,
     initial_connect_delay = 0,
     load_kick_enabled = False,
     load_kick_threshold = 75,
     load_kick_delay = 10 * 1000,
     load_kick_min_clients = 10,
     load_kick_reason_code = 5,
     kick_client_active_sec = 30,
     kick_client_active_bits = 50000,
     beacon_report_invalide_timeout = 200,
     beacon_request_frequency = 30 * 1000,
     beacon_request_signal_modifier = 20 * 1000 \<rparr>"

section \<open>Stations and their entries\<close>

record sta_info_stats =
  requests :: u32
  blocked_cur :: u32
  blocked_total :: u32
  blocked_last_time :: u32

text \<open>\<^verbatim>\<open>data[2][2]\<close>: previous and current sample, each received and transmitted bytes.\<close>

record sta_active_bytes =
  ab_prev_rx :: u64
  ab_prev_tx :: u64
  ab_cur_rx :: u64
  ab_cur_tx :: u64
  ab_last_time :: u64

record beacon_request =
  breq_band :: s32
  breq_failed_requests :: u8
  breq_lastReportTime :: u64
  breq_lastRequestTime :: u64

record beacon_report =
  br_address :: nat
  br_bssid :: mac
  br_rcpi :: u16
  br_rsni :: u16
  br_op_class :: u16
  br_channel :: u16
  br_usteer_time :: u64

record sta_info =
  si_beacon_reports :: "beacon_report list"
  si_node :: node_ref
  si_sta :: mac
  si_stats :: "sta_info_stats list"
  si_created :: u64
  si_seen :: u64
  si_signal :: s32
  si_roam_state :: roam_trigger_state
  si_roam_tries :: u8
  si_roam_event :: u64
  si_roam_kick :: u64
  si_roam_scan_done :: u64
  si_kick_count :: s32
  si_active_bytes :: sta_active_bytes
  si_beacon_request :: beacon_request
  si_scan_band :: bool
  si_connected :: "2 word"

record sta =
  st_nodes :: "nat list"
  st_seen_2ghz :: bool
  st_seen_5ghz :: bool
  st_addr :: mac

text \<open>Zeroed allocations.\<close>

definition zero_stats :: sta_info_stats where
  "zero_stats = \<lparr>requests = 0, blocked_cur = 0, blocked_total = 0, blocked_last_time = 0\<rparr>"

definition calloc_sta_info :: "node_ref \<Rightarrow> mac \<Rightarrow> sta_info" where
  "calloc_sta_info r m = \<lparr>
     si_beacon_reports = [], si_node = r, si_sta = m,
     si_stats = replicate 4 zero_stats,
     si_created = 0, si_seen = 0, si_signal = 0,
     si_roam_state = ROAM_TRIGGER_IDLE, si_roam_tries = 0,
     si_roam_event = 0, si_roam_kick = 0, si_roam_scan_done = 0,
     si_kick_count = 0,
     si_active_bytes = \<lparr>ab_prev_rx = 0, ab_prev_tx = 0, ab_cur_rx = 0, ab_cur_tx = 0,
                        ab_last_time = 0\<rparr>,
     si_beacon_request = \<lparr>breq_band = 0, breq_failed_requests = 0,
                          breq_lastReportTime = 0, breq_lastRequestTime = 0\<rparr>,
     si_scan_band = False, si_connected = 0 \<rparr>"

section \<open>Nodes\<close>

record usteer_node =
  node_sta_info :: "nat list"
  node_type :: usteer_node_type
  node_rrm_nr :: "blob option"
  node_script_data :: "blob option"
  node_ssid :: string
  node_bssid :: mac
  node_freq :: s32
  node_noise :: s32
  node_n_assoc :: s32
  node_max_assoc :: s32
  node_load :: s32

record usteer_local_node =
  ln_node :: usteer_node
  ln_update_timer :: "u32 option"
  ln_iface :: string
  ln_ifindex :: s32
  ln_wiphy :: s32
  ln_req_timer :: "u32 option"
  ln_req_state :: local_req_state
  ln_obj_id :: u32
  ln_load_ewma :: rat
  ln_load_thr_count :: s32
  ln_time :: u64
  ln_time_busy :: u64
  ln_nl80211_present :: bool
  ln_nl80211_timer :: "u32 option"
  ln_netifd_req_pending :: bool
  ln_netifd_status_complete :: bool

record usteer_remote_node =
  rn_key :: u64
  rn_name :: string
  rn_full_name :: string
  rn_node :: usteer_node
  rn_iface :: string
  rn_check :: s32

definition calloc_node :: "usteer_node_type \<Rightarrow> usteer_node" where
  "calloc_node t = \<lparr>
     node_sta_info = [], node_type = t, node_rrm_nr = None, node_script_data = None,
     node_ssid = [], node_bssid = MAC 0 0 0 0 0 0, node_freq = 0, node_noise = 0,
     node_n_assoc = 0, node_max_assoc = 0, node_load = 0 \<rparr>"

section \<open>The timeout queue\<close>

text \<open>
  A timer is an AVL node with a 32-bit expiry key; the queue holds the timers in iteration
  order. \<open>tq_linked\<close> is the test \<^verbatim>\<open>node.list.prev != NULL\<close> on a timer, \<open>tq_ref\<close> the
  reference time handed to the comparator, \<open>tq_timeout\<close> the armed uloop timeout.
\<close>

type_synonym tnode = "u32 \<times> nat"

record usteer_timeout_queue =
  tq_tree :: "tnode list"
  tq_ref :: u32
  tq_timeout :: "s32 option"
  tq_linked :: "nat \<Rightarrow> bool"

section \<open>Global state\<close>

text \<open>\<^verbatim>\<open>struct uloop_fd\<close> of the event loop: the descriptor and whether the loop watches it.\<close>

record uloop_fd =
  fd_num :: int
  fd_registered :: bool

record usteer_state =
  config :: usteer_config
  current_time :: u64
  stations :: "(mac \<times> sta) list"
  si_heap :: "nat \<Rightarrow> sta_info option"
  si_next :: nat
  tq :: usteer_timeout_queue
  local_nodes :: "(string \<times> usteer_local_node) list"
  remote_nodes :: "(nat \<times> usteer_remote_node) list"
  rn_next :: nat
  config_ssid_list :: "string list option"
  node_up_script :: "string option"
  interfaces :: "(string \<times> u32) list"
  local_id :: u32
  msg_seq :: u32
  remote_timer :: "u32 option"
  reload_timer :: "u32 option"
  vendor_timer :: "u32 option"
  remote_fd :: uloop_fd
  out :: "action list"

section \<open>Accessors\<close>

definition get_local :: "usteer_state \<Rightarrow> string \<Rightarrow> usteer_local_node option" where
  "get_local s n = map_of (local_nodes s) n"

definition get_remote :: "usteer_state \<Rightarrow> nat \<Rightarrow> usteer_remote_node option" where
  "get_remote s a = map_of (remote_nodes s) a"

fun get_node :: "usteer_state \<Rightarrow> node_ref \<Rightarrow> usteer_node option" where
  "get_node s (NLocal n) = map_option ln_node (get_local s n)"
| "get_node s (NRemote a) = map_option rn_node (get_remote s a)"

fun upd_node :: "node_ref \<Rightarrow> (usteer_node \<Rightarrow> usteer_node) \<Rightarrow> usteer_state \<Rightarrow> usteer_state" where
  "upd_node (NLocal n) f s =
     s\<lparr>local_nodes := dict_modify n (\<lambda>ln. ln\<lparr>ln_node := f (ln_node ln)\<rparr>) (local_nodes s)\<rparr>"
| "upd_node (NRemote a) f s =
     s\<lparr>remote_nodes := dict_modify a (\<lambda>rn. rn\<lparr>rn_node := f (rn_node rn)\<rparr>) (remote_nodes s)\<rparr>"

definition upd_local ::
    "string \<Rightarrow> (usteer_local_node \<Rightarrow> usteer_local_node) \<Rightarrow> usteer_state \<Rightarrow> usteer_state" where
  "upd_local n f s = s\<lparr>local_nodes := dict_modify n f (local_nodes s)\<rparr>"

definition upd_remote ::
    "nat \<Rightarrow> (usteer_remote_node \<Rightarrow> usteer_remote_node) \<Rightarrow> usteer_state \<Rightarrow> usteer_state" where
  "upd_remote a f s = s\<lparr>remote_nodes := dict_modify a f (remote_nodes s)\<rparr>"

definition get_sta :: "usteer_state \<Rightarrow> mac \<Rightarrow> sta option" where
  "get_sta s m = map_of (stations s) m"

definition upd_sta :: "mac \<Rightarrow> (sta \<Rightarrow> sta) \<Rightarrow> usteer_state \<Rightarrow> usteer_state" where
  "upd_sta m f s = s\<lparr>stations := dict_modify m f (stations s)\<rparr>"

text \<open>A write through a \<^verbatim>\<open>struct sta_info\<close> pointer: undefined on a freed entry.\<close>

definition upd_si :: "nat \<Rightarrow> (sta_info \<Rightarrow> sta_info) \<Rightarrow> usteer_state \<Rightarrow> usteer_state option" where
  "upd_si a f s = (case si_heap s a of None \<Rightarrow> None
     | Some si \<Rightarrow> Some (s\<lparr>si_heap := (si_heap s)(a \<mapsto> f si)\<rparr>))"

definition emit :: "action \<Rightarrow> usteer_state \<Rightarrow> usteer_state" where
  "emit x s = s\<lparr>out := out s @ [x]\<rparr>"

text \<open>\<^verbatim>\<open>usteer_node_name\<close>: the key the node is registered under.\<close>

fun usteer_node_name :: "usteer_state \<Rightarrow> node_ref \<Rightarrow> string option" where
  "usteer_node_name s (NLocal n) = (if get_local s n = None then None else Some n)"
| "usteer_node_name s (NRemote a) = map_option rn_full_name (get_remote s a)"

section \<open>Lemmas on the accessors\<close>

lemma get_node_upd_node [simp]:
  "get_node (upd_node r f s) r' = (if r' = r then map_option f (get_node s r) else get_node s r')"
  by (cases r; cases r') (auto simp: get_local_def get_remote_def option.map_comp comp_def)

lemma get_sta_upd_sta [simp]:
  "get_sta (upd_sta m f s) m' = (if m' = m then map_option f (get_sta s m) else get_sta s m')"
  by (simp add: get_sta_def upd_sta_def)

lemma upd_node_frame [simp]:
  "config (upd_node r f s) = config s"
  "current_time (upd_node r f s) = current_time s"
  "stations (upd_node r f s) = stations s"
  "si_heap (upd_node r f s) = si_heap s"
  "si_next (upd_node r f s) = si_next s"
  "tq (upd_node r f s) = tq s"
  "rn_next (upd_node r f s) = rn_next s"
  "out (upd_node r f s) = out s"
  "interfaces (upd_node r f s) = interfaces s"
  "map fst (local_nodes (upd_node r f s)) = map fst (local_nodes s)"
  "map fst (remote_nodes (upd_node r f s)) = map fst (remote_nodes s)"
  "get_sta (upd_node r f s) m = get_sta s m"
  by (cases r; simp add: get_sta_def)+

lemma upd_sta_frame [simp]:
  "config (upd_sta m f s) = config s"
  "current_time (upd_sta m f s) = current_time s"
  "si_heap (upd_sta m f s) = si_heap s"
  "si_next (upd_sta m f s) = si_next s"
  "tq (upd_sta m f s) = tq s"
  "rn_next (upd_sta m f s) = rn_next s"
  "local_nodes (upd_sta m f s) = local_nodes s"
  "remote_nodes (upd_sta m f s) = remote_nodes s"
  "interfaces (upd_sta m f s) = interfaces s"
  "out (upd_sta m f s) = out s"
  "map fst (stations (upd_sta m f s)) = map fst (stations s)"
  by (simp_all add: upd_sta_def)

lemma get_node_upd_sta [simp]: "get_node (upd_sta m f s) r = get_node s r"
  by (cases r) (simp_all add: get_local_def get_remote_def)

text \<open>Fields outside nodes and stations do not change what nodes and stations are.\<close>

lemma get_node_cong [simp]:
  "get_node (s\<lparr>si_heap := h\<rparr>) r = get_node s r"
  "get_node (s\<lparr>si_next := i\<rparr>) r = get_node s r"
  "get_node (s\<lparr>tq := q\<rparr>) r = get_node s r"
  "get_node (s\<lparr>stations := st\<rparr>) r = get_node s r"
  "get_node (s\<lparr>out := ou\<rparr>) r = get_node s r"
  "get_node (s\<lparr>current_time := t\<rparr>) r = get_node s r"
  "get_node (s\<lparr>config := cfg\<rparr>) r = get_node s r"
  by (cases r; simp add: get_local_def get_remote_def)+

lemma get_sta_cong [simp]:
  "get_sta (s\<lparr>si_heap := h\<rparr>) m = get_sta s m"
  "get_sta (s\<lparr>si_next := i\<rparr>) m = get_sta s m"
  "get_sta (s\<lparr>tq := q\<rparr>) m = get_sta s m"
  "get_sta (s\<lparr>local_nodes := l\<rparr>) m = get_sta s m"
  "get_sta (s\<lparr>remote_nodes := rl\<rparr>) m = get_sta s m"
  "get_sta (s\<lparr>out := ou\<rparr>) m = get_sta s m"
  "get_sta (s\<lparr>current_time := t\<rparr>) m = get_sta s m"
  "get_sta (s\<lparr>config := cfg\<rparr>) m = get_sta s m"
  by (simp_all add: get_sta_def)

lemma emit_frame [simp]:
  "config (emit x s) = config s"
  "current_time (emit x s) = current_time s"
  "stations (emit x s) = stations s"
  "si_heap (emit x s) = si_heap s"
  "si_next (emit x s) = si_next s"
  "tq (emit x s) = tq s"
  "local_nodes (emit x s) = local_nodes s"
  "remote_nodes (emit x s) = remote_nodes s"
  "rn_next (emit x s) = rn_next s"
  "interfaces (emit x s) = interfaces s"
  "get_node (emit x s) r = get_node s r"
  "get_sta (emit x s) m = get_sta s m"
  "out (emit x s) = out s @ [x]"
  by (simp_all add: emit_def)

lemma upd_si_Some:
  "upd_si a f s = Some s' \<longleftrightarrow>
   (\<exists>si. si_heap s a = Some si \<and> s' = s\<lparr>si_heap := (si_heap s)(a \<mapsto> f si)\<rparr>)"
  by (auto simp: upd_si_def split: option.splits)

end
