(* ===== verification/Timeout.thy ===== *)
theory Timeout
  imports Usteer_State
begin

text \<open>
  timeout.c: a queue of one-shot timers in a libubox AVL tree that allows duplicates,
  ordered by the expiry time relative to a moving reference time.

  libubox is not part of the sources. The tree insertion is the parameter \<open>ins\<close> of
  \<open>usteer_timeout_set\<close>; its contract is the locale \<open>avl_dups_tree\<close>: the element is put
  somewhere into the iteration order, and into a place that keeps the order when the tree is
  ordered by a total preorder. The clock is read with \<^verbatim>\<open>clock_gettime\<close>; its readings are
  arguments.

  The locale \<open>timeout_client\<close> is what timeout.c needs from the code that owns a queue: the
  callback may cancel only the timer that expired. sta.c is such a client (theory Stations).
\<close>

section \<open>Model\<close>

definition usteer_timeout_cmp :: "u32 \<Rightarrow> u32 \<Rightarrow> u32 \<Rightarrow> int" where
  "usteer_timeout_cmp k1 k2 ptr =
     (let t1 = sint (k1 - ptr); t2 = sint (k2 - ptr)
      in if t1 < t2 then - 1 else if t1 > t2 then 1 else 0)"

definition usteer_timeout_delta :: "tnode \<Rightarrow> u32 \<Rightarrow> s32" where
  "usteer_timeout_delta t time = fst t - time"

definition usteer_timeout_recalc :: "usteer_timeout_queue \<Rightarrow> u32 \<Rightarrow> usteer_timeout_queue" where
  "usteer_timeout_recalc q time =
     (case tq_tree q of
        [] \<Rightarrow> q\<lparr>tq_timeout := None\<rparr>
      | t # _ \<Rightarrow>
          (let delta = usteer_timeout_delta t time;
               delta = (if sint delta < 1 then 1 else delta)
           in q\<lparr>tq_timeout := Some delta\<rparr>))"

definition usteer_timeout_isset :: "usteer_timeout_queue \<Rightarrow> nat \<Rightarrow> bool" where
  "usteer_timeout_isset q t = tq_linked q t"

definition usteer_timeout_init :: usteer_timeout_queue where
  "usteer_timeout_init = \<lparr>tq_tree = [], tq_ref = 0, tq_timeout = None, tq_linked = (\<lambda>_. False)\<rparr>"

definition avl_is_first :: "usteer_timeout_queue \<Rightarrow> nat \<Rightarrow> bool" where
  "avl_is_first q t = (case tq_tree q of [] \<Rightarrow> False | x # _ \<Rightarrow> snd x = t)"

definition timeout_tree_cancel :: "usteer_timeout_queue \<Rightarrow> nat \<Rightarrow> usteer_timeout_queue" where
  "timeout_tree_cancel q t = q\<lparr>tq_tree := filter (\<lambda>x. snd x \<noteq> t) (tq_tree q)\<rparr>"

type_synonym tree_insert = "(u32 \<Rightarrow> u32 \<Rightarrow> int) \<Rightarrow> tnode \<Rightarrow> tnode list \<Rightarrow> tnode list"

definition usteer_timeout_set ::
    "tree_insert \<Rightarrow> usteer_timeout_queue \<Rightarrow> nat \<Rightarrow> s32 \<Rightarrow> u32 \<Rightarrow> usteer_timeout_queue" where
  "usteer_timeout_set ins q t msecs time =
     (let val = time + msecs;
          q = q\<lparr>tq_ref := time\<rparr>;
          was_first = (usteer_timeout_isset q t \<and> avl_is_first q t);
          q = (if usteer_timeout_isset q t then timeout_tree_cancel q t else q);
          q = q\<lparr>tq_tree := ins (\<lambda>k1 k2. usteer_timeout_cmp k1 k2 time) (val, t) (tq_tree q),
                tq_linked := (tq_linked q)(t := True)\<rparr>;
          recalc = (was_first \<or> avl_is_first q t)
      in if recalc then usteer_timeout_recalc q time else q)"

definition usteer_timeout_cancel :: "usteer_timeout_queue \<Rightarrow> nat \<Rightarrow> usteer_timeout_queue" where
  "usteer_timeout_cancel q t =
     (if \<not> usteer_timeout_isset q t then q
      else (timeout_tree_cancel q t)\<lparr>tq_linked := (tq_linked q)(t := False)\<rparr>)"

text \<open>
  The queue is part of a larger state of type \<open>'s\<close>: \<open>getq\<close> reads it, \<open>modq\<close> changes it,
  \<open>cb\<close> is the callback. One sweep over the tree stops at the first timer that is not due.
\<close>

fun timeout_sweep ::
    "((usteer_timeout_queue \<Rightarrow> usteer_timeout_queue) \<Rightarrow> 's \<Rightarrow> 's) \<Rightarrow> (nat \<Rightarrow> 's \<Rightarrow> 's option) \<Rightarrow>
     u32 \<Rightarrow> tnode list \<Rightarrow> bool \<Rightarrow> 's \<Rightarrow> ('s \<times> bool) option" where
  "timeout_sweep modq cb time [] found s = Some (s, found)"
| "timeout_sweep modq cb time (t # ts) found s =
     (if 0 < sint (usteer_timeout_delta t time) then Some (s, found)
      else Option.bind (cb (snd t) (modq (\<lambda>q. usteer_timeout_cancel q (snd t)) s))
             (timeout_sweep modq cb time ts True))"

text \<open>
  The \<^verbatim>\<open>do .. while (found)\<close> loop reads the clock once per sweep: \<open>readings\<close>.
\<close>

fun usteer_timeout_cb ::
    "('s \<Rightarrow> usteer_timeout_queue) \<Rightarrow>
     ((usteer_timeout_queue \<Rightarrow> usteer_timeout_queue) \<Rightarrow> 's \<Rightarrow> 's) \<Rightarrow> (nat \<Rightarrow> 's \<Rightarrow> 's option) \<Rightarrow>
     u32 list \<Rightarrow> 's \<Rightarrow> 's option" where
  "usteer_timeout_cb getq modq cb [] s = None"
| "usteer_timeout_cb getq modq cb (time # readings) s =
     (case timeout_sweep modq cb time (tq_tree (getq s)) False s of
        None \<Rightarrow> None
      | Some (s', found) \<Rightarrow>
          if found then usteer_timeout_cb getq modq cb readings s'
          else Some (modq (\<lambda>q. usteer_timeout_recalc q time) s'))"

text \<open>\<^verbatim>\<open>avl_remove_all_elements\<close> empties the tree and visits every element.\<close>

definition usteer_timeout_flush ::
    "('s \<Rightarrow> usteer_timeout_queue) \<Rightarrow>
     ((usteer_timeout_queue \<Rightarrow> usteer_timeout_queue) \<Rightarrow> 's \<Rightarrow> 's) \<Rightarrow> (nat \<Rightarrow> 's \<Rightarrow> 's option) \<Rightarrow>
     's \<Rightarrow> 's option" where
  "usteer_timeout_flush getq modq cb s =
     for_each (\<lambda>t s. cb (snd t) (modq (\<lambda>q. q\<lparr>tq_linked := (tq_linked q)(snd t := False)\<rparr>) s))
       (tq_tree (getq s)) (modq (\<lambda>q. q\<lparr>tq_timeout := None, tq_tree := []\<rparr>) s)"

section \<open>Invariants\<close>

text \<open>The link marker of a timer says whether it is in the tree, and it is there once.\<close>

definition tq_wf :: "usteer_timeout_queue \<Rightarrow> bool" where
  "tq_wf q \<longleftrightarrow> distinct (map snd (tq_tree q)) \<and> (\<forall>t. tq_linked q t \<longleftrightarrow> t \<in> snd ` set (tq_tree q))"

abbreviation due_le :: "u32 \<Rightarrow> tnode \<Rightarrow> tnode \<Rightarrow> bool" where
  "due_le time x y \<equiv> sint (usteer_timeout_delta x time) \<le> sint (usteer_timeout_delta y time)"

definition tq_sorted_at :: "u32 \<Rightarrow> usteer_timeout_queue \<Rightarrow> bool" where
  "tq_sorted_at time q \<longleftrightarrow> sorted_wrt (due_le time) (tq_tree q)"

text \<open>
  No pending timer is so far from the new time that its distance wraps around.
\<close>

definition tq_window :: "usteer_timeout_queue \<Rightarrow> u32 \<Rightarrow> bool" where
  "tq_window q time \<longleftrightarrow>
     (\<forall>x \<in> set (tq_tree q). sint (fst x - tq_ref q) - sint (time - tq_ref q) \<in> {- (2 ^ 31) ..< 2 ^ 31})"

definition timer_due :: "u32 \<Rightarrow> tnode \<Rightarrow> bool" where
  "timer_due time t \<longleftrightarrow> sint (usteer_timeout_delta t time) \<le> 0"

section \<open>The tree insertion contract\<close>

locale avl_dups_tree =
  fixes ins :: tree_insert
  assumes ins_place: "\<exists>ys zs. xs = ys @ zs \<and> ins cmp x xs = ys @ x # zs"
    and ins_sorted:
      "(\<And>a b. cmp a b \<le> 0 \<or> cmp b a \<le> 0) \<Longrightarrow>
       (\<And>a b c. cmp a b \<le> 0 \<Longrightarrow> cmp b c \<le> 0 \<Longrightarrow> cmp a c \<le> 0) \<Longrightarrow>
       sorted_wrt (\<lambda>x y. cmp (fst x) (fst y) \<le> 0) xs \<Longrightarrow>
       sorted_wrt (\<lambda>x y. cmp (fst x) (fst y) \<le> 0) (ins cmp x xs)"

text \<open>
  An instance: insertion in front of the first element that is strictly greater. It is the
  tree of the witnesses.
\<close>

fun ordered_insert :: tree_insert where
  "ordered_insert cmp x [] = [x]"
| "ordered_insert cmp x (y # ys) =
     (if 0 < cmp (fst y) (fst x) then x # y # ys else y # ordered_insert cmp x ys)"

section \<open>The client contract\<close>

locale timeout_client =
  fixes getq :: "'s \<Rightarrow> usteer_timeout_queue"
    and modq :: "(usteer_timeout_queue \<Rightarrow> usteer_timeout_queue) \<Rightarrow> 's \<Rightarrow> 's"
    and cb :: "nat \<Rightarrow> 's \<Rightarrow> 's option"
    and ok :: "'s \<Rightarrow> bool"
    and owners :: "'s \<Rightarrow> nat set"
  assumes getq_modq: "getq (modq f s) = f (getq s)"
    and owners_modq: "owners (modq f s) = owners s"
    and cb_runs: "ok s \<Longrightarrow> tq_linked (getq s) t \<Longrightarrow>
      \<exists>s'. cb t (modq (\<lambda>q. usteer_timeout_cancel q t) s) = Some s' \<and> ok s' \<and>
           getq s' = usteer_timeout_cancel (getq s) t \<and> owners s' = owners s - {t}"
    and ok_tq_wf: "ok s \<Longrightarrow> tq_wf (getq s)"
    and ok_recalc: "ok s \<Longrightarrow> ok (modq (\<lambda>q. usteer_timeout_recalc q time) s)"

section \<open>Clock arithmetic\<close>

lemma sint32_range: "- (2 ^ 31) \<le> sint (w :: 32 word)" "sint (w :: 32 word) < 2 ^ 31"
  using sint_ge [of w] sint_lt [of w] by simp_all

lemma sint32_diff [clock_simps]:
  fixes a b :: "32 word"
  assumes "- (2 ^ 31) \<le> sint a - sint b" and "sint a - sint b < 2 ^ 31"
  shows "sint (a - b) = sint a - sint b"
  using assms by (simp add: sint_word_diff signed_take_bit_int_eq_self)

lemma window_delta:
  assumes "tq_window q time" and "x \<in> set (tq_tree q)"
  shows "sint (usteer_timeout_delta x time) = sint (fst x - tq_ref q) - sint (time - tq_ref q)"
proof -
  have eq: "fst x - time = (fst x - tq_ref q) - (time - tq_ref q)" by simp
  from assms show ?thesis
    unfolding usteer_timeout_delta_def eq by (intro sint32_diff) (auto simp: tq_window_def)
qed

text \<open>Within the window the order of the tree does not depend on the reference time.\<close>

lemma tq_sorted_at_window:
  assumes "tq_sorted_at (tq_ref q) q" and "tq_window q time"
  shows "tq_sorted_at time q"
  unfolding tq_sorted_at_def
proof (rule sorted_wrt_mono_rel [of "tq_tree q" "due_le (tq_ref q)"])
  show "sorted_wrt (due_le (tq_ref q)) (tq_tree q)"
    using assms(1) by (simp add: tq_sorted_at_def)
  fix x y
  assume "x \<in> set (tq_tree q)" "y \<in> set (tq_tree q)" "due_le (tq_ref q) x y"
  then show "due_le time x y"
    using window_delta [OF assms(2)] by (simp add: usteer_timeout_delta_def)
qed

lemma tq_window_subset:
  "tq_window q time \<Longrightarrow> set (tq_tree q') \<subseteq> set (tq_tree q) \<Longrightarrow> tq_ref q' = tq_ref q \<Longrightarrow>
   tq_window q' time"
  by (auto simp: tq_window_def)

section \<open>Comparator\<close>

lemma usteer_timeout_cmp_le:
  "usteer_timeout_cmp k1 k2 ref \<le> 0 \<longleftrightarrow> sint (k1 - ref) \<le> sint (k2 - ref)"
  by (simp add: usteer_timeout_cmp_def Let_def)

lemma sint_inj: "sint (a :: 'a::len word) = sint b \<longleftrightarrow> a = b"
  by (metis of_int_sint scast_id)

lemma usteer_timeout_cmp_eq:
  "usteer_timeout_cmp k1 k2 ref = 0 \<longleftrightarrow> k1 = k2"
proof -
  have "usteer_timeout_cmp k1 k2 ref = 0 \<longleftrightarrow> sint (k1 - ref) = sint (k2 - ref)"
    by (auto simp: usteer_timeout_cmp_def Let_def)
  then show ?thesis by (simp add: sint_inj)
qed

section \<open>Single operations\<close>

lemma recalc_frame [simp]:
  "tq_tree (usteer_timeout_recalc q time) = tq_tree q"
  "tq_linked (usteer_timeout_recalc q time) = tq_linked q"
  "tq_ref (usteer_timeout_recalc q time) = tq_ref q"
  by (auto simp: usteer_timeout_recalc_def Let_def split: list.splits)

lemma cancel_frame [simp]:
  "tq_ref (usteer_timeout_cancel q t) = tq_ref q"
  "tq_timeout (usteer_timeout_cancel q t) = tq_timeout q"
  by (auto simp: usteer_timeout_cancel_def timeout_tree_cancel_def)

lemma cancel_tree:
  "tq_wf q \<Longrightarrow> tq_tree (usteer_timeout_cancel q t) = filter (\<lambda>x. snd x \<noteq> t) (tq_tree q)"
  by (auto simp: usteer_timeout_cancel_def timeout_tree_cancel_def usteer_timeout_isset_def
      tq_wf_def intro!: filter_True [symmetric])

lemma cancel_linked [simp]:
  "tq_linked (usteer_timeout_cancel q t) = (tq_linked q)(t := False)"
  by (auto simp: usteer_timeout_cancel_def timeout_tree_cancel_def usteer_timeout_isset_def
      fun_eq_iff)

lemma tq_wf_cancel: "tq_wf q \<Longrightarrow> tq_wf (usteer_timeout_cancel q t)"
  unfolding tq_wf_def [of "usteer_timeout_cancel q t"]
  by (auto simp: cancel_tree tq_wf_def distinct_map_filter)

lemma tq_wf_recalc [simp]: "tq_wf (usteer_timeout_recalc q time) = tq_wf q"
  by (simp add: tq_wf_def)

lemma tq_wf_init: "tq_wf usteer_timeout_init"
  by (simp add: tq_wf_def usteer_timeout_init_def)

lemma tq_sorted_at_filter:
  "tq_sorted_at time q \<Longrightarrow> tq_tree q' = filter P (tq_tree q) \<Longrightarrow> tq_sorted_at time q'"
  by (simp add: tq_sorted_at_def sorted_wrt_filter)

section \<open>Setting a timer\<close>

context avl_dups_tree
begin

lemma ins_set: "set (ins cmp x xs) = insert x (set xs)"
  using ins_place [of xs cmp x] by auto

lemma ins_distinct:
  "snd x \<notin> snd ` set xs \<Longrightarrow> distinct (map snd (ins cmp x xs)) = distinct (map snd xs)"
  using ins_place [of xs cmp x] by auto

lemma set_tree_eq:
  assumes "tq_wf q"
  shows "tq_tree (usteer_timeout_set ins q t msecs time) =
    ins (\<lambda>k1 k2. usteer_timeout_cmp k1 k2 time) (time + msecs, t) (filter (\<lambda>x. snd x \<noteq> t) (tq_tree q))"
proof -
  have "tq_linked q t \<or> filter (\<lambda>x. snd x \<noteq> t) (tq_tree q) = tq_tree q"
    using assms by (auto simp: tq_wf_def intro!: filter_True)
  then show ?thesis
    by (auto simp: usteer_timeout_set_def Let_def usteer_timeout_isset_def timeout_tree_cancel_def)
qed

lemma set_linked [simp]:
  "tq_linked (usteer_timeout_set ins q t msecs time) = (tq_linked q)(t := True)"
  by (simp add: usteer_timeout_set_def Let_def timeout_tree_cancel_def)

lemma set_ref [simp]: "tq_ref (usteer_timeout_set ins q t msecs time) = time"
  by (simp add: usteer_timeout_set_def Let_def timeout_tree_cancel_def)

lemma set_tree_set:
  "tq_wf q \<Longrightarrow> set (tq_tree (usteer_timeout_set ins q t msecs time)) =
   insert (time + msecs, t) {x \<in> set (tq_tree q). snd x \<noteq> t}"
  by (simp add: set_tree_eq ins_set)

lemma set_wf: "tq_wf q \<Longrightarrow> tq_wf (usteer_timeout_set ins q t msecs time)"
  unfolding tq_wf_def [of "usteer_timeout_set ins q t msecs time"]
  by (simp add: set_tree_eq ins_set ins_distinct distinct_map_filter image_iff)
     (force simp: tq_wf_def distinct_map_filter image_iff)

lemma set_sorted:
  assumes "tq_wf q" "tq_sorted_at (tq_ref q) q" "tq_window q time"
  shows "tq_sorted_at time (usteer_timeout_set ins q t msecs time)"
proof -
  let ?c = "\<lambda>k1 k2. usteer_timeout_cmp k1 k2 time"
  have "sorted_wrt (due_le time) (filter (\<lambda>x. snd x \<noteq> t) (tq_tree q))"
    using tq_sorted_at_window [OF assms(2,3)] by (simp add: tq_sorted_at_def sorted_wrt_filter)
  then have "sorted_wrt (\<lambda>x y. ?c (fst x) (fst y) \<le> 0) (filter (\<lambda>x. snd x \<noteq> t) (tq_tree q))"
    by (simp add: usteer_timeout_cmp_le usteer_timeout_delta_def)
  then have "sorted_wrt (\<lambda>x y. ?c (fst x) (fst y) \<le> 0)
      (ins ?c (time + msecs, t) (filter (\<lambda>x. snd x \<noteq> t) (tq_tree q)))"
    by (intro ins_sorted) (auto simp: usteer_timeout_cmp_le)
  then show ?thesis
    by (simp add: tq_sorted_at_def set_tree_eq assms(1) usteer_timeout_cmp_le usteer_timeout_delta_def)
qed

text \<open>
  The uloop timeout is re-armed for the head of the queue whenever the head can have changed.
\<close>

lemma set_arms:
  fixes q t msecs time
  assumes "tq_wf q"
  defines "q' \<equiv> usteer_timeout_set ins q t msecs time"
  shows "tq_timeout q' = Some (let d = usteer_timeout_delta (hd (tq_tree q')) time
                               in if sint d < 1 then 1 else d) \<or>
         (tq_timeout q' = tq_timeout q \<and> tq_tree q \<noteq> [] \<and> hd (tq_tree q') = hd (tq_tree q))"
proof -
  let ?f = "filter (\<lambda>x. snd x \<noteq> t) (tq_tree q)"
  let ?c = "\<lambda>k1 k2. usteer_timeout_cmp k1 k2 time"
  let ?l = "ins ?c (time + msecs, t) ?f"
  have tree: "tq_tree q' = ?l" using set_tree_eq [OF assms(1)] by (simp add: q'_def)
  obtain ys zs where fs: "?f = ys @ zs" and l: "?l = ys @ (time + msecs, t) # zs"
    using ins_place [of ?f ?c "(time + msecs, t)"] by auto
  show ?thesis
  proof (cases "tq_timeout q' = tq_timeout q \<and> tq_tree q \<noteq> [] \<and> hd (tq_tree q') = hd (tq_tree q)")
    case False
    have "(usteer_timeout_isset q t \<and> avl_is_first q t) \<or> snd (hd ?l) = t"
    proof (rule ccontr)
      assume neg: "\<not> ((usteer_timeout_isset q t \<and> avl_is_first q t) \<or> snd (hd ?l) = t)"
      with l obtain y ys' where ys: "ys = y # ys'" by (cases ys) auto
      from fs ys have ne: "tq_tree q \<noteq> []" by auto
      have "snd (hd (tq_tree q)) \<noteq> t"
        using neg assms(1) ne
        by (auto simp: avl_is_first_def usteer_timeout_isset_def tq_wf_def split: list.splits)
      with fs ys ne have "hd (tq_tree q) = y" by (cases "tq_tree q") auto
      with l ys ne tree have "hd (tq_tree q') = hd (tq_tree q)" by simp
      moreover from neg l ys have "tq_timeout q' = tq_timeout q"
        using tree unfolding q'_def
        by (auto simp: usteer_timeout_set_def Let_def avl_is_first_def usteer_timeout_isset_def
            timeout_tree_cancel_def split: if_splits list.splits)
      ultimately show False using False ne by blast
    qed
    then show ?thesis
      using tree l unfolding q'_def
      by (cases ys)
         (auto simp: usteer_timeout_set_def Let_def avl_is_first_def usteer_timeout_isset_def
            timeout_tree_cancel_def usteer_timeout_recalc_def usteer_timeout_delta_def
            split: list.splits if_splits)
  qed auto
qed

end

interpretation ordered: avl_dups_tree ordered_insert
proof unfold_locales
  fix xs cmp x
  show "\<exists>ys zs. xs = ys @ zs \<and> ordered_insert cmp x xs = ys @ x # zs"
  proof (induction xs)
    case (Cons y xs)
    then obtain ys zs where "xs = ys @ zs" "ordered_insert cmp x xs = ys @ x # zs" by auto
    then have "y # xs = (y # ys) @ zs" "y # ordered_insert cmp x xs = (y # ys) @ x # zs" by auto
    then show ?case by (cases "0 < cmp (fst y) (fst x)") (auto, metis append_Cons)
  qed simp
next
  fix cmp :: "u32 \<Rightarrow> u32 \<Rightarrow> int" and xs :: "tnode list" and x
  assume total: "\<And>a b. cmp a b \<le> 0 \<or> cmp b a \<le> 0"
    and trans: "\<And>a b c. cmp a b \<le> 0 \<Longrightarrow> cmp b c \<le> 0 \<Longrightarrow> cmp a c \<le> 0"
    and "sorted_wrt (\<lambda>x y. cmp (fst x) (fst y) \<le> 0) xs"
  have mem: "set (ordered_insert cmp x ys) = insert x (set ys)" for ys
    by (induction ys) auto
  show "sorted_wrt (\<lambda>x y. cmp (fst x) (fst y) \<le> 0) (ordered_insert cmp x xs)"
    using \<open>sorted_wrt _ xs\<close>
  proof (induction xs)
    case (Cons y xs)
    show ?case
    proof (cases "0 < cmp (fst y) (fst x)")
      case True
      with total [of "fst x" "fst y"] have "cmp (fst x) (fst y) \<le> 0" by linarith
      with True Cons.prems trans show ?thesis by auto
    next
      case False
      with Cons show ?thesis by (auto simp: mem)
    qed
  qed simp
qed

section \<open>Expiry\<close>

text \<open>A sweep runs the callback on the maximal prefix of due timers.\<close>

lemma timeout_sweep_eq:
  "timeout_sweep modq cb time ts found s =
   map_option (\<lambda>s'. (s', found \<or> takeWhile (timer_due time) ts \<noteq> []))
     (for_each (\<lambda>t s. cb (snd t) (modq (\<lambda>q. usteer_timeout_cancel q (snd t)) s))
        (takeWhile (timer_due time) ts) s)"
  by (induction ts arbitrary: s found)
     (auto simp: timer_due_def not_less[symmetric] Option.map_conv_bind_option Option.bind_assoc
        comp_def intro!: Option.bind_cong)

lemma sorted_takeWhile_due:
  assumes "sorted_wrt (due_le time) ts"
  shows "takeWhile (timer_due time) ts = filter (timer_due time) ts"
  using assms
proof (induction ts)
  case (Cons t ts)
  then have "\<not> timer_due time t \<Longrightarrow> filter (timer_due time) ts = []"
    by (auto simp: timer_due_def filter_empty_conv)
  with Cons show ?case by auto
qed simp

context timeout_client
begin

abbreviation fire :: "tnode \<Rightarrow> 's \<Rightarrow> 's option" where
  "fire t s \<equiv> cb (snd t) (modq (\<lambda>q. usteer_timeout_cancel q (snd t)) s)"

lemma fire_all:
  assumes "ok s" "distinct (map snd ts)" "set ts \<subseteq> set (tq_tree (getq s))"
  shows "\<exists>s'. for_each fire ts s = Some s' \<and> ok s' \<and>
    tq_tree (getq s') = filter (\<lambda>x. snd x \<notin> snd ` set ts) (tq_tree (getq s)) \<and>
    tq_ref (getq s') = tq_ref (getq s) \<and> owners s' = owners s - snd ` set ts"
  using assms
proof (induction ts arbitrary: s)
  case (Cons t ts)
  have wf: "tq_wf (getq s)" using ok_tq_wf [OF Cons.prems(1)] .
  with Cons.prems(3) have "tq_linked (getq s) (snd t)" by (auto simp: tq_wf_def)
  from cb_runs [OF Cons.prems(1) this] obtain s1 where
    s1: "fire t s = Some s1" "ok s1" "getq s1 = usteer_timeout_cancel (getq s) (snd t)"
      "owners s1 = owners s - {snd t}" by blast
  have tree1: "tq_tree (getq s1) = filter (\<lambda>x. snd x \<noteq> snd t) (tq_tree (getq s))"
    using wf s1(3) by (simp add: cancel_tree)
  have "set ts \<subseteq> set (tq_tree (getq s1))"
    using Cons.prems(2,3) tree1 by (force simp: image_iff)
  with Cons.IH [OF s1(2)] Cons.prems(2) obtain s' where
    s': "for_each fire ts s1 = Some s'" "ok s'"
      "tq_tree (getq s') = filter (\<lambda>x. snd x \<notin> snd ` set ts) (tq_tree (getq s1))"
      "tq_ref (getq s') = tq_ref (getq s1)" "owners s' = owners s1 - snd ` set ts" by auto
  have "tq_tree (getq s') = filter (\<lambda>x. snd x \<notin> snd ` set (t # ts)) (tq_tree (getq s))"
    using s'(3) tree1 by (auto intro: filter_cong)
  with s1 s' show ?case by auto
qed auto

text \<open>One sweep at a time inside the window removes exactly the due timers.\<close>

lemma sweep_runs:
  assumes "ok s" "tq_sorted_at (tq_ref (getq s)) (getq s)" "tq_window (getq s) time"
  defines "due \<equiv> filter (timer_due time) (tq_tree (getq s))"
  shows "\<exists>s'. timeout_sweep modq cb time (tq_tree (getq s)) False s = Some (s', due \<noteq> []) \<and>
    ok s' \<and> tq_ref (getq s') = tq_ref (getq s) \<and> owners s' = owners s - snd ` set due \<and>
    tq_tree (getq s') = filter (\<lambda>x. \<not> timer_due time x) (tq_tree (getq s))"
proof -
  let ?ts = "tq_tree (getq s)"
  have wf: "tq_wf (getq s)" using ok_tq_wf [OF assms(1)] .
  have eq: "takeWhile (timer_due time) ?ts = due"
    using sorted_takeWhile_due tq_sorted_at_window [OF assms(2,3)]
    by (simp add: due_def tq_sorted_at_def)
  have dist: "distinct (map snd ?ts)" using wf by (simp add: tq_wf_def)
  from fire_all [OF assms(1), of due] dist obtain s' where
    s': "for_each fire due s = Some s'" "ok s'" "tq_ref (getq s') = tq_ref (getq s)"
      "owners s' = owners s - snd ` set due"
      "tq_tree (getq s') = filter (\<lambda>x. snd x \<notin> snd ` set due) ?ts"
    by (auto simp: due_def distinct_map_filter)
  have "filter (\<lambda>x. snd x \<notin> snd ` set due) ?ts = filter (\<lambda>x. \<not> timer_due time x) ?ts"
  proof (rule filter_cong [OF refl])
    fix x assume "x \<in> set ?ts"
    then show "(snd x \<notin> snd ` set due) = (\<not> timer_due time x)"
      using dist by (auto simp: due_def distinct_map inj_on_def)
  qed
  with s' show ?thesis by (auto simp: timeout_sweep_eq eq)
qed

text \<open>
  With one clock reading more than there are timers the loop ends; it leaves exactly the
  timers that no sweep found due, none of them due at the last reading.
\<close>

lemma cb_returns:
  assumes "ok s" "tq_sorted_at (tq_ref (getq s)) (getq s)"
    and "\<forall>r \<in> set readings. tq_window (getq s) r"
    and "length (tq_tree (getq s)) < length readings"
  shows "\<exists>s' n. usteer_timeout_cb getq modq cb readings s = Some s' \<and> ok s' \<and> n < length readings \<and>
    tq_tree (getq s') =
      filter (\<lambda>x. \<forall>r \<in> set (take (Suc n) readings). \<not> timer_due r x) (tq_tree (getq s)) \<and>
    owners s' = owners s -
      {t. \<exists>x \<in> set (tq_tree (getq s)). snd x = t \<and> (\<exists>r \<in> set (take (Suc n) readings). timer_due r x)} \<and>
    getq s' = usteer_timeout_recalc (getq s') (readings ! n)"
  using assms
proof (induction readings arbitrary: s)
  case (Cons r rs)
  let ?q = "getq s"
  let ?due = "filter (timer_due r) (tq_tree ?q)"
  have "tq_window ?q r" using Cons.prems(3) by simp
  from sweep_runs [OF Cons.prems(1,2) this] obtain s1 where
    s1: "timeout_sweep modq cb r (tq_tree ?q) False s = Some (s1, ?due \<noteq> [])" "ok s1"
      "tq_ref (getq s1) = tq_ref ?q" "owners s1 = owners s - snd ` set ?due"
      "tq_tree (getq s1) = filter (\<lambda>x. \<not> timer_due r x) (tq_tree ?q)" by blast
  show ?case
  proof (cases "?due = []")
    case True
    let ?s' = "modq (\<lambda>q. usteer_timeout_recalc q r) s1"
    have "tq_tree (getq s1) = tq_tree ?q" using s1(5) True by (auto simp: filter_empty_conv)
    moreover have "usteer_timeout_recalc (usteer_timeout_recalc q r) r = usteer_timeout_recalc q r"
      for q by (auto simp: usteer_timeout_recalc_def Let_def split: list.splits)
    ultimately show ?thesis
      using s1 True ok_recalc [OF s1(2), of r]
      by (intro exI [of _ ?s'] exI [of _ 0]) (auto simp: getq_modq owners_modq filter_empty_conv)
  next
    case False
    have "length (tq_tree (getq s1)) < length (tq_tree ?q)"
      using s1(5) False by (auto simp: filter_empty_conv intro: length_filter_less)
    then have len: "length (tq_tree (getq s1)) < length rs" using Cons.prems(4) by simp
    have win: "\<forall>t \<in> set rs. tq_window (getq s1) t"
      using Cons.prems(3) s1(3,5) by (auto intro: tq_window_subset [of ?q])
    have "tq_sorted_at (tq_ref (getq s1)) (getq s1)"
      using Cons.prems(2) s1(3,5) by (auto intro: tq_sorted_at_filter)
    from Cons.IH [OF s1(2) this win len] obtain s' n where
      "usteer_timeout_cb getq modq cb rs s1 = Some s'" "ok s'" "n < length rs"
      "tq_tree (getq s') =
        filter (\<lambda>x. \<forall>t \<in> set (take (Suc n) rs). \<not> timer_due t x) (tq_tree (getq s1))"
      "owners s' = owners s1 -
        {t. \<exists>x \<in> set (tq_tree (getq s1)). snd x = t \<and> (\<exists>r \<in> set (take (Suc n) rs). timer_due r x)}"
      "getq s' = usteer_timeout_recalc (getq s') (rs ! n)" by blast
    moreover from this(5) s1(4,5) have "owners s' = owners s - {t. \<exists>x \<in> set (tq_tree ?q). snd x = t \<and>
        (\<exists>u \<in> set (take (Suc (Suc n)) (r # rs)). timer_due u x)}"
      by (force simp: image_iff)
    ultimately show ?thesis
      using s1(1,5) False by (intro exI [of _ s'] exI [of _ "Suc n"]) (auto intro: filter_cong)
  qed
qed simp

end

section \<open>Properties\<close>

text \<open>
  For a fixed reference time the comparator is a total order on the expiry keys: it is
  antisymmetric and transitive, and it answers 0 exactly for equal keys. (This is what makes
  the AVL tree a queue; the order is the order of the signed distances to the reference time,
  so it survives a wrap-around of the 32-bit clock.)
\<close>

lemma timeout_cmp_total_order:
  "usteer_timeout_cmp k1 k2 ref = - usteer_timeout_cmp k2 k1 ref \<and>
   (usteer_timeout_cmp k1 k2 ref \<le> 0 \<longrightarrow> usteer_timeout_cmp k2 k3 ref \<le> 0 \<longrightarrow>
    usteer_timeout_cmp k1 k3 ref \<le> 0) \<and>
   (usteer_timeout_cmp k1 k2 ref = 0 \<longleftrightarrow> k1 = k2)"
proof (intro conjI impI)
  show "usteer_timeout_cmp k1 k2 ref = - usteer_timeout_cmp k2 k1 ref"
    by (simp add: usteer_timeout_cmp_def Let_def)
  show "usteer_timeout_cmp k1 k2 ref = 0 \<longleftrightarrow> k1 = k2"
    by (rule usteer_timeout_cmp_eq)
qed (simp add: usteer_timeout_cmp_le)

text \<open>
  C20. Setting a timer on a queue that is well formed and ordered, while time has not run out of
  the clock's window, leaves exactly one entry for the timer, with the new expiry time, and all
  other timers alone; the queue is again well formed and ordered with respect to the new
  reference time; and the event loop is armed for the head of the queue (at least one
  millisecond ahead) unless the head has not changed.
\<close>

theorem timeout_set_keeps_queue:
  fixes q :: usteer_timeout_queue and t :: nat and msecs :: s32 and time :: u32
  assumes "avl_dups_tree ins" "tq_wf q" "tq_sorted_at (tq_ref q) q" "tq_window q time"
  defines "q' \<equiv> usteer_timeout_set ins q t msecs time"
  shows "tq_wf q' \<and> tq_sorted_at (tq_ref q') q' \<and> tq_ref q' = time \<and>
    set (tq_tree q') = insert (time + msecs, t) {x \<in> set (tq_tree q). snd x \<noteq> t} \<and>
    (tq_timeout q' = Some (let d = usteer_timeout_delta (hd (tq_tree q')) time
                           in if sint d < 1 then 1 else d) \<or>
     (tq_timeout q' = tq_timeout q \<and> tq_tree q \<noteq> [] \<and> hd (tq_tree q') = hd (tq_tree q)))"
  unfolding q'_def
  using avl_dups_tree.set_wf [OF assms(1,2)] avl_dups_tree.set_sorted [OF assms(1-4)]
    avl_dups_tree.set_ref [OF assms(1)] avl_dups_tree.set_tree_set [OF assms(1,2)]
    avl_dups_tree.set_arms [OF assms(1,2)]
  by simp

theorem timeout_set_keeps_queue_witness:
  "tq_tree (usteer_timeout_set ordered_insert
     \<lparr>tq_tree = [(4294967295, 1), (20, 2)], tq_ref = 4294967290, tq_timeout = Some 5,
      tq_linked = (\<lambda>t. t = 1 \<or> t = 2)\<rparr> 2 2 4294967292) = [(4294967294, 2), (4294967295, 1)] \<and>
   tq_timeout (usteer_timeout_set ordered_insert
     \<lparr>tq_tree = [(4294967295, 1), (20, 2)], tq_ref = 4294967290, tq_timeout = Some 5,
      tq_linked = (\<lambda>t. t = 1 \<or> t = 2)\<rparr> 2 2 4294967292) = Some 2 \<and>
   tq_wf (usteer_timeout_set ordered_insert
     \<lparr>tq_tree = [(4294967295, 1), (20, 2)], tq_ref = 4294967290, tq_timeout = Some 5,
      tq_linked = (\<lambda>t. t = 1 \<or> t = 2)\<rparr> 2 2 4294967292)"
proof -
  let ?q = "\<lparr>tq_tree = [(4294967295, 1), (20, 2)], tq_ref = 4294967290, tq_timeout = Some 5,
      tq_linked = (\<lambda>t. t = 1 \<or> t = 2)\<rparr>"
  have "tq_wf ?q" "tq_sorted_at (tq_ref ?q) ?q" "tq_window ?q 4294967292"
    by (auto simp: tq_wf_def tq_sorted_at_def tq_window_def usteer_timeout_delta_def)
  from timeout_set_keeps_queue [OF ordered.avl_dups_tree_axioms this, of 2 2] show ?thesis
    by (simp add: usteer_timeout_set_def Let_def usteer_timeout_isset_def avl_is_first_def
        timeout_tree_cancel_def usteer_timeout_recalc_def usteer_timeout_cmp_def usteer_timeout_delta_def)
qed

end
