(* ===== verification/Stations.thy ===== *)
theory Stations
  imports Timeout
begin

text \<open>
  sta.c (without the event handler, theory Sta_Event) and the beacon report lists of
  hearing_map.c it frees: stations, their entries per node, creation, lookup, expiry and
  deletion. The invariant \<open>wf_state\<close> says that the three ways to reach an entry (heap, station
  list, node list) and the timeout queue agree; every operation keeps it and is defined on
  every well-formed state, so that no freed entry is ever followed.

  \<open>now\<close> is the reading of the monotonic clock (in milliseconds, 32 bits) that
  \<^verbatim>\<open>usteer_timeout_set\<close> takes. Allocation is assumed to succeed: the code does not check it.
\<close>

section \<open>Model\<close>

subsection \<open>Beacon report lists (hearing_map.c)\<close>

definition usteer_beacon_report_delete :: "usteer_state \<Rightarrow> beacon_report \<Rightarrow> mac \<Rightarrow> bool" where
  "usteer_beacon_report_delete s br bssid =
     (if br_bssid br = bssid then True
      else
        (let time_diff = current_time s - br_usteer_time br;
             time_diff_conf = (ucast (beacon_report_invalide_timeout (config s) * 1000) :: u64)
         in time_diff_conf < time_diff))"

definition usteer_beacon_report_cleanup ::
    "nat \<Rightarrow> mac option \<Rightarrow> usteer_state \<Rightarrow> usteer_state option" where
  "usteer_beacon_report_cleanup a bssid s =
     upd_si a (\<lambda>si. si\<lparr>si_beacon_reports :=
       (case bssid of
          None \<Rightarrow> []
        | Some b \<Rightarrow> filter (\<lambda>br. \<not> usteer_beacon_report_delete s br b) (si_beacon_reports si))\<rparr>) s"

subsection \<open>Stations and entries (sta.c)\<close>

definition usteer_sta_del :: "mac \<Rightarrow> usteer_state \<Rightarrow> usteer_state" where
  "usteer_sta_del m s = s\<lparr>stations := dict_delete m (stations s)\<rparr>"

definition usteer_sta_info_del :: "nat \<Rightarrow> usteer_state \<Rightarrow> usteer_state option" where
  "usteer_sta_info_del a s = do {
     si \<leftarrow> si_heap s a;
     _ \<leftarrow> get_sta s (si_sta si);
     _ \<leftarrow> get_node s (si_node si);
     let s = s\<lparr>tq := usteer_timeout_cancel (tq s) a\<rparr>;
     s \<leftarrow> usteer_beacon_report_cleanup a None s;
     let s = upd_sta (si_sta si) (\<lambda>st. st\<lparr>st_nodes := remove1 a (st_nodes st)\<rparr>) s;
     let s = upd_node (si_node si) (\<lambda>nd. nd\<lparr>node_sta_info := remove1 a (node_sta_info nd)\<rparr>) s;
     let s = s\<lparr>si_heap := (si_heap s)(a := None)\<rparr>;
     st \<leftarrow> get_sta s (si_sta si);
     Some (if st_nodes st = [] then usteer_sta_del (si_sta si) s else s)
   }"

definition usteer_sta_node_cleanup :: "node_ref \<Rightarrow> usteer_state \<Rightarrow> usteer_state option" where
  "usteer_sta_node_cleanup r s = do {
     nd \<leftarrow> get_node s r;
     let s = upd_node r (\<lambda>nd. nd\<lparr>node_rrm_nr := None\<rparr>) s;
     for_each usteer_sta_info_del (node_sta_info nd) s
   }"

definition usteer_sta_info_timeout :: "nat \<Rightarrow> usteer_state \<Rightarrow> usteer_state option" where
  "usteer_sta_info_timeout a s = usteer_sta_info_del a s"

text \<open>The search loop of \<^verbatim>\<open>usteer_sta_info_get\<close>; every entry passed is dereferenced.\<close>

fun sta_info_scan :: "usteer_state \<Rightarrow> node_ref \<Rightarrow> nat list \<Rightarrow> nat option option" where
  "sta_info_scan s r [] = Some None"
| "sta_info_scan s r (a # as) =
     (case si_heap s a of
        None \<Rightarrow> None
      | Some si \<Rightarrow> if si_node si = r then Some (Some a) else sta_info_scan s r as)"

text \<open>
  \<^verbatim>\<open>create\<close> is an optional out-parameter: without it nothing is created. The result is the
  entry, the value stored through the pointer, and the new state.
\<close>

definition usteer_sta_info_get ::
    "mac \<Rightarrow> node_ref \<Rightarrow> bool \<Rightarrow> usteer_state \<Rightarrow> (nat option \<times> bool \<times> usteer_state) option" where
  "usteer_sta_info_get m r create s = do {
     st \<leftarrow> get_sta s m;
     found \<leftarrow> sta_info_scan s r (st_nodes st);
     (case found of
        Some a \<Rightarrow> Some (Some a, False, s)
      | None \<Rightarrow>
          if \<not> create then Some (None, False, s)
          else do {
            nd \<leftarrow> get_node s r;
            let a = si_next s;
            let si = calloc_sta_info r m;
            let si = si\<lparr>si_beacon_request := (si_beacon_request si)\<lparr>breq_band := node_freq nd\<rparr>\<rparr>;
            let si = si\<lparr>si_created := current_time s\<rparr>;
            let s = s\<lparr>si_heap := (si_heap s)(a \<mapsto> si), si_next := Suc a\<rparr>;
            let s = upd_sta m (\<lambda>st. st\<lparr>st_nodes := a # st_nodes st\<rparr>) s;
            let s = upd_node r (\<lambda>nd. nd\<lparr>node_sta_info := a # node_sta_info nd\<rparr>) s;
            Some (Some a, True, s)
          })
   }"

definition usteer_sta_info_update_timeout ::
    "tree_insert \<Rightarrow> u32 \<Rightarrow> nat \<Rightarrow> s32 \<Rightarrow> usteer_state \<Rightarrow> usteer_state option" where
  "usteer_sta_info_update_timeout ins now a timeout s = do {
     si \<leftarrow> si_heap s a;
     (if si_connected si = 1 then Some (s\<lparr>tq := usteer_timeout_cancel (tq s) a\<rparr>)
      else if 0 < sint timeout then Some (s\<lparr>tq := usteer_timeout_set ins (tq s) a timeout now\<rparr>)
      else usteer_sta_info_del a s)
   }"

definition usteer_sta_get :: "mac \<Rightarrow> bool \<Rightarrow> usteer_state \<Rightarrow> mac option \<times> usteer_state" where
  "usteer_sta_get m create s =
     (case get_sta s m of
        Some _ \<Rightarrow> (Some m, s)
      | None \<Rightarrow>
          if \<not> create then (None, s)
          else (Some m, s\<lparr>stations := dict_insert m
                  \<lparr>st_nodes = [], st_seen_2ghz = False, st_seen_5ghz = False, st_addr = m\<rparr>
                  (stations s)\<rparr>))"

definition NO_SIGNAL :: s32 where "NO_SIGNAL = 255"

definition usteer_sta_info_update ::
    "tree_insert \<Rightarrow> u32 \<Rightarrow> nat \<Rightarrow> s32 \<Rightarrow> bool \<Rightarrow> usteer_state \<Rightarrow> usteer_state option" where
  "usteer_sta_info_update ins now a signal avg s = do {
     si \<leftarrow> si_heap s a;
     let signal = (if si_connected si = 1 \<and> si_signal si \<noteq> NO_SIGNAL \<and> \<not> avg
                   then NO_SIGNAL else signal);
     s \<leftarrow> upd_si a (\<lambda>si. (if signal \<noteq> NO_SIGNAL then si\<lparr>si_signal := signal\<rparr> else si)
                         \<lparr>si_seen := current_time s\<rparr>) s;
     usteer_sta_info_update_timeout ins now a (local_sta_timeout (config s)) s
   }"

text \<open>
  The sequence every handler starts with: find or create the station, then its entry at a node.
\<close>

definition sta_info_obtain ::
    "mac \<Rightarrow> node_ref \<Rightarrow> usteer_state \<Rightarrow> (nat \<times> bool \<times> usteer_state) option" where
  "sta_info_obtain m r s =
     (case usteer_sta_get m True s of
        (None, _) \<Rightarrow> None
      | (Some m, s) \<Rightarrow>
          (case usteer_sta_info_get m r True s of
             Some (Some a, create, s) \<Rightarrow> Some (a, create, s)
           | _ \<Rightarrow> None))"

text \<open>The entry of a station at a node, as the search finds it.\<close>

definition entry :: "usteer_state \<Rightarrow> mac \<Rightarrow> node_ref \<Rightarrow> nat option" where
  "entry s m r = (case get_sta s m of None \<Rightarrow> None
     | Some st \<Rightarrow> List.find (\<lambda>a. case si_heap s a of None \<Rightarrow> False | Some si \<Rightarrow> si_node si = r) (st_nodes st))"

section \<open>Interface: a store of entries\<close>

text \<open>
  What the other components rely on: a partial map from (station, node) to entries, from which
  an entry is obtained (created on first use) and dropped.
\<close>

locale entry_store =
  fixes inv :: "'s \<Rightarrow> bool"
    and lookup :: "'s \<Rightarrow> mac \<Rightarrow> node_ref \<Rightarrow> nat option"
    and live :: "'s \<Rightarrow> node_ref \<Rightarrow> bool"
    and acquire :: "mac \<Rightarrow> node_ref \<Rightarrow> 's \<Rightarrow> (nat \<times> bool \<times> 's) option"
    and drop_entry :: "nat \<Rightarrow> 's \<Rightarrow> 's option"
  assumes lookup_inj: "inv s \<Longrightarrow> lookup s m r = Some a \<Longrightarrow> lookup s m' r' = Some a \<Longrightarrow> m' = m \<and> r' = r"
    and acquire_present: "inv s \<Longrightarrow> lookup s m r = Some a \<Longrightarrow> acquire m r s = Some (a, False, s)"
    and acquire_absent: "inv s \<Longrightarrow> lookup s m r = None \<Longrightarrow> live s r \<Longrightarrow>
      \<exists>a s'. acquire m r s = Some (a, True, s') \<and> inv s' \<and> live s' = live s \<and>
        lookup s' = (lookup s)(m := (lookup s m)(r \<mapsto> a))"
    and drop_present: "inv s \<Longrightarrow> lookup s m r = Some a \<Longrightarrow>
      \<exists>s'. drop_entry a s = Some s' \<and> inv s' \<and> live s' = live s \<and>
        lookup s' = (lookup s)(m := (lookup s m)(r := None))"
begin

text \<open>Obtaining an entry is defined, idempotent, and gives what the lookup then finds.\<close>

lemma acquire_total:
  assumes "inv s" "live s r"
  shows "\<exists>a c s'. acquire m r s = Some (a, c, s') \<and> inv s' \<and> live s' = live s \<and>
    lookup s' = (lookup s)(m := (lookup s m)(r \<mapsto> a)) \<and>
    acquire m r s' = Some (a, False, s') \<and> c = (lookup s m r = None)"
proof (cases "lookup s m r")
  case None
  with acquire_absent [OF assms(1) None assms(2)] show ?thesis
    using acquire_present by fastforce
next
  case (Some a)
  with acquire_present [OF assms(1) Some] assms(1) show ?thesis by (auto simp: fun_upd_idem)
qed

text \<open>Creating an entry and dropping it again restores the map.\<close>

lemma acquire_drop:
  assumes "inv s" "live s r" "lookup s m r = None"
  shows "\<exists>a s' s''. acquire m r s = Some (a, True, s') \<and> drop_entry a s' = Some s'' \<and>
    inv s'' \<and> lookup s'' = lookup s"
proof -
  from acquire_absent [OF assms(1,3,2)] obtain a s' where
    s': "acquire m r s = Some (a, True, s')" "inv s'"
      "lookup s' = (lookup s)(m := (lookup s m)(r \<mapsto> a))" by blast
  then have "lookup s' m r = Some a" by simp
  from drop_present [OF s'(2) this] obtain s'' where
    "drop_entry a s' = Some s''" "inv s''" "lookup s'' = (lookup s')(m := (lookup s' m)(r := None))"
    by blast
  with s' assms(3) show ?thesis by (auto simp: fun_upd_idem)
qed

end

section \<open>Well-formed states\<close>

text \<open>What the invariant reads of stations and nodes: the address and the entry lists.\<close>

definition sta_view :: "usteer_state \<Rightarrow> mac \<Rightarrow> (mac \<times> nat list) option" where
  "sta_view s m = map_option (\<lambda>st. (st_addr st, st_nodes st)) (get_sta s m)"

definition node_view :: "usteer_state \<Rightarrow> node_ref \<Rightarrow> nat list option" where
  "node_view s r = map_option node_sta_info (get_node s r)"

definition sta_ok :: "usteer_state \<Rightarrow> bool" where
  "sta_ok s \<longleftrightarrow> (\<forall>m ad as. sta_view s m = Some (ad, as) \<longrightarrow> ad = m \<and> distinct as \<and>
     (\<forall>a. a \<in> set as \<longleftrightarrow> (\<exists>si. si_heap s a = Some si \<and> si_sta si = m)))"

definition node_ok :: "usteer_state \<Rightarrow> bool" where
  "node_ok s \<longleftrightarrow> (\<forall>r as. node_view s r = Some as \<longrightarrow> distinct as \<and>
     (\<forall>a. a \<in> set as \<longleftrightarrow> (\<exists>si. si_heap s a = Some si \<and> si_node si = r)))"

definition si_ok :: "usteer_state \<Rightarrow> bool" where
  "si_ok s \<longleftrightarrow> (\<forall>a si. si_heap s a = Some si \<longrightarrow> a < si_next s \<and>
     sta_view s (si_sta si) \<noteq> None \<and> node_view s (si_node si) \<noteq> None \<and>
     length (si_stats si) = 4 \<and> (\<forall>br \<in> set (si_beacon_reports si). br_address br = a))"

definition si_unique :: "usteer_state \<Rightarrow> bool" where
  "si_unique s \<longleftrightarrow> (\<forall>a b sa sb. si_heap s a = Some sa \<longrightarrow> si_heap s b = Some sb \<longrightarrow>
     si_sta sa = si_sta sb \<longrightarrow> si_node sa = si_node sb \<longrightarrow> a = b)"

definition timers_ok :: "usteer_state \<Rightarrow> bool" where
  "timers_ok s \<longleftrightarrow> tq_wf (tq s) \<and> (\<forall>a. tq_linked (tq s) a \<longrightarrow> si_heap s a \<noteq> None)"

definition keys_ok :: "usteer_state \<Rightarrow> bool" where
  "keys_ok s \<longleftrightarrow> dict_ok (stations s) \<and> dict_ok (local_nodes s) \<and>
     distinct (map fst (remote_nodes s)) \<and> (\<forall>a \<in> set (map fst (remote_nodes s)). a < rn_next s)"

text \<open>
  \<open>wf_core\<close> holds also in the middle of an operation, when a station has just been created
  and has no entry yet; \<open>wf_state\<close> between operations.
\<close>

definition wf_core :: "usteer_state \<Rightarrow> bool" where
  "wf_core s \<longleftrightarrow> sta_ok s \<and> node_ok s \<and> si_ok s \<and> si_unique s \<and> timers_ok s \<and> keys_ok s"

definition no_empty_sta :: "usteer_state \<Rightarrow> bool" where
  "no_empty_sta s \<longleftrightarrow> (\<forall>m ad as. sta_view s m = Some (ad, as) \<longrightarrow> as \<noteq> [])"

definition wf_state :: "usteer_state \<Rightarrow> bool" where
  "wf_state s \<longleftrightarrow> wf_core s \<and> no_empty_sta s"

subsection \<open>What the invariant gives\<close>

lemma wf_core_entry:
  assumes "wf_core s" "si_heap s a = Some si"
  obtains st nd where "get_sta s (si_sta si) = Some st" "a \<in> set (st_nodes st)" "st_addr st = si_sta si"
    "get_node s (si_node si) = Some nd" "a \<in> set (node_sta_info nd)"
    "length (si_stats si) = 4" "a < si_next s"
proof -
  from assms have ok: "si_ok s" "sta_ok s" "node_ok s" by (auto simp: wf_core_def)
  from ok(1) assms(2) have "sta_view s (si_sta si) \<noteq> None" "node_view s (si_node si) \<noteq> None"
    and rest: "length (si_stats si) = 4" "a < si_next s" by (auto simp: si_ok_def)
  then obtain st nd where st: "get_sta s (si_sta si) = Some st" and nd: "get_node s (si_node si) = Some nd"
    by (auto simp: sta_view_def node_view_def)
  from st have "sta_view s (si_sta si) = Some (st_addr st, st_nodes st)" by (simp add: sta_view_def)
  with ok(2) assms(2) have "a \<in> set (st_nodes st)" "st_addr st = si_sta si"
    unfolding sta_ok_def by blast+
  moreover from nd have "node_view s (si_node si) = Some (node_sta_info nd)" by (simp add: node_view_def)
  with ok(3) assms(2) have "a \<in> set (node_sta_info nd)" unfolding node_ok_def by blast
  ultimately show ?thesis using that st nd rest by blast
qed

lemma wf_core_sta:
  assumes "wf_core s" "get_sta s m = Some st"
  shows "distinct (st_nodes st)"
    and "a \<in> set (st_nodes st) \<longleftrightarrow> (\<exists>si. si_heap s a = Some si \<and> si_sta si = m)"
proof -
  have "sta_view s m = Some (st_addr st, st_nodes st)" using assms by (simp add: sta_view_def)
  with assms(1) have *: "distinct (st_nodes st) \<and>
      (\<forall>a. a \<in> set (st_nodes st) \<longleftrightarrow> (\<exists>si. si_heap s a = Some si \<and> si_sta si = m))"
    unfolding wf_core_def sta_ok_def by blast
  from * show "distinct (st_nodes st)" by blast
  from * show "a \<in> set (st_nodes st) \<longleftrightarrow> (\<exists>si. si_heap s a = Some si \<and> si_sta si = m)" by blast
qed

lemma wf_core_node:
  assumes "wf_core s" "get_node s r = Some nd"
  shows "distinct (node_sta_info nd)"
    and "a \<in> set (node_sta_info nd) \<longleftrightarrow> (\<exists>si. si_heap s a = Some si \<and> si_node si = r)"
proof -
  have "node_view s r = Some (node_sta_info nd)" using assms by (simp add: node_view_def)
  with assms(1) have *: "distinct (node_sta_info nd) \<and>
      (\<forall>a. a \<in> set (node_sta_info nd) \<longleftrightarrow> (\<exists>si. si_heap s a = Some si \<and> si_node si = r))"
    unfolding wf_core_def node_ok_def by blast
  from * show "distinct (node_sta_info nd)" by blast
  from * show "a \<in> set (node_sta_info nd) \<longleftrightarrow> (\<exists>si. si_heap s a = Some si \<and> si_node si = r)" by blast
qed

lemma wf_core_unique:
  "wf_core s \<Longrightarrow> si_heap s a = Some sa \<Longrightarrow> si_heap s b = Some sb \<Longrightarrow>
   si_sta sa = si_sta sb \<Longrightarrow> si_node sa = si_node sb \<Longrightarrow> a = b"
  unfolding wf_core_def si_unique_def by blast

lemma wf_core_fresh: "wf_core s \<Longrightarrow> si_heap s (si_next s) = None"
  by (cases "si_heap s (si_next s)") (auto simp: wf_core_def si_ok_def)

section \<open>Updates that keep the invariant\<close>

text \<open>The invariant is a function of the two views, the heap, the queue and the keys.\<close>

lemma wf_core_cong:
  assumes "si_heap s' = si_heap s" "si_next s' = si_next s" "tq s' = tq s"
    and "sta_view s' = sta_view s" "node_view s' = node_view s" "keys_ok s' = keys_ok s"
  shows "wf_core s' = wf_core s"
  unfolding wf_core_def sta_ok_def node_ok_def si_ok_def si_unique_def timers_ok_def
  using assms by simp

lemma wf_cong:
  assumes "si_heap s' = si_heap s" "si_next s' = si_next s" "tq s' = tq s"
    and "sta_view s' = sta_view s" "node_view s' = node_view s" "keys_ok s' = keys_ok s"
  shows "wf_state s' = wf_state s"
  using wf_core_cong [OF assms] assms(4) by (simp add: wf_state_def no_empty_sta_def)

text \<open>States that differ in other fields only.\<close>

lemma wf_same_data:
  assumes "si_heap s' = si_heap s" "si_next s' = si_next s" "tq s' = tq s"
    and "stations s' = stations s" "local_nodes s' = local_nodes s" "remote_nodes s' = remote_nodes s"
    and "rn_next s' = rn_next s"
  shows "wf_state s' = wf_state s" "wf_core s' = wf_core s"
proof -
  have "get_node s' r = get_node s r" for r using assms by (cases r) (simp_all add: get_local_def get_remote_def)
  then have v: "node_view s' = node_view s" "sta_view s' = sta_view s" "keys_ok s' = keys_ok s"
    using assms by (simp_all add: fun_eq_iff node_view_def sta_view_def get_sta_def keys_ok_def)
  show "wf_state s' = wf_state s" by (rule wf_cong) (simp_all add: v assms)
  show "wf_core s' = wf_core s" by (rule wf_core_cong) (simp_all add: v assms)
qed

lemma view_frame [simp]:
  "sta_view (s\<lparr>si_heap := h\<rparr>) = sta_view s" "node_view (s\<lparr>si_heap := h\<rparr>) = node_view s"
  "sta_view (s\<lparr>si_next := i\<rparr>) = sta_view s" "node_view (s\<lparr>si_next := i\<rparr>) = node_view s"
  "sta_view (s\<lparr>tq := q\<rparr>) = sta_view s" "node_view (s\<lparr>tq := q\<rparr>) = node_view s"
  "sta_view (s\<lparr>current_time := t\<rparr>) = sta_view s" "node_view (s\<lparr>current_time := t\<rparr>) = node_view s"
  "sta_view (s\<lparr>config := cfg\<rparr>) = sta_view s" "node_view (s\<lparr>config := cfg\<rparr>) = node_view s"
  "sta_view (emit x s) = sta_view s" "node_view (emit x s) = node_view s"
  "sta_view (upd_node r f s) = sta_view s" "node_view (upd_sta m g s) = node_view s"
  "node_view (s\<lparr>stations := sts\<rparr>) = node_view s"
  by (simp_all add: sta_view_def node_view_def fun_eq_iff)

lemma sta_view_upd_sta [simp]:
  "(\<And>st. st_nodes (f st) = st_nodes st) \<Longrightarrow> (\<And>st. st_addr (f st) = st_addr st) \<Longrightarrow>
   sta_view (upd_sta m f s) = sta_view s"
  by (auto simp: sta_view_def fun_eq_iff option.map_comp comp_def)

lemma node_view_upd_node [simp]:
  "(\<And>nd. node_sta_info (f nd) = node_sta_info nd) \<Longrightarrow> node_view (upd_node r f s) = node_view s"
  by (auto simp: node_view_def fun_eq_iff option.map_comp comp_def)

lemma keys_frame [simp]:
  "keys_ok (s\<lparr>si_heap := h\<rparr>) = keys_ok s"
  "keys_ok (s\<lparr>si_next := i\<rparr>) = keys_ok s"
  "keys_ok (s\<lparr>tq := q\<rparr>) = keys_ok s"
  "keys_ok (s\<lparr>current_time := t\<rparr>) = keys_ok s"
  "keys_ok (s\<lparr>config := cfg\<rparr>) = keys_ok s"
  "keys_ok (emit x s) = keys_ok s"
  "keys_ok (upd_node r f s) = keys_ok s"
  "keys_ok (upd_sta m g s) = keys_ok s"
proof -
  show "keys_ok (upd_node r f s) = keys_ok s"
    unfolding keys_ok_def upd_node_frame dict_ok_def by simp
  show "keys_ok (upd_sta m g s) = keys_ok s"
    unfolding keys_ok_def upd_sta_frame dict_ok_def by simp
qed (simp_all add: keys_ok_def)

lemma keys_ok_sta_del [simp]: "keys_ok s \<Longrightarrow> keys_ok (usteer_sta_del m s)"
  by (simp add: keys_ok_def usteer_sta_del_def)

text \<open>An entry keeps its identity: station, node, statistics array, report owners.\<close>

definition same_entry :: "nat \<Rightarrow> sta_info \<Rightarrow> sta_info \<Rightarrow> bool" where
  "same_entry a si si' \<longleftrightarrow> si_sta si' = si_sta si \<and> si_node si' = si_node si \<and>
     length (si_stats si') = length (si_stats si) \<and>
     ((\<forall>br \<in> set (si_beacon_reports si). br_address br = a) \<longrightarrow>
      (\<forall>br \<in> set (si_beacon_reports si'). br_address br = a))"

lemma wf_core_heap_upd:
  assumes wf: "wf_core s" and si: "si_heap s a = Some si" and same: "same_entry a si si'"
  shows "wf_core (s\<lparr>si_heap := (si_heap s)(a \<mapsto> si')\<rparr>)"
proof -
  let ?s = "s\<lparr>si_heap := (si_heap s)(a \<mapsto> si')\<rparr>"
  have old: "\<exists>sb'. si_heap s b = Some sb' \<and> si_sta sb' = si_sta sb \<and> si_node sb' = si_node sb"
    if "si_heap ?s b = Some sb" for b sb
    using that si same by (cases "b = a") (auto simp: same_entry_def)
  have lookup: "(\<exists>x. si_heap ?s b = Some x \<and> si_sta x = m) \<longleftrightarrow>
                (\<exists>x. si_heap s b = Some x \<and> si_sta x = m)"
    "(\<exists>x. si_heap ?s b = Some x \<and> si_node x = r) \<longleftrightarrow>
     (\<exists>x. si_heap s b = Some x \<and> si_node x = r)" for b m r
    using si same by (auto simp: same_entry_def)
  have "sta_ok ?s" using wf unfolding wf_core_def sta_ok_def by (simp only: lookup view_frame) simp
  moreover have "node_ok ?s"
    using wf unfolding wf_core_def node_ok_def by (simp only: lookup view_frame) simp
  moreover have "si_ok ?s" using wf si same by (auto simp: wf_core_def si_ok_def same_entry_def)
  moreover have "si_unique ?s"
    unfolding si_unique_def
  proof (intro allI impI)
    fix b c sb sc
    assume "si_heap ?s b = Some sb" "si_heap ?s c = Some sc"
      and eq: "si_sta sb = si_sta sc" "si_node sb = si_node sc"
    with old obtain sb' sc' where
      "si_heap s b = Some sb'" "si_sta sb' = si_sta sb" "si_node sb' = si_node sb"
      "si_heap s c = Some sc'" "si_sta sc' = si_sta sc" "si_node sc' = si_node sc" by metis
    with eq show "b = c" using wf_core_unique [OF wf, of b sb' c sc'] by simp
  qed
  moreover have "timers_ok ?s" using wf si by (auto simp: wf_core_def timers_ok_def)
  moreover have "keys_ok ?s" using wf by (simp add: wf_core_def)
  ultimately show ?thesis by (simp add: wf_core_def)
qed

lemma wf_core_upd_si:
  assumes "wf_core s" "upd_si a f s = Some s'"
    and "\<And>si. si_heap s a = Some si \<Longrightarrow> same_entry a si (f si)"
  shows "wf_core s'"
  using assms wf_core_heap_upd by (auto simp: upd_si_Some)

lemma wf_core_tq:
  "wf_core s \<Longrightarrow> tq_wf q \<Longrightarrow> (\<And>a. tq_linked q a \<Longrightarrow> si_heap s a \<noteq> None) \<Longrightarrow> wf_core (s\<lparr>tq := q\<rparr>)"
  by (simp add: wf_core_def sta_ok_def node_ok_def si_ok_def si_unique_def timers_ok_def)

lemma wf_core_frame [simp]:
  "wf_core (emit x s) = wf_core s" "wf_state (emit x s) = wf_state s"
  "wf_core (s\<lparr>current_time := t\<rparr>) = wf_core s" "wf_state (s\<lparr>current_time := t\<rparr>) = wf_state s"
  "wf_core (s\<lparr>config := cfg\<rparr>) = wf_core s" "wf_state (s\<lparr>config := cfg\<rparr>) = wf_state s"
  by (intro wf_core_cong wf_cong; simp)+

lemma wf_core_upd_node [simp]:
  assumes "\<And>nd. node_sta_info (f nd) = node_sta_info nd"
  shows "wf_core (upd_node r f s) = wf_core s" "wf_state (upd_node r f s) = wf_state s"
  using assms by (intro wf_core_cong wf_cong; simp)+

lemma wf_core_upd_sta [simp]:
  assumes "\<And>st. st_nodes (f st) = st_nodes st" "\<And>st. st_addr (f st) = st_addr st"
  shows "wf_core (upd_sta m f s) = wf_core s" "wf_state (upd_sta m f s) = wf_state s"
  using assms by (intro wf_core_cong wf_cong; simp)+

section \<open>Deleting an entry\<close>

text \<open>Everything a deletion leaves alone.\<close>

definition frame_eq :: "usteer_state \<Rightarrow> usteer_state \<Rightarrow> bool" where
  "frame_eq s s' \<longleftrightarrow> config s' = config s \<and> current_time s' = current_time s \<and> out s' = out s \<and>
     map fst (local_nodes s') = map fst (local_nodes s) \<and>
     map fst (remote_nodes s') = map fst (remote_nodes s) \<and> rn_next s' = rn_next s \<and>
     interfaces s' = interfaces s"

lemma frame_eq_refl [simp]: "frame_eq s s"
  by (simp add: frame_eq_def)

lemma frame_eq_trans: "frame_eq s t \<Longrightarrow> frame_eq t u \<Longrightarrow> frame_eq s u"
  by (simp add: frame_eq_def)

lemma del_spec:
  assumes wf: "wf_core s" and si: "si_heap s a = Some si"
  shows "\<exists>s'. usteer_sta_info_del a s = Some s' \<and> frame_eq s s' \<and>
    si_heap s' = (si_heap s)(a := None) \<and> si_next s' = si_next s \<and>
    tq s' = usteer_timeout_cancel (tq s) a \<and> keys_ok s' \<and>
    (\<forall>r. node_view s' r = map_option (\<lambda>as. if r = si_node si then remove1 a as else as) (node_view s r)) \<and>
    (\<forall>m. sta_view s' m = (if m = si_sta si
        then Option.bind (sta_view s m) (\<lambda>(ad, as). if remove1 a as = [] then None
               else Some (ad, remove1 a as))
        else sta_view s m))"
proof -
  from wf_core_entry [OF wf si] obtain st nd where st: "get_sta s (si_sta si) = Some st"
    and nd: "get_node s (si_node si) = Some nd" by metis
  have ok: "keys_ok s" using wf by (simp add: wf_core_def)
  let ?s1 = "s\<lparr>tq := usteer_timeout_cancel (tq s) a,
     si_heap := (si_heap s)(a \<mapsto> si\<lparr>si_beacon_reports := []\<rparr>)\<rparr>"
  let ?s2 = "upd_node (si_node si) (\<lambda>nd. nd\<lparr>node_sta_info := remove1 a (node_sta_info nd)\<rparr>)
     (upd_sta (si_sta si) (\<lambda>st. st\<lparr>st_nodes := remove1 a (st_nodes st)\<rparr>) ?s1)"
  let ?s3 = "?s2\<lparr>si_heap := (si_heap ?s2)(a := None)\<rparr>"
  let ?s4 = "if remove1 a (st_nodes st) = [] then usteer_sta_del (si_sta si) ?s3 else ?s3"
  have run: "usteer_sta_info_del a s = Some ?s4"
    by (simp add: usteer_sta_info_del_def usteer_beacon_report_cleanup_def upd_si_def si st nd)
  have keys: "keys_ok ?s3" using ok by simp
  then have keys4: "keys_ok ?s4" by simp
  have "si_heap ?s4 = (si_heap s)(a := None)"
    by (simp add: usteer_sta_del_def)
  moreover have "node_view ?s4 r =
      map_option (\<lambda>as. if r = si_node si then remove1 a as else as) (node_view s r)" for r
    by (cases "get_node s r") (auto simp: usteer_sta_del_def node_view_def)
  moreover have "sta_view ?s4 m = (if m = si_sta si
        then Option.bind (sta_view s m) (\<lambda>(ad, as). if remove1 a as = [] then None
               else Some (ad, remove1 a as))
        else sta_view s m)" for m
    using st by (auto simp: usteer_sta_del_def sta_view_def get_sta_def upd_sta_def)
  moreover have "frame_eq s ?s4" by (simp add: frame_eq_def usteer_sta_del_def)
  ultimately show ?thesis using run keys4 by (auto simp: usteer_sta_del_def)
qed

lemma remove1_empty_iff: "remove1 a as = [] \<Longrightarrow> b \<in> set as \<Longrightarrow> b = a"
  by (cases as) (auto split: if_splits)

lemma del_wf_core:
  assumes wf: "wf_core s" and si: "si_heap s a = Some si"
    and h: "si_heap s' = (si_heap s)(a := None)" and n: "si_next s' = si_next s"
    and t: "tq s' = usteer_timeout_cancel (tq s) a" and k: "keys_ok s'"
    and nv: "\<forall>r. node_view s' r =
      map_option (\<lambda>as. if r = si_node si then remove1 a as else as) (node_view s r)"
    and sv: "\<forall>m. sta_view s' m = (if m = si_sta si
        then Option.bind (sta_view s m) (\<lambda>(ad, as). if remove1 a as = [] then None
               else Some (ad, remove1 a as))
        else sta_view s m)"
  shows "wf_core s'"
proof -
  have ok: "sta_ok s" "node_ok s" "si_ok s" "timers_ok s" using wf by (auto simp: wf_core_def)
  have "sta_ok s'"
    unfolding sta_ok_def
  proof (intro allI impI)
    fix m ad as assume "sta_view s' m = Some (ad, as)"
    with sv obtain as0 where v: "sta_view s m = Some (ad, as0)"
      and as: "as = (if m = si_sta si then remove1 a as0 else as0)"
      by (auto split: if_splits simp: bind_eq_Some_conv)
    from ok(1) v have "ad = m" "distinct as0"
      and mem: "\<forall>b. b \<in> set as0 \<longleftrightarrow> (\<exists>x. si_heap s b = Some x \<and> si_sta x = m)"
      unfolding sta_ok_def by blast+
    then show "ad = m \<and> distinct as \<and>
        (\<forall>b. b \<in> set as \<longleftrightarrow> (\<exists>x. si_heap s' b = Some x \<and> si_sta x = m))"
      using si as h by (auto simp: set_remove1_eq)
  qed
  moreover have "node_ok s'"
    unfolding node_ok_def
  proof (intro allI impI)
    fix r as assume "node_view s' r = Some as"
    with nv obtain as0 where v: "node_view s r = Some as0"
      and as: "as = (if r = si_node si then remove1 a as0 else as0)" by auto
    from ok(2) v have "distinct as0"
      and mem: "\<forall>b. b \<in> set as0 \<longleftrightarrow> (\<exists>x. si_heap s b = Some x \<and> si_node x = r)"
      unfolding node_ok_def by blast+
    then show "distinct as \<and> (\<forall>b. b \<in> set as \<longleftrightarrow> (\<exists>x. si_heap s' b = Some x \<and> si_node x = r))"
      using si as h by (auto simp: set_remove1_eq)
  qed
  moreover have "si_ok s'"
    unfolding si_ok_def
  proof (intro allI impI)
    fix b sb assume "si_heap s' b = Some sb"
    then have b: "si_heap s b = Some sb" "b \<noteq> a" using h by (auto split: if_splits)
    with ok(3) have old: "b < si_next s" "sta_view s (si_sta sb) \<noteq> None"
      "node_view s (si_node sb) \<noteq> None" "length (si_stats sb) = 4"
      "\<forall>br \<in> set (si_beacon_reports sb). br_address br = b"
      unfolding si_ok_def by blast+
    from old(2) obtain ad as where v: "sta_view s (si_sta sb) = Some (ad, as)" by auto
    with ok(1) b(1) have "b \<in> set as" unfolding sta_ok_def by blast
    with v sv b(2) have "sta_view s' (si_sta sb) \<noteq> None" by (auto dest: remove1_empty_iff)
    with old nv n show "b < si_next s' \<and> sta_view s' (si_sta sb) \<noteq> None \<and>
        node_view s' (si_node sb) \<noteq> None \<and> length (si_stats sb) = 4 \<and>
        (\<forall>br \<in> set (si_beacon_reports sb). br_address br = b)" by simp
  qed
  moreover have "si_unique s'"
    using wf h unfolding wf_core_def si_unique_def by (metis fun_upd_apply option.distinct(1))
  moreover have "timers_ok s'" using ok(4) h t by (auto simp: timers_ok_def tq_wf_cancel)
  ultimately show ?thesis using k by (simp add: wf_core_def)
qed

text \<open>
  Deleting an entry that exists is defined, removes exactly that entry and its timer, keeps
  the invariant, and leaves no station without entries behind.
\<close>

lemma del_total:
  assumes wf: "wf_core s" and si: "si_heap s a = Some si"
  shows "\<exists>s'. usteer_sta_info_del a s = Some s' \<and> wf_core s' \<and> frame_eq s s' \<and>
    si_heap s' = (si_heap s)(a := None) \<and> tq s' = usteer_timeout_cancel (tq s) a \<and>
    (\<forall>r. (node_view s' r = None) = (node_view s r = None)) \<and>
    (no_empty_sta s \<longrightarrow> no_empty_sta s')"
proof -
  from del_spec [OF wf si] obtain s' where
    s': "usteer_sta_info_del a s = Some s'" "frame_eq s s'" "si_heap s' = (si_heap s)(a := None)"
      "si_next s' = si_next s" "tq s' = usteer_timeout_cancel (tq s) a" "keys_ok s'"
      and nv: "\<forall>r. node_view s' r =
        map_option (\<lambda>as. if r = si_node si then remove1 a as else as) (node_view s r)"
      and sv: "\<forall>m. sta_view s' m = (if m = si_sta si
        then Option.bind (sta_view s m) (\<lambda>(ad, as). if remove1 a as = [] then None
               else Some (ad, remove1 a as))
        else sta_view s m)" by blast
  have "wf_core s'" using del_wf_core [OF wf si s'(3-6) nv sv] .
  moreover have "no_empty_sta s \<Longrightarrow> no_empty_sta s'"
    using sv by (auto simp: no_empty_sta_def bind_eq_Some_conv split: if_splits)
  ultimately show ?thesis using s' nv by auto
qed

lemma del_wf: "wf_state s \<Longrightarrow> si_heap s a \<noteq> None \<Longrightarrow> \<exists>s'. usteer_sta_info_del a s = Some s' \<and> wf_state s'"
  using del_total by (fastforce simp: wf_state_def)

section \<open>The queue of sta.c\<close>

text \<open>sta.c meets the client contract of timeout.c.\<close>

definition mod_tq :: "(usteer_timeout_queue \<Rightarrow> usteer_timeout_queue) \<Rightarrow> usteer_state \<Rightarrow> usteer_state" where
  "mod_tq f s = s\<lparr>tq := f (tq s)\<rparr>"

lemma cancel_twice [simp]:
  "usteer_timeout_cancel (usteer_timeout_cancel q t) t = usteer_timeout_cancel q t"
  by (simp add: usteer_timeout_cancel_def [of "usteer_timeout_cancel q t"] usteer_timeout_isset_def)

lemma wf_core_cancel: "wf_core s \<Longrightarrow> wf_core (mod_tq (\<lambda>q. usteer_timeout_cancel q a) s)"
  by (auto simp: mod_tq_def wf_core_def timers_ok_def tq_wf_cancel sta_ok_def node_ok_def si_ok_def
      si_unique_def)

lemma no_empty_sta_mod_tq [simp]: "no_empty_sta (mod_tq f s) = no_empty_sta s"
  by (simp add: mod_tq_def no_empty_sta_def)

interpretation sta_timers: timeout_client tq mod_tq usteer_sta_info_timeout wf_state "\<lambda>s. dom (si_heap s)"
proof unfold_locales
  show "dom (si_heap (mod_tq f s)) = dom (si_heap s)" for f s by (simp add: mod_tq_def)
  show "tq (mod_tq f s) = f (tq s)" for f s by (simp add: mod_tq_def)
  show "tq_wf (tq s)" if "wf_state s" for s
    using that by (simp add: wf_state_def wf_core_def timers_ok_def)
  show "wf_state (mod_tq (\<lambda>q. usteer_timeout_recalc q time) s)" if "wf_state s" for time s
    using that wf_core_tq [of s "usteer_timeout_recalc (tq s) time"]
    by (auto simp: wf_state_def mod_tq_def wf_core_def timers_ok_def no_empty_sta_def)
  fix s t assume wf: "wf_state s" and linked: "tq_linked (tq s) t"
  let ?s = "mod_tq (\<lambda>q. usteer_timeout_cancel q t) s"
  from wf linked obtain si where "si_heap s t = Some si"
    by (auto simp: wf_state_def wf_core_def timers_ok_def)
  then have si: "si_heap ?s t = Some si" by (simp add: mod_tq_def)
  have "wf_core ?s" using wf by (intro wf_core_cancel) (simp add: wf_state_def)
  from del_total [OF this si] wf show "\<exists>s'. usteer_sta_info_timeout t ?s = Some s' \<and> wf_state s' \<and>
      tq s' = usteer_timeout_cancel (tq s) t \<and> dom (si_heap s') = dom (si_heap s) - {t}"
    by (auto simp: usteer_sta_info_timeout_def wf_state_def mod_tq_def no_empty_sta_def)
qed

section \<open>Removing a node's entries\<close>

lemma cleanup_total:
  assumes wf: "wf_state s" and nd: "get_node s r = Some nd"
  shows "\<exists>s'. usteer_sta_node_cleanup r s = Some s' \<and> wf_state s' \<and> frame_eq s s' \<and>
    si_heap s' = (\<lambda>a. if a \<in> set (node_sta_info nd) then None else si_heap s a)"
proof -
  let ?s0 = "upd_node r (\<lambda>nd. nd\<lparr>node_rrm_nr := None\<rparr>) s"
  let ?P = "\<lambda>t. wf_state t \<and> frame_eq s t"
  have loop: "\<exists>s'. for_each usteer_sta_info_del as t = Some s' \<and> wf_state s' \<and> frame_eq s s' \<and>
      si_heap s' = (\<lambda>a. if a \<in> set as then None else si_heap t a)"
    if "?P t" "distinct as" "\<forall>a \<in> set as. si_heap t a \<noteq> None" for as t
    using that
  proof (induction as arbitrary: t)
    case (Cons a as)
    from Cons.prems obtain si where si: "si_heap t a = Some si" by auto
    have wft: "wf_core t" using Cons.prems by (simp add: wf_state_def)
    from del_total [OF wft si] Cons.prems(1) obtain t' where
      t': "usteer_sta_info_del a t = Some t'" "wf_state t'" "frame_eq t t'"
        "si_heap t' = (si_heap t)(a := None)" by (auto simp: wf_state_def)
    have "?P t'" using t' Cons.prems(1) by (auto intro: frame_eq_trans)
    moreover have "\<forall>b \<in> set as. si_heap t' b \<noteq> None" using Cons.prems t'(4) by auto
    ultimately obtain s' where "for_each usteer_sta_info_del as t' = Some s'" "wf_state s'" "frame_eq s s'"
      "si_heap s' = (\<lambda>b. if b \<in> set as then None else si_heap t' b)"
      using Cons.IH [of t'] Cons.prems(2) by auto
    with t' show ?case by (auto simp: fun_eq_iff)
  qed auto
  have "?P ?s0" using wf by (simp add: frame_eq_def)
  moreover have "distinct (node_sta_info nd)" "\<forall>a \<in> set (node_sta_info nd). si_heap ?s0 a \<noteq> None"
    using wf_core_node [of s r nd] wf nd by (auto simp: wf_state_def)
  ultimately show ?thesis
    using loop [of ?s0 "node_sta_info nd"] nd
    by (auto simp: usteer_sta_node_cleanup_def fun_eq_iff)
qed

section \<open>Finding and creating entries\<close>

lemma entry_iff:
  assumes "wf_core s"
  shows "entry s m r = Some a \<longleftrightarrow> (\<exists>si. si_heap s a = Some si \<and> si_sta si = m \<and> si_node si = r)"
    (is "?L \<longleftrightarrow> ?R")
proof
  assume ?L
  then obtain st where st: "get_sta s m = Some st" and f: "List.find (\<lambda>a. case si_heap s a of
      None \<Rightarrow> False | Some si \<Rightarrow> si_node si = r) (st_nodes st) = Some a"
    by (auto simp: entry_def split: option.splits)
  from f have "a \<in> set (st_nodes st)" "case si_heap s a of None \<Rightarrow> False | Some si \<Rightarrow> si_node si = r"
    by (auto simp: find_Some_iff)
  with wf_core_sta(2) [OF assms st] show ?R by auto
next
  assume ?R
  then obtain si where si: "si_heap s a = Some si" "si_sta si = m" "si_node si = r" by blast
  from wf_core_entry [OF assms si(1)] si(2) obtain st where
    st: "get_sta s m = Some st" "a \<in> set (st_nodes st)" by metis
  let ?P = "\<lambda>a. case si_heap s a of None \<Rightarrow> False | Some si \<Rightarrow> si_node si = r"
  have "?P a" using si by simp
  with st(2) have "List.find ?P (st_nodes st) \<noteq> None" by (auto simp: find_None_iff)
  then obtain b where b: "List.find ?P (st_nodes st) = Some b" by auto
  then have "b \<in> set (st_nodes st)" "?P b" by (auto simp: find_Some_iff)
  with wf_core_sta(2) [OF assms st(1)] obtain sb where
    "si_heap s b = Some sb" "si_sta sb = m" "si_node sb = r" by auto
  with si have "b = a" using wf_core_unique [OF assms, of b sb a si] by simp
  with b st show ?L by (simp add: entry_def)
qed

lemma entry_cong:
  assumes "wf_core s" "wf_core s'"
    and "\<And>a. map_option (\<lambda>si. (si_sta si, si_node si)) (si_heap s' a) =
      map_option (\<lambda>si. (si_sta si, si_node si)) (si_heap s a)"
  shows "entry s' = entry s"
proof (intro ext)
  fix m r
  have eq: "(\<exists>si. si_heap s' a = Some si \<and> si_sta si = m \<and> si_node si = r) \<longleftrightarrow>
            (\<exists>si. si_heap s a = Some si \<and> si_sta si = m \<and> si_node si = r)" for a
    using assms(3) [of a] by (cases "si_heap s a"; cases "si_heap s' a") auto
  have "entry s' m r = Some a \<longleftrightarrow> entry s m r = Some a" for a
    unfolding entry_iff [OF assms(1)] entry_iff [OF assms(2)] using eq .
  then show "entry s' m r = entry s m r" by (metis not_Some_eq)
qed

lemma scan_entry:
  assumes "wf_core s" "get_sta s m = Some st"
  shows "sta_info_scan s r (st_nodes st) = Some (entry s m r)"
proof -
  have "sta_info_scan s r as = Some (List.find (\<lambda>a. case si_heap s a of None \<Rightarrow> False
      | Some si \<Rightarrow> si_node si = r) as)" if "\<forall>a \<in> set as. si_heap s a \<noteq> None" for as
    using that by (induction as) (auto split: option.splits)
  moreover have "\<forall>a \<in> set (st_nodes st). si_heap s a \<noteq> None"
    using wf_core_sta(2) [OF assms] by auto
  ultimately show ?thesis using assms(2) by (simp add: entry_def)
qed

lemma get_present:
  "wf_core s \<Longrightarrow> get_sta s m \<noteq> None \<Longrightarrow> entry s m r = Some a \<Longrightarrow>
   usteer_sta_info_get m r c s = Some (Some a, False, s)"
  by (auto simp: usteer_sta_info_get_def scan_entry)

lemma get_absent:
  "wf_core s \<Longrightarrow> get_sta s m \<noteq> None \<Longrightarrow> entry s m r = None \<Longrightarrow>
   usteer_sta_info_get m r False s = Some (None, False, s)"
  by (auto simp: usteer_sta_info_get_def scan_entry)

text \<open>Stations other than \<open>m\<close> have entries.\<close>

definition no_empty_but :: "mac \<Rightarrow> usteer_state \<Rightarrow> bool" where
  "no_empty_but m s \<longleftrightarrow> (\<forall>m' ad as. m' \<noteq> m \<longrightarrow> sta_view s m' = Some (ad, as) \<longrightarrow> as \<noteq> [])"

definition new_sta_info :: "usteer_state \<Rightarrow> mac \<Rightarrow> node_ref \<Rightarrow> usteer_node \<Rightarrow> sta_info" where
  "new_sta_info s m r nd =
     (let si = calloc_sta_info r m
      in si\<lparr>si_beacon_request := (si_beacon_request si)\<lparr>breq_band := node_freq nd\<rparr>,
            si_created := current_time s\<rparr>)"

lemma get_create:
  assumes wf: "wf_core s" and st: "get_sta s m = Some st" and none: "entry s m r = None"
    and nd: "get_node s r = Some nd"
  shows "\<exists>s'. usteer_sta_info_get m r True s = Some (Some (si_next s), True, s') \<and>
    frame_eq s s' \<and> tq s' = tq s \<and> si_next s' = Suc (si_next s) \<and>
    si_heap s' = (si_heap s)(si_next s \<mapsto> new_sta_info s m r nd) \<and> keys_ok s' \<and>
    (\<forall>m'. sta_view s' m' = map_option (\<lambda>(ad, as). (ad, if m' = m then si_next s # as else as)) (sta_view s m')) \<and>
    (\<forall>r'. node_view s' r' = map_option (\<lambda>as. if r' = r then si_next s # as else as) (node_view s r'))"
proof -
  let ?a = "si_next s"
  let ?s1 = "s\<lparr>si_heap := (si_heap s)(?a \<mapsto> new_sta_info s m r nd), si_next := Suc ?a\<rparr>"
  let ?s2 = "upd_node r (\<lambda>nd. nd\<lparr>node_sta_info := ?a # node_sta_info nd\<rparr>)
    (upd_sta m (\<lambda>st. st\<lparr>st_nodes := ?a # st_nodes st\<rparr>) ?s1)"
  have run: "usteer_sta_info_get m r True s = Some (Some ?a, True, ?s2)"
    using scan_entry [OF wf st, of r] st nd none
    by (simp add: usteer_sta_info_get_def new_sta_info_def Let_def)
  have keys: "keys_ok ?s2" using wf by (simp add: wf_core_def)
  have "sta_view ?s2 m' = map_option (\<lambda>(ad, as). (ad, if m' = m then ?a # as else as)) (sta_view s m')"
    for m' by (cases "get_sta s m'") (auto simp: sta_view_def)
  moreover have "node_view ?s2 r' = map_option (\<lambda>as. if r' = r then ?a # as else as) (node_view s r')"
    for r' by (cases "get_node s r'") (auto simp: node_view_def)
  ultimately show ?thesis using run keys by (auto simp: frame_eq_def)
qed

lemma create_wf_core:
  assumes wf: "wf_core s" and none: "entry s m r = None"
    and live: "sta_view s m \<noteq> None" "node_view s r \<noteq> None"
    and h: "si_heap s' = (si_heap s)(si_next s \<mapsto> new_sta_info s m r nd)"
    and n: "si_next s' = Suc (si_next s)" and t: "tq s' = tq s" and k: "keys_ok s'"
    and sv: "\<forall>m'. sta_view s' m' =
      map_option (\<lambda>(ad, as). (ad, if m' = m then si_next s # as else as)) (sta_view s m')"
    and nv: "\<forall>r'. node_view s' r' =
      map_option (\<lambda>as. if r' = r then si_next s # as else as) (node_view s r')"
  shows "wf_core s'"
proof -
  let ?a = "si_next s"
  have ok: "sta_ok s" "node_ok s" "si_ok s" "timers_ok s" using wf by (auto simp: wf_core_def)
  have fresh: "si_heap s ?a = None" using wf_core_fresh [OF wf] .
  have new: "si_sta (new_sta_info s m r nd) = m" "si_node (new_sta_info s m r nd) = r"
    "length (si_stats (new_sta_info s m r nd)) = 4" "si_beacon_reports (new_sta_info s m r nd) = []"
    by (simp_all add: new_sta_info_def Let_def calloc_sta_info_def)
  have "sta_ok s'"
    unfolding sta_ok_def
  proof (intro allI impI)
    fix m' ad as assume "sta_view s' m' = Some (ad, as)"
    with sv obtain as0 where v: "sta_view s m' = Some (ad, as0)"
      and as: "as = (if m' = m then ?a # as0 else as0)" by auto
    from ok(1) v have "ad = m'" "distinct as0"
      and mem: "\<forall>b. b \<in> set as0 \<longleftrightarrow> (\<exists>x. si_heap s b = Some x \<and> si_sta x = m')"
      unfolding sta_ok_def by blast+
    moreover from mem fresh have "?a \<notin> set as0" by auto
    ultimately show "ad = m' \<and> distinct as \<and>
        (\<forall>b. b \<in> set as \<longleftrightarrow> (\<exists>x. si_heap s' b = Some x \<and> si_sta x = m'))"
      using as h new fresh by auto
  qed
  moreover have "node_ok s'"
    unfolding node_ok_def
  proof (intro allI impI)
    fix r' as assume "node_view s' r' = Some as"
    with nv obtain as0 where v: "node_view s r' = Some as0"
      and as: "as = (if r' = r then ?a # as0 else as0)" by auto
    from ok(2) v have "distinct as0"
      and mem: "\<forall>b. b \<in> set as0 \<longleftrightarrow> (\<exists>x. si_heap s b = Some x \<and> si_node x = r')"
      unfolding node_ok_def by blast+
    moreover from mem fresh have "?a \<notin> set as0" by auto
    ultimately show "distinct as \<and> (\<forall>b. b \<in> set as \<longleftrightarrow> (\<exists>x. si_heap s' b = Some x \<and> si_node x = r'))"
      using as h new fresh by auto
  qed
  moreover have "si_ok s'"
    using ok(3) h n sv nv live new by (auto simp: si_ok_def less_Suc_eq)
  moreover have "si_unique s'"
    unfolding si_unique_def
  proof (intro allI impI)
    fix b c sb sc
    assume b: "si_heap s' b = Some sb" and c: "si_heap s' c = Some sc"
      and eq: "si_sta sb = si_sta sc" "si_node sb = si_node sc"
    have "\<not> (\<exists>x si. si_heap s x = Some si \<and> si_sta si = m \<and> si_node si = r)"
      using none entry_iff [OF wf] by (metis option.distinct(1))
    with b c eq h new show "b = c"
      using wf_core_unique [OF wf, of b sb c sc] by (auto split: if_splits)
  qed
  moreover have "timers_ok s'" using ok(4) h t by (auto simp: timers_ok_def)
  ultimately show ?thesis using k by (simp add: wf_core_def)
qed

lemma get_total:
  assumes wf: "wf_core s" and st: "get_sta s m \<noteq> None" and nd: "get_node s r = Some nd"
  shows "\<exists>a c s'. usteer_sta_info_get m r True s = Some (Some a, c, s') \<and> wf_core s' \<and>
    frame_eq s s' \<and> tq s' = tq s \<and> c = (entry s m r = None) \<and>
    (if c then a = si_next s \<and> si_heap s' = (si_heap s)(a \<mapsto> new_sta_info s m r nd)
     else entry s m r = Some a \<and> s' = s) \<and>
    (\<forall>r'. (node_view s' r' = None) = (node_view s r' = None)) \<and>
    (no_empty_but m s \<longrightarrow> no_empty_sta s')"
proof (cases "entry s m r")
  case (Some a)
  have "no_empty_sta s" if "no_empty_but m s"
    unfolding no_empty_sta_def
  proof (intro allI impI)
    fix m' ad as assume v: "sta_view s m' = Some (ad, as)"
    from Some entry_iff [OF wf] obtain si where si: "si_heap s a = Some si" "si_sta si = m" by blast
    from v wf si have "m' = m \<Longrightarrow> a \<in> set as" unfolding wf_core_def sta_ok_def by blast
    with v that show "as \<noteq> []" by (cases "m' = m") (auto simp: no_empty_but_def)
  qed
  with get_present [OF wf st Some] wf Some show ?thesis by auto
next
  case None
  from st obtain st' where st': "get_sta s m = Some st'" by blast
  from get_create [OF wf st' None nd] obtain s' where
    s': "usteer_sta_info_get m r True s = Some (Some (si_next s), True, s')" "frame_eq s s'"
      "tq s' = tq s" "si_next s' = Suc (si_next s)"
      "si_heap s' = (si_heap s)(si_next s \<mapsto> new_sta_info s m r nd)" "keys_ok s'"
    and sv: "\<forall>m'. sta_view s' m' =
        map_option (\<lambda>(ad, as). (ad, if m' = m then si_next s # as else as)) (sta_view s m')"
    and nv: "\<forall>r'. node_view s' r' =
        map_option (\<lambda>as. if r' = r then si_next s # as else as) (node_view s r')" by blast
  have live: "sta_view s m \<noteq> None" "node_view s r \<noteq> None"
    using st' nd by (auto simp: sta_view_def node_view_def)
  have "wf_core s'" using create_wf_core [OF wf None live s'(5,4,3,6) sv nv] .
  moreover have "no_empty_sta s'" if "no_empty_but m s"
    using that sv by (auto simp: no_empty_sta_def no_empty_but_def split: if_splits)
  ultimately show ?thesis using s' None nv by auto
qed

lemma sta_get_create:
  assumes wf: "wf_core s"
  shows "\<exists>s'. usteer_sta_get m True s = (Some m, s') \<and> wf_core s' \<and> frame_eq s s' \<and> tq s' = tq s \<and>
    si_heap s' = si_heap s \<and> si_next s' = si_next s \<and> node_view s' = node_view s \<and>
    get_node s' = get_node s \<and> get_sta s' m \<noteq> None \<and> (no_empty_sta s \<longrightarrow> no_empty_but m s')"
proof (cases "get_sta s m")
  case (Some st)
  with wf show ?thesis
    by (auto simp: usteer_sta_get_def no_empty_sta_def no_empty_but_def)
next
  case None
  let ?st = "\<lparr>st_nodes = [], st_seen_2ghz = False, st_seen_5ghz = False, st_addr = m\<rparr>"
  let ?s = "s\<lparr>stations := dict_insert m ?st (stations s)\<rparr>"
  have new: "m \<notin> fst ` set (stations s)"
    using None by (simp add: get_sta_def map_of_eq_None_iff)
  then have view: "sta_view ?s = (sta_view s)(m \<mapsto> (m, []))"
    by (auto simp: sta_view_def get_sta_def fun_eq_iff)
  have none: "sta_view s m = None" using None by (simp add: sta_view_def)
  have no_si: "si_sta si \<noteq> m" if "si_heap s a = Some si" for a si
  proof -
    from wf_core_entry [OF wf that] obtain st where "get_sta s (si_sta si) = Some st" by metis
    with None show ?thesis by auto
  qed
  have "sta_ok ?s" using wf no_si unfolding wf_core_def sta_ok_def view by (auto split: if_splits)
  moreover have "node_ok ?s" using wf by (simp add: wf_core_def node_ok_def)
  moreover have "si_ok ?s" using wf unfolding wf_core_def si_ok_def view by simp
  moreover have "si_unique ?s" using wf by (simp add: wf_core_def si_unique_def)
  moreover have "timers_ok ?s" using wf by (simp add: wf_core_def timers_ok_def)
  moreover have "keys_ok ?s" using wf new by (simp add: wf_core_def keys_ok_def)
  ultimately have "wf_core ?s" by (simp add: wf_core_def)
  moreover have "no_empty_but m ?s" if "no_empty_sta s"
    using that view by (auto simp: no_empty_but_def no_empty_sta_def)
  moreover have "usteer_sta_get m True s = (Some m, ?s)" using None by (simp add: usteer_sta_get_def)
  moreover have "get_node ?s = get_node s" by (simp add: fun_eq_iff)
  moreover have "get_sta ?s m \<noteq> None" using new by (simp add: get_sta_def)
  ultimately show ?thesis by (auto simp: frame_eq_def)
qed

lemma obtain_total:
  assumes wf: "wf_state s" and nd: "get_node s r = Some nd"
  shows "\<exists>a c s'. sta_info_obtain m r s = Some (a, c, s') \<and> wf_state s' \<and> frame_eq s s' \<and>
    tq s' = tq s \<and> c = (entry s m r = None) \<and>
    (if c then si_heap s a = None \<and> si_heap s' = (si_heap s)(a \<mapsto> new_sta_info s m r nd)
     else entry s m r = Some a \<and> s' = s) \<and>
    (\<forall>r'. (node_view s' r' = None) = (node_view s r' = None))"
proof -
  have core: "wf_core s" using wf by (simp add: wf_state_def)
  from sta_get_create [OF core, of m] wf obtain s1 where
    s1: "usteer_sta_get m True s = (Some m, s1)" "wf_core s1" "frame_eq s s1" "tq s1 = tq s"
      "si_heap s1 = si_heap s" "si_next s1 = si_next s" "node_view s1 = node_view s"
      "get_node s1 = get_node s" "get_sta s1 m \<noteq> None" "no_empty_but m s1"
    by (auto simp: wf_state_def)
  have e1: "entry s1 = entry s" by (rule entry_cong [OF core s1(2)]) (simp add: s1)
  have nd1: "get_node s1 r = Some nd" using nd s1(8) by simp
  have t1: "current_time s1 = current_time s" using s1(3) by (simp add: frame_eq_def)
  from get_total [OF s1(2,9) nd1] s1(10) obtain a c s' where
    s': "usteer_sta_info_get m r True s1 = Some (Some a, c, s')" "wf_core s'" "frame_eq s1 s'"
      "tq s' = tq s1" "c = (entry s1 m r = None)"
      "if c then a = si_next s1 \<and> si_heap s' = (si_heap s1)(a \<mapsto> new_sta_info s1 m r nd)
       else entry s1 m r = Some a \<and> s' = s1"
      "\<forall>r'. (node_view s' r' = None) = (node_view s1 r' = None)" "no_empty_sta s'" by blast
  have run: "sta_info_obtain m r s = Some (a, c, s')" using s1(1) s'(1) by (simp add: sta_info_obtain_def)
  have same: "s1 = s" if "entry s m r = Some a"
  proof -
    from that entry_iff [OF core] obtain si where "si_heap s a = Some si" "si_sta si = m" by blast
    with wf_core_entry [OF core] have "get_sta s m \<noteq> None" by (metis option.distinct(1))
    with s1(1) show ?thesis by (auto simp: usteer_sta_get_def)
  qed
  have fresh: "si_heap s (si_next s) = None" using wf_core_fresh [OF core] .
  have ni: "new_sta_info s1 m r nd = new_sta_info s m r nd" by (simp add: new_sta_info_def t1)
  show ?thesis
    using run s' s1 e1 same fresh ni by (auto simp: wf_state_def intro: frame_eq_trans split: if_splits)
qed

text \<open>sta.c provides the entry store.\<close>

definition node_live :: "usteer_state \<Rightarrow> node_ref \<Rightarrow> bool" where
  "node_live s r \<longleftrightarrow> node_view s r \<noteq> None"

interpretation sta_entries: entry_store wf_state entry node_live sta_info_obtain usteer_sta_info_del
proof unfold_locales
  fix s m r a m' r'
  assume wf: "wf_state s"
  then have core: "wf_core s" by (simp add: wf_state_def)
  show "m' = m \<and> r' = r" if "entry s m r = Some a" "entry s m' r' = Some a"
    using that entry_iff [OF core] by fastforce
  show "sta_info_obtain m r s = Some (a, False, s)" if e: "entry s m r = Some a"
  proof -
    from e entry_iff [OF core] obtain si where "si_heap s a = Some si" "si_sta si = m" "si_node si = r"
      by blast
    with wf_core_entry [OF core] obtain nd where "get_node s r = Some nd" by metis
    from obtain_total [OF wf this, of m] e show ?thesis by auto
  qed
  show "\<exists>a s'. sta_info_obtain m r s = Some (a, True, s') \<and> wf_state s' \<and> node_live s' = node_live s \<and>
      entry s' = (entry s)(m := (entry s m)(r \<mapsto> a))" if e: "entry s m r = None" and l: "node_live s r"
  proof -
    from l obtain nd where nd: "get_node s r = Some nd" by (auto simp: node_live_def node_view_def)
    from obtain_total [OF wf nd, of m] e obtain a s' where
      s': "sta_info_obtain m r s = Some (a, True, s')" "wf_state s'" "si_heap s a = None"
        "si_heap s' = (si_heap s)(a \<mapsto> new_sta_info s m r nd)"
        "\<forall>r'. (node_view s' r' = None) = (node_view s r' = None)" by auto
    have core': "wf_core s'" using s' by (simp add: wf_state_def)
    have new: "si_sta (new_sta_info s m r nd) = m" "si_node (new_sta_info s m r nd) = r"
      by (simp_all add: new_sta_info_def calloc_sta_info_def Let_def)
    have absent: "\<not> (si_heap s b = Some si \<and> si_sta si = m \<and> si_node si = r)" for b si
      using e entry_iff [OF core, of m r b] by auto
    have "entry s' m' r' = Some b \<longleftrightarrow> ((entry s)(m := (entry s m)(r \<mapsto> a))) m' r' = Some b" for m' r' b
      using absent s'(3) new unfolding entry_iff [OF core'] s'(4)
      by (auto simp: entry_iff [OF core] split: if_splits)
    then have "entry s' = (entry s)(m := (entry s m)(r \<mapsto> a))"
      by (intro ext) (metis not_Some_eq)
    moreover have "node_live s' = node_live s" using s'(5) by (simp add: node_live_def fun_eq_iff)
    ultimately show ?thesis using s' by blast
  qed
  show "\<exists>s'. usteer_sta_info_del a s = Some s' \<and> wf_state s' \<and> node_live s' = node_live s \<and>
      entry s' = (entry s)(m := (entry s m)(r := None))" if e: "entry s m r = Some a"
  proof -
    from e entry_iff [OF core] obtain si where
      si: "si_heap s a = Some si" "si_sta si = m" "si_node si = r" by blast
    from del_total [OF core si(1)] wf obtain s' where
      s': "usteer_sta_info_del a s = Some s'" "wf_core s'" "no_empty_sta s'"
        "si_heap s' = (si_heap s)(a := None)"
        "\<forall>r'. (node_view s' r' = None) = (node_view s r' = None)" by (auto simp: wf_state_def)
    have uniq: "m' = m \<and> r' = r \<longleftrightarrow> b = a" if "entry s m' r' = Some b" for m' r' b
      using that e si entry_iff [OF core] by fastforce
    have "entry s' m' r' = Some b \<longleftrightarrow> ((entry s)(m := (entry s m)(r := None))) m' r' = Some b" for m' r' b
      using uniq [of m' r' b] e unfolding entry_iff [OF s'(2)] s'(4)
      by (auto simp: entry_iff [OF core] split: if_splits)
    then have "entry s' = (entry s)(m := (entry s m)(r := None))"
      by (intro ext) (metis not_Some_eq)
    moreover have "node_live s' = node_live s" using s'(5) by (simp add: node_live_def fun_eq_iff)
    ultimately show ?thesis using s' by (auto simp: wf_state_def)
  qed
qed

section \<open>Updating an entry\<close>

text \<open>The entry states \<open>same_entry\<close> allows: every field update the operations make.\<close>

lemma same_entryI:
  "si_sta si' = si_sta si \<Longrightarrow> si_node si' = si_node si \<Longrightarrow> length (si_stats si') = length (si_stats si) \<Longrightarrow>
   set (si_beacon_reports si') \<subseteq> set (si_beacon_reports si) \<Longrightarrow> same_entry a si si'"
  by (auto simp: same_entry_def)

lemma no_empty_sta_heap [simp]: "no_empty_sta (s\<lparr>si_heap := h\<rparr>) = no_empty_sta s"
  by (simp add: no_empty_sta_def)

lemma no_empty_sta_tq [simp]: "no_empty_sta (s\<lparr>tq := q\<rparr>) = no_empty_sta s"
  by (simp add: no_empty_sta_def)

lemma wf_state_upd_si:
  assumes "wf_state s" "upd_si a f s = Some s'"
    and "\<And>si. si_heap s a = Some si \<Longrightarrow> same_entry a si (f si)"
  shows "wf_state s'"
  using assms wf_core_upd_si [of s a f s'] by (auto simp: wf_state_def upd_si_Some)

lemma wf_state_heap_upd:
  "wf_state s \<Longrightarrow> si_heap s a = Some si \<Longrightarrow> same_entry a si si' \<Longrightarrow>
   wf_state (s\<lparr>si_heap := (si_heap s)(a \<mapsto> si')\<rparr>)"
  by (simp add: wf_state_def wf_core_heap_upd)

text \<open>
  A step on one entry: the entry is changed in place, keeping its identity, and messages may
  be sent; nothing else changes.
\<close>

definition entry_step :: "nat \<Rightarrow> usteer_state \<Rightarrow> usteer_state \<Rightarrow> bool" where
  "entry_step a s s' \<longleftrightarrow> (\<exists>si si' msgs. si_heap s a = Some si \<and> same_entry a si si' \<and>
     s' = s\<lparr>si_heap := (si_heap s)(a \<mapsto> si'), out := out s @ msgs\<rparr>)"

lemma same_entry_refl [simp]: "same_entry a si si"
  by (simp add: same_entry_def)

lemma same_entry_trans: "same_entry a x y \<Longrightarrow> same_entry a y z \<Longrightarrow> same_entry a x z"
  by (auto simp: same_entry_def)

lemma entry_step_refl: "si_heap s a = Some si \<Longrightarrow> entry_step a s s"
  unfolding entry_step_def
  by (intro exI [of _ si] exI [of _ si] exI [of _ "[]"]) (simp add: fun_upd_idem)

lemma entry_step_trans:
  assumes "entry_step a s t" "entry_step a t u"
  shows "entry_step a s u"
proof -
  from assms obtain x y z m1 m2 where xy: "si_heap s a = Some x" "same_entry a x y"
    and t: "t = s\<lparr>si_heap := (si_heap s)(a \<mapsto> y), out := out s @ m1\<rparr>"
    and yz: "same_entry a y z"
    and u: "u = t\<lparr>si_heap := (si_heap t)(a \<mapsto> z), out := out t @ m2\<rparr>"
    unfolding entry_step_def by auto
  have "same_entry a x z" using xy(2) yz by (rule same_entry_trans)
  moreover have "u = s\<lparr>si_heap := (si_heap s)(a \<mapsto> z), out := out s @ (m1 @ m2)\<rparr>"
    by (simp add: u t)
  ultimately show ?thesis using xy(1) unfolding entry_step_def by blast
qed

lemma entry_step_upd_si:
  "si_heap s a = Some si \<Longrightarrow> same_entry a si (f si) \<Longrightarrow> upd_si a f s = Some s' \<Longrightarrow>
   entry_step a s s' \<and> si_heap s' a = Some (f si)"
  unfolding entry_step_def
  by (auto simp: upd_si_def intro!: exI [of _ si] exI [of _ "f si"] exI [of _ "[]"])

lemma entry_step_emit: "si_heap s a = Some si \<Longrightarrow> entry_step a s (emit x s)"
  unfolding entry_step_def
  by (intro exI [of _ si] exI [of _ si] exI [of _ "[x]"]) (simp add: emit_def fun_upd_idem)

lemma entry_step_wf:
  assumes "entry_step a s s'"
  shows "wf_state s \<Longrightarrow> wf_state s'" and "wf_core s \<Longrightarrow> wf_core s'"
proof -
  from assms obtain si si' msgs where *: "si_heap s a = Some si" "same_entry a si si'"
    and s': "s' = s\<lparr>si_heap := (si_heap s)(a \<mapsto> si'), out := out s @ msgs\<rparr>"
    unfolding entry_step_def by blast
  let ?t = "s\<lparr>si_heap := (si_heap s)(a \<mapsto> si')\<rparr>"
  have eq: "wf_core s' = wf_core ?t" "wf_state s' = wf_state ?t"
    unfolding s'
    by (intro wf_core_cong wf_cong; simp add: sta_view_def node_view_def fun_eq_iff keys_ok_def)+
  show "wf_state s \<Longrightarrow> wf_state s'" using wf_state_heap_upd [OF _ *] eq by simp
  show "wf_core s \<Longrightarrow> wf_core s'" using wf_core_heap_upd [OF _ *] eq by simp
qed

lemma entry_step_frame:
  assumes "entry_step a s s'"
  shows "config s' = config s" "current_time s' = current_time s" "stations s' = stations s"
    "local_nodes s' = local_nodes s" "remote_nodes s' = remote_nodes s" "tq s' = tq s"
    "get_node s' r = get_node s r" "get_sta s' m = get_sta s m" "b \<noteq> a \<Longrightarrow> si_heap s' b = si_heap s b"
    "frame_eq s (s'\<lparr>out := out s\<rparr>)" "\<exists>msgs. out s' = out s @ msgs"
  using assms by (auto simp: entry_step_def frame_eq_def get_sta_def)

lemma entry_step_si:
  "entry_step a s s' \<Longrightarrow> si_heap s a = Some si \<Longrightarrow> \<exists>si'. si_heap s' a = Some si' \<and> same_entry a si si'"
  by (auto simp: entry_step_def)

text \<open>What an operation may do to the timers: only the timer of its own entry moves.\<close>

definition timers_frame :: "nat \<Rightarrow> usteer_state \<Rightarrow> usteer_state \<Rightarrow> bool" where
  "timers_frame a s s' \<longleftrightarrow>
     {x \<in> set (tq_tree (tq s')). snd x \<noteq> a} = {x \<in> set (tq_tree (tq s)). snd x \<noteq> a}"

definition own_timer :: "nat \<Rightarrow> usteer_state \<Rightarrow> tnode set" where
  "own_timer a s = {x \<in> set (tq_tree (tq s)). snd x = a}"

context avl_dups_tree
begin

lemma update_timeout_total:
  assumes wf: "wf_state s" and si: "si_heap s a = Some si"
  shows "\<exists>s'. usteer_sta_info_update_timeout ins now a timeout s = Some s' \<and> wf_state s' \<and>
    frame_eq s s' \<and> timers_frame a s s' \<and>
    (if si_connected si = 1 then si_heap s' = si_heap s \<and> own_timer a s' = {}
     else if 0 < sint timeout
     then si_heap s' = si_heap s \<and> own_timer a s' = {(now + timeout, a)}
     else si_heap s' = (si_heap s)(a := None) \<and> own_timer a s' = {})"
proof -
  have core: "wf_core s" and tw: "tq_wf (tq s)"
    using wf by (auto simp: wf_state_def wf_core_def timers_ok_def)
  have lk: "\<And>b. tq_linked (tq s) b \<Longrightarrow> si_heap s b \<noteq> None"
    using wf by (auto simp: wf_state_def wf_core_def timers_ok_def)
  consider (conn) "si_connected si = 1" | (set) "si_connected si \<noteq> 1" "0 < sint timeout"
    | (del) "si_connected si \<noteq> 1" "\<not> 0 < sint timeout" by blast
  then show ?thesis
  proof cases
    case conn
    have "wf_state (s\<lparr>tq := usteer_timeout_cancel (tq s) a\<rparr>)"
      using wf_core_cancel [OF core, of a] wf by (simp add: mod_tq_def wf_state_def)
    with conn si show ?thesis
      by (auto simp: usteer_sta_info_update_timeout_def frame_eq_def timers_frame_def own_timer_def cancel_tree [OF tw])
  next
    case set
    let ?q = "usteer_timeout_set ins (tq s) a timeout now"
    have "wf_core (s\<lparr>tq := ?q\<rparr>)"
      using si lk by (intro wf_core_tq [OF core set_wf [OF tw]]) (auto split: if_splits)
    then have "wf_state (s\<lparr>tq := ?q\<rparr>)" using wf by (simp add: wf_state_def)
    with set si show ?thesis
      by (auto simp: usteer_sta_info_update_timeout_def frame_eq_def timers_frame_def own_timer_def
          set_tree_set [OF tw])
  next
    case del
    from del_total [OF core si] wf obtain s' where
      "usteer_sta_info_del a s = Some s'" "wf_state s'" "frame_eq s s'"
      "si_heap s' = (si_heap s)(a := None)" "tq s' = usteer_timeout_cancel (tq s) a"
      by (auto simp: wf_state_def)
    with del si show ?thesis
      by (auto simp: usteer_sta_info_update_timeout_def timers_frame_def own_timer_def cancel_tree [OF tw])
  qed
qed

text \<open>
  With a positive station timeout an update never frees the entry it updates.
\<close>

lemma update_total:
  assumes wf: "wf_state s" and si: "si_heap s a = Some si"
    and pos: "0 < sint (local_sta_timeout (config s))"
  shows "\<exists>s' si'. usteer_sta_info_update ins now a signal avg s = Some s' \<and> wf_state s' \<and>
    frame_eq s s' \<and> timers_frame a s s' \<and> si_heap s' = (si_heap s)(a \<mapsto> si') \<and>
    si' = si\<lparr>
      si_signal := (if signal = NO_SIGNAL \<or> (si_connected si = 1 \<and> si_signal si \<noteq> NO_SIGNAL \<and> \<not> avg)
                    then si_signal si else signal),
      si_seen := current_time s\<rparr> \<and>
    own_timer a s' = (if si_connected si = 1 then {} else {(now + local_sta_timeout (config s), a)})"
proof -
  let ?si = "si\<lparr>
      si_signal := (if signal = NO_SIGNAL \<or> (si_connected si = 1 \<and> si_signal si \<noteq> NO_SIGNAL \<and> \<not> avg)
                    then si_signal si else signal),
      si_seen := current_time s\<rparr>"
  let ?s = "s\<lparr>si_heap := (si_heap s)(a \<mapsto> ?si)\<rparr>"
  have wf1: "wf_state ?s" using wf_state_heap_upd [OF wf si] by (simp add: same_entryI)
  have si1: "si_heap ?s a = Some ?si" by simp
  have run: "usteer_sta_info_update ins now a signal avg s =
      usteer_sta_info_update_timeout ins now a (local_sta_timeout (config s)) ?s"
    using si by (auto simp: usteer_sta_info_update_def upd_si_def Let_def intro!: arg_cong [of _ _ "usteer_sta_info_update_timeout _ _ _ _"])
  from update_timeout_total [OF wf1 si1, of now "local_sta_timeout (config s)"] pos obtain s' where
    "usteer_sta_info_update_timeout ins now a (local_sta_timeout (config s)) ?s = Some s'"
    "wf_state s'" "frame_eq ?s s'" "timers_frame a ?s s'" "si_heap s' = si_heap ?s"
    "own_timer a s' = (if si_connected si = 1 then {} else {(now + local_sta_timeout (config s), a)})"
    by (auto split: if_splits)
  with run show ?thesis by (auto simp: frame_eq_def timers_frame_def)
qed

end

section \<open>A concrete network\<close>

text \<open>
  Two access points of one network, \<open>''a''\<close> on 2.4 GHz with ten clients and \<open>''b''\<close> on 5 GHz
  with none, and one station that is connected to the first and has been heard by the second.
\<close>

definition ap_node :: "nat list \<Rightarrow> u8 \<Rightarrow> s32 \<Rightarrow> s32 \<Rightarrow> usteer_node" where
  "ap_node as i freq n = (calloc_node NODE_TYPE_LOCAL)\<lparr>
     node_sta_info := as, node_ssid := ''net'', node_bssid := MAC 2 0 0 0 0 i,
     node_freq := freq, node_n_assoc := n\<rparr>"

definition ap_local :: "usteer_node \<Rightarrow> u32 \<Rightarrow> usteer_local_node" where
  "ap_local nd i = \<lparr>
     ln_node = nd, ln_update_timer = None, ln_iface = ''wlan'', ln_ifindex = i, ln_wiphy = 0,
     ln_req_timer = None, ln_req_state = REQ_IDLE, ln_obj_id = i, ln_load_ewma = - 1,
     ln_load_thr_count = 0, ln_time = 0, ln_time_busy = 0, ln_nl80211_present = False,
     ln_nl80211_timer = None, ln_netifd_req_pending = False, ln_netifd_status_complete = False\<rparr>"

definition client :: mac where "client = MAC 2 0 0 0 0 9"

definition client_at_a :: sta_info where
  "client_at_a = (calloc_sta_info (NLocal ''a'') client)\<lparr>
     si_signal := - 80, si_seen := 99000, si_connected := 1\<rparr>"

definition client_at_b :: sta_info where
  "client_at_b = (calloc_sta_info (NLocal ''b'') client)\<lparr>si_signal := - 50, si_seen := 99000\<rparr>"

definition network :: usteer_state where
  "network = \<lparr>
     config = usteer_init_defaults, current_time = 100000,
     stations = [(client, \<lparr>st_nodes = [1, 0], st_seen_2ghz = True, st_seen_5ghz = True, st_addr = client\<rparr>)],
     si_heap = [0 \<mapsto> client_at_a, 1 \<mapsto> client_at_b], si_next = 2,
     tq = \<lparr>tq_tree = [(219000, 1)], tq_ref = 99000, tq_timeout = Some 120000, tq_linked = (\<lambda>t. t = 1)\<rparr>,
     local_nodes = [(''a'', ap_local (ap_node [0] 1 2412 10) 1), (''b'', ap_local (ap_node [1] 2 5180 0) 2)],
     remote_nodes = [], rn_next = 0, config_ssid_list = None, node_up_script = None,
     interfaces = [], local_id = 1, msg_seq = 0,
     remote_timer = None, reload_timer = None, vendor_timer = None, remote_fd = \<lparr>fd_num = 0, fd_registered = False\<rparr>, out = []\<rparr>"

lemmas network_defs = network_def client_at_a_def client_at_b_def client_def calloc_sta_info_def
  ap_local_def ap_node_def calloc_node_def

lemma network_heap [simp]:
  "si_heap network 0 = Some client_at_a" "si_heap network 1 = Some client_at_b"
  "si_heap network (Suc 0) = Some client_at_b"
  by (simp_all add: network_def)

lemma network_heap_iff:
  "si_heap network a = Some si \<longleftrightarrow> a = 0 \<and> si = client_at_a \<or> a = 1 \<and> si = client_at_b"
  by (auto simp: network_def)

lemma network_views:
  "sta_view network m = (if m = client then Some (client, [1, 0]) else None)"
  "node_view network r = (if r = NLocal ''a'' then Some [0] else if r = NLocal ''b'' then Some [1] else None)"
  by (simp add: sta_view_def get_sta_def network_def)
     (cases r; simp add: node_view_def get_local_def get_remote_def network_def ap_local_def ap_node_def)

lemma network_wf: "wf_state network"
proof -
  have si: "si_sta client_at_a = client" "si_sta client_at_b = client"
    "si_node client_at_a = NLocal ''a''" "si_node client_at_b = NLocal ''b''"
    "length (si_stats client_at_a) = 4" "length (si_stats client_at_b) = 4"
    "si_beacon_reports client_at_a = []" "si_beacon_reports client_at_b = []"
    by (simp_all add: client_at_a_def client_at_b_def calloc_sta_info_def)
  have "sta_ok network" "node_ok network" "si_ok network" "si_unique network" "no_empty_sta network"
    unfolding sta_ok_def node_ok_def si_ok_def si_unique_def no_empty_sta_def network_views
      network_heap_iff using si by (auto simp: network_def split: if_splits)
  moreover have "timers_ok network" by (auto simp: timers_ok_def tq_wf_def network_def)
  moreover have "keys_ok network"
    by (simp add: keys_ok_def network_def dict_ok_def)
  ultimately show ?thesis by (simp add: wf_state_def wf_core_def)
qed

lemma network_nodes [simp]:
  "get_node network (NLocal ''a'') = Some (ap_node [0] 1 2412 10)"
  "get_node network (NLocal ''b'') = Some (ap_node [1] 2 5180 0)"
  "get_local network ''a'' = Some (ap_local (ap_node [0] 1 2412 10) 1)"
  "get_local network ''b'' = Some (ap_local (ap_node [1] 2 5180 0) 2)"
  by (simp_all add: get_local_def network_def ap_local_def)

lemma network_core: "wf_core network"
  using network_wf by (simp add: wf_state_def)

lemma network_entry [simp]:
  "entry network client (NLocal ''a'') = Some 0" "entry network client (NLocal ''b'') = Some 1"
  by (simp_all add: entry_iff [OF network_core] client_at_a_def client_at_b_def calloc_sta_info_def)

lemma network_live [simp]: "node_live network (NLocal ''a'')" "node_live network (NLocal ''b'')"
  by (simp_all add: node_live_def network_views)

section \<open>Properties\<close>

text \<open>
  C8. Expiry of stations. When the timeout queue fires, with time inside the clock's window and
  at least one clock reading more than there are timers, the loop ends; exactly the entries
  with a timer that was due at one of the readings made are freed, their timers are gone, the
  other timers stay, the state is well formed and the event loop is armed again from the last
  reading.
\<close>

theorem sta_timeouts_expire:
  assumes "wf_state s" "tq_sorted_at (tq_ref (tq s)) (tq s)"
    and "\<forall>r \<in> set readings. tq_window (tq s) r" "length (tq_tree (tq s)) < length readings"
  shows "\<exists>s' n. usteer_timeout_cb tq mod_tq usteer_sta_info_timeout readings s = Some s' \<and>
    wf_state s' \<and> n < length readings \<and>
    tq_tree (tq s') = filter (\<lambda>x. \<forall>r \<in> set (take (Suc n) readings). \<not> timer_due r x) (tq_tree (tq s)) \<and>
    dom (si_heap s') = dom (si_heap s) -
      {t. \<exists>x \<in> set (tq_tree (tq s)). snd x = t \<and> (\<exists>r \<in> set (take (Suc n) readings). timer_due r x)} \<and>
    tq s' = usteer_timeout_recalc (tq s') (readings ! n)"
  using sta_timers.cb_returns [OF assms] .

theorem sta_timeouts_expire_witness:
  "\<exists>s'. usteer_timeout_cb tq mod_tq usteer_sta_info_timeout [219000, 219001] network = Some s' \<and>
     wf_state s' \<and> tq_tree (tq s') = [] \<and> dom (si_heap s') = {0}"
proof -
  have "\<forall>r \<in> set [219000, 219001]. tq_window (tq network) r"
    "length (tq_tree (tq network)) < length [219000::u32, 219001]"
    "tq_sorted_at (tq_ref (tq network)) (tq network)"
    by (auto simp: tq_window_def tq_sorted_at_def network_def)
  from sta_timeouts_expire [OF network_wf this(3,1,2)] obtain s' n where
    s': "usteer_timeout_cb tq mod_tq usteer_sta_info_timeout [219000, 219001] network = Some s'"
      "wf_state s'" "tq_tree (tq s') = filter (\<lambda>x. \<forall>r \<in> set (take (Suc n) [219000, 219001]). \<not> timer_due r x)
         (tq_tree (tq network))"
      "dom (si_heap s') = dom (si_heap network) - {t. \<exists>x \<in> set (tq_tree (tq network)). snd x = t \<and>
         (\<exists>r \<in> set (take (Suc n) [219000, 219001]). timer_due r x)}" by blast
  have "tq_tree (tq network) = [(219000, 1)]" "dom (si_heap network) = {0, 1}"
    by (auto simp: network_def)
  with s' show ?thesis by (auto simp: timer_due_def usteer_timeout_delta_def)
qed

text \<open>
  C19. Deleting an entry is defined on every live entry of a well-formed state: it frees exactly
  that entry, unlinks it from its station, its node and the timeout queue (the state stays well
  formed, so nothing refers to the freed memory), and removes the station itself with its last
  entry.
\<close>

theorem sta_info_del_safe:
  assumes "wf_state s" "si_heap s a = Some si"
  shows "\<exists>s'. usteer_sta_info_del a s = Some s' \<and> wf_state s' \<and> frame_eq s s' \<and>
    si_heap s' = (si_heap s)(a := None) \<and> tq s' = usteer_timeout_cancel (tq s) a \<and>
    (get_sta s' (si_sta si) = None \<longleftrightarrow> (\<forall>r. r \<noteq> si_node si \<longrightarrow> entry s (si_sta si) r = None))"
proof -
  have core: "wf_core s" using assms(1) by (simp add: wf_state_def)
  from del_total [OF core assms(2)] assms(1) obtain s' where
    s': "usteer_sta_info_del a s = Some s'" "wf_core s'" "frame_eq s s'" "no_empty_sta s'"
      "si_heap s' = (si_heap s)(a := None)" "tq s' = usteer_timeout_cancel (tq s) a"
    by (auto simp: wf_state_def)
  have gone: "get_sta s' m = None \<longleftrightarrow> \<not> (\<exists>b x. si_heap s' b = Some x \<and> si_sta x = m)" for m
  proof (cases "get_sta s' m")
    case None
    then show ?thesis using wf_core_entry [OF s'(2)] by (metis option.distinct(1))
  next
    case (Some st)
    then have "st_nodes st \<noteq> []" using s'(4) by (auto simp: no_empty_sta_def sta_view_def)
    then obtain b where "b \<in> set (st_nodes st)" by (cases "st_nodes st") auto
    with wf_core_sta(2) [OF s'(2) Some] Some show ?thesis by auto
  qed
  have others: "(\<exists>b x. si_heap s' b = Some x \<and> si_sta x = si_sta si) \<longleftrightarrow>
      (\<exists>r. r \<noteq> si_node si \<and> entry s (si_sta si) r \<noteq> None)" (is "?L \<longleftrightarrow> ?R")
  proof
    assume ?L
    then obtain b x where x: "si_heap s b = Some x" "si_sta x = si_sta si" "b \<noteq> a"
      using s'(5) by (auto split: if_splits)
    then have "entry s (si_sta si) (si_node x) = Some b" using entry_iff [OF core] by blast
    moreover have "si_node x \<noteq> si_node si" using wf_core_unique [OF core x(1) assms(2)] x by blast
    ultimately show ?R by blast
  next
    assume ?R
    then obtain r b where "r \<noteq> si_node si" "entry s (si_sta si) r = Some b" by auto
    then obtain x where
      "si_heap s b = Some x" "si_sta x = si_sta si" "si_node x \<noteq> si_node si"
      by (auto simp: entry_iff [OF core])
    with assms(2) s'(5) show ?L by (intro exI [of _ b] exI [of _ x]) auto
  qed
  have "get_sta s' (si_sta si) = None \<longleftrightarrow>
      (\<forall>r. r \<noteq> si_node si \<longrightarrow> entry s (si_sta si) r = None)" unfolding gone others by (simp add: imp_conv_disj)
  moreover have "wf_state s'" using s'(2,4) by (simp add: wf_state_def)
  ultimately show ?thesis using s'(1,3,5,6) by (intro exI [of _ s'] conjI) assumption+
qed

theorem sta_info_del_safe_witness:
  "\<exists>s'. usteer_sta_info_del 1 network = Some s' \<and> wf_state s' \<and>
     si_heap s' = [0 \<mapsto> client_at_a] \<and> tq_tree (tq s') = [] \<and> get_sta s' client \<noteq> None"
proof -
  have b: "si_sta client_at_b = client" "si_node client_at_b = NLocal ''b''"
    by (simp_all add: client_at_b_def calloc_sta_info_def)
  have "\<not> (\<forall>r. r \<noteq> NLocal ''b'' \<longrightarrow> entry network client r = None)"
    using network_entry(1) by (auto intro!: exI [of _ "NLocal ''a''"])
  moreover have "(si_heap network)(1 := None) = [0 \<mapsto> client_at_a]"
    "tq_tree (usteer_timeout_cancel (tq network) 1) = []"
    by (auto simp: network_def usteer_timeout_cancel_def usteer_timeout_isset_def timeout_tree_cancel_def)
  ultimately show ?thesis
    using sta_info_del_safe [OF network_wf network_heap(2)] b by auto
qed

text \<open>
  Removing a node: the cleanup is defined, frees exactly the node's entries, and leaves a
  well-formed state in which no station has an entry at the node and every other entry is
  untouched.
\<close>

lemma sta_node_cleanup_complete:
  assumes "wf_state s" "get_node s r = Some nd"
  shows "\<exists>s'. usteer_sta_node_cleanup r s = Some s' \<and> wf_state s' \<and> frame_eq s s' \<and>
    (\<forall>m. entry s' m r = None) \<and> (\<forall>m r'. r' \<noteq> r \<longrightarrow> entry s' m r' = entry s m r') \<and>
    (\<forall>a. si_heap s' a = (if a \<in> set (node_sta_info nd) then None else si_heap s a))"
proof -
  have core: "wf_core s" using assms(1) by (simp add: wf_state_def)
  from cleanup_total [OF assms] obtain s' where
    s': "usteer_sta_node_cleanup r s = Some s'" "wf_state s'" "frame_eq s s'"
      "si_heap s' = (\<lambda>a. if a \<in> set (node_sta_info nd) then None else si_heap s a)" by blast
  have core': "wf_core s'" using s' by (simp add: wf_state_def)
  note mem = wf_core_node(2) [OF core assms(2)]
  have "entry s' m r' = Some a \<longleftrightarrow> r' \<noteq> r \<and> entry s m r' = Some a" for m r' a
    unfolding entry_iff [OF core] entry_iff [OF core'] s'(4) using mem by auto
  then have "entry s' m r = None" "r' \<noteq> r \<Longrightarrow> entry s' m r' = entry s m r'" for m r'
    by (metis option.exhaust)+
  with s' show ?thesis by auto
qed

text \<open>
  C4. Refinement: on well-formed states, finding or creating the entry of a station at a live
  node implements an update of the abstract map from (station, node) to entries; it is
  defined, reports creation exactly when there was no entry, and is idempotent.
\<close>

theorem sta_info_obtain_refines_map:
  assumes "wf_state s" "node_live s r"
  shows "\<exists>a c s'. sta_info_obtain m r s = Some (a, c, s') \<and> wf_state s' \<and>
    entry s' = (entry s)(m := (entry s m)(r \<mapsto> a)) \<and>
    sta_info_obtain m r s' = Some (a, False, s') \<and> c = (entry s m r = None)"
  using sta_entries.acquire_total [OF assms, of m] by blast

theorem sta_info_obtain_refines_map_witness:
  "\<exists>a c s'. sta_info_obtain (MAC 2 0 0 0 0 10) (NLocal ''b'') network = Some (a, c, s') \<and> wf_state s' \<and>
     entry s' (MAC 2 0 0 0 0 10) (NLocal ''b'') = Some a \<and> entry s' client (NLocal ''a'') = Some 0"
proof -
  have "client \<noteq> MAC 2 0 0 0 0 10" by (simp add: client_def)
  with sta_info_obtain_refines_map [OF network_wf network_live(2), of "MAC 2 0 0 0 0 10"] show ?thesis
    by fastforce
qed

text \<open>
  C34. A station timeout of zero (or of 2^31 ms and more, which is negative as an \<^verbatim>\<open>int\<close>) makes
  the update free the entry of a client that is not connected: a caller that goes on using the
  pointer, as the event handler and the client list do, follows freed memory.
\<close>

theorem sta_info_update_frees_entry:
  assumes "wf_state s" "si_heap s a = Some si" "si_connected si \<noteq> 1"
    and "sint (local_sta_timeout (config s)) \<le> 0"
  shows "\<exists>s'. usteer_sta_info_update ins now a signal avg s = Some s' \<and> wf_state s' \<and>
    si_heap s' a = None \<and> (\<forall>f. upd_si a f s' = None)"
proof -
  let ?f = "\<lambda>si. (if signal \<noteq> NO_SIGNAL then si\<lparr>si_signal := signal\<rparr> else si)\<lparr>si_seen := current_time s\<rparr>"
  let ?s = "s\<lparr>si_heap := (si_heap s)(a \<mapsto> ?f si)\<rparr>"
  have wf1: "wf_state ?s" using wf_state_heap_upd [OF assms(1,2)] by (simp add: same_entryI)
  then have core: "wf_core ?s" by (simp add: wf_state_def)
  have run: "usteer_sta_info_update ins now a signal avg s = usteer_sta_info_del a ?s"
    using assms by (simp add: usteer_sta_info_update_def usteer_sta_info_update_timeout_def upd_si_def Let_def)
  have "si_heap ?s a = Some (?f si)" by simp
  from del_total [OF core this] wf1 obtain s' where
    "usteer_sta_info_del a ?s = Some s'" "wf_state s'" "si_heap s' = (si_heap ?s)(a := None)"
    by (auto simp: wf_state_def)
  with run show ?thesis by (auto simp: upd_si_def)
qed

theorem sta_info_update_frees_entry_witness:
  "\<exists>s'. usteer_sta_info_update ordered_insert 100000 1 (- 60) False
     (network\<lparr>config := usteer_init_defaults\<lparr>local_sta_timeout := 0\<rparr>\<rparr>) = Some s' \<and> si_heap s' 1 = None"
proof -
  let ?s = "network\<lparr>config := usteer_init_defaults\<lparr>local_sta_timeout := 0\<rparr>\<rparr>"
  have "wf_state ?s" using network_wf by simp
  moreover have "si_heap ?s 1 = Some client_at_b" by simp
  moreover have "si_connected client_at_b \<noteq> 1" by (simp add: client_at_b_def calloc_sta_info_def)
  moreover have "sint (local_sta_timeout (config ?s)) \<le> 0" by simp
  ultimately show ?thesis
    using sta_info_update_frees_entry [of ?s 1 client_at_b ordered_insert 100000 "- 60" False] by blast
qed

end
