(* ===== verification/Hearing_Map.thy ===== *)
theory Hearing_Map
  imports Stations "HOL-Library.Signed_Division"
begin

text \<open>
  hearing_map.c: beacon reports (what a client hears of the other access points), the
  schedule of beacon requests over the bands of the local nodes, and the tables of channels
  and operating classes.

  Parameters: \<open>fl\<close> is the rounding of a real to a C \<^verbatim>\<open>float\<close>; \<open>ether_aton\<close> and
  \<open>ether_ntoa\<close> are the address conversions of the C library, whose text format differs
  between libraries. A parsed ubus message is given by its attributes, an absent attribute
  being \<^term>\<open>None\<close>.
\<close>

section \<open>Model\<close>

definition get_usteer_node_from_bssid :: "usteer_state \<Rightarrow> mac \<Rightarrow> node_ref option" where
  "get_usteer_node_from_bssid s bssid =
     (case List.find (\<lambda>(n, ln). node_bssid (ln_node ln) = bssid) (local_nodes s) of
        Some (n, _) \<Rightarrow> Some (NLocal n)
      | None \<Rightarrow>
          (case List.find (\<lambda>(a, rn). node_bssid (rn_node rn) = bssid) (remote_nodes s) of
             Some (a, _) \<Rightarrow> Some (NRemote a)
           | None \<Rightarrow> None))"

definition hearing_map_entry ::
    "(mac \<Rightarrow> string) \<Rightarrow> usteer_state \<Rightarrow> beacon_report \<Rightarrow> string \<times> blobmsg" where
  "hearing_map_entry ether_ntoa s br =
     (let node = (case get_usteer_node_from_bssid s (br_bssid br) of
                    None \<Rightarrow> []
                  | Some r \<Rightarrow> (case usteer_node_name s r of None \<Rightarrow> [] | Some n \<Rightarrow> [(''node'', Add_string n)]));
          diff_secs = (current_time s - br_usteer_time br) div 1000;
          ttl = ucast (beacon_report_invalide_timeout (config s)) - diff_secs
      in (ether_ntoa (br_bssid br), Add_table (node @
           [(''rcpi'', Add_u16 (br_rcpi br)),
            (''rsni'', Add_u16 (br_rsni br)),
            (''op_class'', Add_u16 (br_op_class br)),
            (''channel'', Add_u16 (br_channel br)),
            (''time-to-live'', Add_u64 ttl)])))"

definition usteer_ubus_hearing_map ::
    "(mac \<Rightarrow> string) \<Rightarrow> usteer_state \<Rightarrow> sta_info \<Rightarrow> string \<times> blobmsg" where
  "usteer_ubus_hearing_map ether_ntoa s si =
     (''hearing_map'', Add_table (map (hearing_map_entry ether_ntoa s) (si_beacon_reports si)))"

text \<open>C's \<^verbatim>\<open>/\<close> on \<^verbatim>\<open>int\<close> rounds towards zero: \<open>sdiv\<close>.\<close>

definition get_channel_from_freq :: "int \<Rightarrow> int" where
  "get_channel_from_freq freq =
     (if freq = 2484 then 14
      else if freq < 2484 then (freq - 2407) sdiv 5
      else if freq \<ge> 4910 \<and> freq \<le> 4980 then (freq - 4000) sdiv 5
      else if freq \<le> 45000 then (freq - 5000) sdiv 5
      else if freq \<ge> 58320 \<and> freq \<le> 64800 then (freq - 56160) sdiv 2160
      else 0)"

definition get_op_class_from_channel :: "int \<Rightarrow> int" where
  "get_op_class_from_channel channel =
     (if channel \<ge> 36 \<and> channel \<le> 48 then 115
      else if channel \<ge> 52 \<and> channel \<le> 64 then 118
      else if channel \<ge> 100 \<and> channel \<le> 140 then 121
      else if channel \<ge> 1 \<and> channel \<le> 13 then 81
      else 0)"

definition usteer_beacon_request_send ::
    "nat \<Rightarrow> s32 \<Rightarrow> u8 \<Rightarrow> usteer_state \<Rightarrow> usteer_state option" where
  "usteer_beacon_request_send a freq mode s = do {
     si \<leftarrow> si_heap s a;
     ln \<leftarrow> (case si_node si of NLocal n \<Rightarrow> get_local s n | NRemote _ \<Rightarrow> None);
     let channel = get_channel_from_freq (sint freq);
     let opClass = get_op_class_from_channel channel;
     Some (emit (Ubus_invoke_async (ln_obj_id ln) ''rrm_beacon_req''
       [(''addr'', Add_string (mac_addr_fmt (si_sta si))),
        (''mode'', Add_u32 (ucast mode)),
        (''duration'', Add_u32 200),
        (''channel'', Add_u32 (word_of_int channel)),
        (''op_class'', Add_u32 (word_of_int opClass)),
        (''bssid'', Add_string ''ff:ff:ff:ff:ff:ff'')]) s)
   }"

text \<open>The mode and the updated request record; a 64-bit \<^verbatim>\<open>long\<close> is assumed.\<close>

definition usteer_get_beacon_request_mode ::
    "usteer_node \<Rightarrow> beacon_request \<Rightarrow> s32 \<Rightarrow> u8 \<times> beacon_request" where
  "usteer_get_beacon_request_mode nd br freq =
     (let br = (if node_freq nd = freq
                then (let time_diff = breq_lastReportTime br - breq_lastRequestTime br;
                          br = (if 0 < sint time_diff
                                then br\<lparr>breq_failed_requests := breq_failed_requests br div 2\<rparr> else br)
                      in br\<lparr>breq_failed_requests := breq_failed_requests br + 1\<rparr>)
                else br);
          failed = unat (breq_failed_requests br);
          mode = (if sint freq < 4000 \<and> failed < 3 then 1
                  else if sint freq < 4000 \<and> failed < 7 then 0
                  else if 4000 < sint freq \<and> failed < 5 then 0
                  else 2)
      in (mode, br))"

fun next_band_scan :: "s32 \<Rightarrow> bool \<Rightarrow> s32 list \<Rightarrow> s32 option" where
  "next_band_scan freq band_already_scanned [] = None"
| "next_band_scan freq band_already_scanned (f # fs) =
     (if freq = f then next_band_scan freq False fs
      else if band_already_scanned then next_band_scan freq band_already_scanned fs
      else Some f)"

definition local_freqs :: "usteer_state \<Rightarrow> s32 list" where
  "local_freqs s = map (\<lambda>(n, ln). node_freq (ln_node ln)) (local_nodes s)"

definition usteer_beacon_request_next_band :: "usteer_state \<Rightarrow> s32 \<Rightarrow> s32 option" where
  "usteer_beacon_request_next_band s freq =
     (case next_band_scan freq True (local_freqs s) of
        Some f \<Rightarrow> Some f
      | None \<Rightarrow> (case local_freqs s of [] \<Rightarrow> None | f # _ \<Rightarrow> Some f))"

text \<open>
  The request interval in \<^verbatim>\<open>float\<close> arithmetic: the base interval plus a share of the
  modifier between -1 and 1 that grows with the signal.
\<close>

definition beacon_request_interval :: "(rat \<Rightarrow> rat) \<Rightarrow> usteer_config \<Rightarrow> s32 \<Rightarrow> rat" where
  "beacon_request_interval fl cfg signal =
     (let adj_signal = fl (of_int (sint (signal + 60)));
          share = fl (adj_signal / fl (of_int (1 + \<bar>\<lfloor>adj_signal\<rfloor>\<bar>)))
      in fl (fl (of_nat (unat (beacon_request_frequency cfg))) +
             fl (fl (of_nat (unat (beacon_request_signal_modifier cfg))) * share)))"

definition usteer_beacon_request_check ::
    "(rat \<Rightarrow> rat) \<Rightarrow> nat \<Rightarrow> usteer_state \<Rightarrow> usteer_state option" where
  "usteer_beacon_request_check fl a s = do {
     si \<leftarrow> si_heap s a;
     nd \<leftarrow> get_node s (si_node si);
     let br = si_beacon_request si;
     let ctime = current_time s;
     let freq = breq_band br;
     (if freq = node_freq nd \<and>
         fl (of_nat (unat (ctime - breq_lastRequestTime br))) <
           beacon_request_interval fl (config s) (si_signal si)
      then Some s
      else do {
        let (mode, br') = usteer_get_beacon_request_mode nd br freq;
        s \<leftarrow> upd_si a (\<lambda>si. si\<lparr>si_beacon_request := br'\<rparr>) s;
        s \<leftarrow> usteer_beacon_request_send a freq mode s;
        s \<leftarrow> (if freq = node_freq nd
              then do {
                s \<leftarrow> upd_si a (\<lambda>si. si\<lparr>si_beacon_request :=
                       (si_beacon_request si)\<lparr>breq_lastRequestTime := ctime\<rparr>\<rparr>) s;
                usteer_beacon_report_cleanup a (Some (MAC 255 255 255 255 255 255)) s
              }
              else Some s);
        next_band \<leftarrow> usteer_beacon_request_next_band s freq;
        upd_si a (\<lambda>si. si\<lparr>si_beacon_request := (si_beacon_request si)\<lparr>breq_band := next_band\<rparr>\<rparr>) s
      })
   }"

record beacon_rep_msg =
  rep_bssid :: "string option"
  rep_addr :: "string option"
  rep_op_class :: "u16 option"
  rep_channel :: "u16 option"
  rep_rcpi :: "u16 option"
  rep_rsni :: "u16 option"

text \<open>
  An address that does not parse is a null pointer, which the tree search compares with as
  soon as the tree holds an element; an absent report field is a null attribute.
\<close>

definition usteer_handle_event_beacon_report ::
    "(string \<Rightarrow> mac option) \<Rightarrow> string \<Rightarrow> beacon_rep_msg \<Rightarrow> usteer_state \<Rightarrow> usteer_state option" where
  "usteer_handle_event_beacon_report ether_aton n msg s =
     (case (rep_bssid msg, rep_addr msg) of
        (Some bssid, Some address) \<Rightarrow>
          (case ether_aton address of
             None \<Rightarrow> if stations s = [] then Some s else None
           | Some addr_sta \<Rightarrow>
               (case usteer_sta_get addr_sta False s of
                  (None, _) \<Rightarrow> Some s
                | (Some m, _) \<Rightarrow> do {
                    (si, _, s) \<leftarrow> usteer_sta_info_get m (NLocal n) False s;
                    (case si of
                       None \<Rightarrow> Some s
                     | Some a \<Rightarrow> do {
                         addr \<leftarrow> ether_aton bssid;
                         (if get_usteer_node_from_bssid s addr = None then Some s
                          else do {
                            rcpi \<leftarrow> rep_rcpi msg;
                            rsni \<leftarrow> rep_rsni msg;
                            op_class \<leftarrow> rep_op_class msg;
                            channel \<leftarrow> rep_channel msg;
                            let br = \<lparr>br_address = a, br_bssid = addr, br_rcpi = rcpi, br_rsni = rsni,
                                      br_op_class = op_class, br_channel = channel,
                                      br_usteer_time = current_time s\<rparr>;
                            s \<leftarrow> upd_si a (\<lambda>si. si\<lparr>si_beacon_request :=
                                  (si_beacon_request si)\<lparr>breq_lastReportTime := br_usteer_time br\<rparr>\<rparr>) s;
                            s \<leftarrow> usteer_beacon_report_cleanup a (Some addr) s;
                            upd_si a (\<lambda>si. si\<lparr>si_beacon_reports := br # si_beacon_reports si\<rparr>) s
                          })
                       })
                  }))
      | _ \<Rightarrow> Some s)"

section \<open>Lemmas\<close>

subsection \<open>Nodes by BSSID\<close>

lemma node_from_bssid_live:
  assumes "keys_ok s" "get_usteer_node_from_bssid s b = Some r"
  shows "\<exists>nd. get_node s r = Some nd \<and> node_bssid nd = b"
proof -
  have d: "distinct (map fst (local_nodes s))" "distinct (map fst (remote_nodes s))"
    using assms(1) by (auto simp: keys_ok_def dict_ok_def)
  from assms(2) consider n ln where "r = NLocal n" "(n, ln) \<in> set (local_nodes s)" "node_bssid (ln_node ln) = b"
    | a rn where "r = NRemote a" "(a, rn) \<in> set (remote_nodes s)" "node_bssid (rn_node rn) = b"
    by (force simp: get_usteer_node_from_bssid_def find_Some_iff split: option.splits
        dest: nth_mem)
  then show ?thesis
    using d by cases (auto simp: get_local_def get_remote_def)
qed

lemma node_from_bssid_cong:
  "local_nodes s' = local_nodes s \<Longrightarrow> remote_nodes s' = remote_nodes s \<Longrightarrow>
   get_usteer_node_from_bssid s' = get_usteer_node_from_bssid s"
  by (intro ext) (simp add: get_usteer_node_from_bssid_def cong: option.case_cong)

subsection \<open>Reports\<close>

lemma cleanup_Some:
  "usteer_beacon_report_cleanup a b s = Some s' \<longleftrightarrow>
   (\<exists>si. si_heap s a = Some si \<and> s' = s\<lparr>si_heap := (si_heap s)(a \<mapsto> si\<lparr>si_beacon_reports :=
      (case b of None \<Rightarrow> [] | Some b \<Rightarrow> filter (\<lambda>br. \<not> usteer_beacon_report_delete s br b) (si_beacon_reports si))\<rparr>)\<rparr>)"
  by (simp add: usteer_beacon_report_cleanup_def upd_si_Some)

lemma delete_cong:
  "current_time s' = current_time s \<Longrightarrow> config s' = config s \<Longrightarrow>
   usteer_beacon_report_delete s' = usteer_beacon_report_delete s"
  by (simp add: usteer_beacon_report_delete_def fun_eq_iff)

text \<open>The entry after a report: fresh report first, the same BSSID and stale ones gone.\<close>

definition report_entry :: "usteer_state \<Rightarrow> beacon_report \<Rightarrow> sta_info \<Rightarrow> sta_info" where
  "report_entry s br si = si\<lparr>
     si_beacon_request := (si_beacon_request si)\<lparr>breq_lastReportTime := br_usteer_time br\<rparr>,
     si_beacon_reports :=
       br # filter (\<lambda>x. \<not> usteer_beacon_report_delete s x (br_bssid br)) (si_beacon_reports si)\<rparr>"

lemma handle_report_effect:
  assumes wf: "wf_state s"
    and msg: "rep_bssid msg = Some bs" "rep_addr msg = Some ad" "rep_rcpi msg = Some rcpi"
      "rep_rsni msg = Some rsni" "rep_op_class msg = Some oc" "rep_channel msg = Some ch"
    and addr: "ether_aton ad = Some m" "ether_aton bs = Some b"
  defines "br \<equiv> \<lambda>a. \<lparr>br_address = a, br_bssid = b, br_rcpi = rcpi, br_rsni = rsni,
      br_op_class = oc, br_channel = ch, br_usteer_time = current_time s\<rparr>"
  shows "usteer_handle_event_beacon_report ether_aton n msg s =
    Some (case entry s m (NLocal n) of
        None \<Rightarrow> s
      | Some a \<Rightarrow> if get_usteer_node_from_bssid s b = None then s
                  else s\<lparr>si_heap := (si_heap s)(a := map_option (report_entry s (br a)) (si_heap s a))\<rparr>)"
proof -
  have core: "wf_core s" using wf by (simp add: wf_state_def)
  show ?thesis
  proof (cases "get_sta s m")
    case None
    then show ?thesis
      using msg addr by (simp add: usteer_handle_event_beacon_report_def usteer_sta_get_def entry_def)
  next
    case (Some st)
    then have st: "get_sta s m \<noteq> None" by simp
    show ?thesis
    proof (cases "entry s m (NLocal n)")
      case None
      with Some msg addr get_absent [OF core st None] show ?thesis
        by (simp add: usteer_handle_event_beacon_report_def usteer_sta_get_def)
    next
      case (Some a)
      then obtain si where si: "si_heap s a = Some si" using entry_iff [OF core] by blast
      have del: "usteer_beacon_report_delete (s\<lparr>si_heap := h\<rparr>) = usteer_beacon_report_delete s" for h
        by (intro delete_cong) simp_all
      show ?thesis
        using Some msg addr get_present [OF core st Some] \<open>get_sta s m = Some st\<close> si
        by (auto simp: usteer_handle_event_beacon_report_def usteer_sta_get_def upd_si_def
            usteer_beacon_report_cleanup_def report_entry_def br_def del Let_def)
    qed
  qed
qed

lemma same_entry_report: "br_address br = a \<Longrightarrow> same_entry a si (report_entry s br si)"
  by (auto simp: same_entry_def report_entry_def)

subsection \<open>Bands\<close>

lemma next_band_found: "f \<noteq> freq \<Longrightarrow> next_band_scan freq False (f # fs) = Some f"
  by simp

lemma next_band_skip:
  "freq \<notin> set xs \<Longrightarrow> next_band_scan freq True (xs @ freq # ys) = next_band_scan freq False ys"
  by (induction xs) auto

lemma local_freqs_nonempty: "get_local s n \<noteq> None \<Longrightarrow> local_freqs s \<noteq> []"
  by (auto simp: get_local_def local_freqs_def)

lemma next_band_total: "local_freqs s \<noteq> [] \<Longrightarrow> \<exists>f. usteer_beacon_request_next_band s freq = Some f"
  by (auto simp: usteer_beacon_request_next_band_def split: option.splits list.splits)

subsection \<open>Requests\<close>

lemma request_send_step:
  assumes "si_heap s a = Some si" "si_node si = NLocal n" "get_local s n = Some l"
  shows "\<exists>s'. usteer_beacon_request_send a freq mode s = Some s' \<and> entry_step a s s' \<and>
    si_heap s' a = Some si"
  using assms entry_step_emit [OF assms(1)]
  by (auto simp: usteer_beacon_request_send_def Let_def)

lemma cleanup_step:
  assumes "si_heap s a = Some si"
  shows "\<exists>s' rs. usteer_beacon_report_cleanup a (Some b) s = Some s' \<and> entry_step a s s' \<and>
    si_heap s' a = Some (si\<lparr>si_beacon_reports := rs\<rparr>)"
proof -
  obtain s' where s': "usteer_beacon_report_cleanup a (Some b) s = Some s'"
    using assms by (simp add: usteer_beacon_report_cleanup_def upd_si_def)
  with entry_step_upd_si [OF assms _ s'[unfolded usteer_beacon_report_cleanup_def]] show ?thesis
    by (auto simp: same_entry_def)
qed

text \<open>A request on the band of the node itself is remembered, and stale reports are dropped.\<close>

lemma own_band_step:
  fixes a :: nat and t0 :: u64
  assumes "si_heap s a = Some si"
  defines "g \<equiv> \<lambda>si. si\<lparr>si_beacon_request := (si_beacon_request si)\<lparr>breq_lastRequestTime := t0\<rparr>\<rparr>"
  shows "\<exists>s' si'. (if own then Option.bind (upd_si a g s) (usteer_beacon_report_cleanup a (Some (MAC 255 255 255 255 255 255)))
      else Some s) = Some s' \<and> entry_step a s s' \<and> si_heap s' a = Some si' \<and>
    si_connected si' = si_connected si \<and> si_signal si' = si_signal si"
proof (cases own)
  case True
  obtain t where u: "upd_si a g s = Some t" using assms(1) by (simp add: upd_si_def)
  with entry_step_upd_si [OF assms(1), of g] have t: "entry_step a s t" "si_heap t a = Some (g si)"
    by (auto simp: same_entry_def g_def)
  from cleanup_step [OF t(2)] obtain s' rs where
    s': "usteer_beacon_report_cleanup a (Some (MAC 255 255 255 255 255 255)) t = Some s'"
      "entry_step a t s'" "si_heap s' a = Some ((g si)\<lparr>si_beacon_reports := rs\<rparr>)" by blast
  have "entry_step a s s'" using t(1) s'(2) by (rule entry_step_trans)
  with s' True u show ?thesis by (auto simp: g_def)
next
  case False
  with assms(1) entry_step_refl [OF assms(1)] show ?thesis by auto
qed

lemma request_check_step:
  assumes core: "wf_core s" and si: "si_heap s a = Some si" and local: "si_node si = NLocal n"
  shows "\<exists>s' si'. usteer_beacon_request_check fl a s = Some s' \<and> entry_step a s s' \<and>
    si_heap s' a = Some si' \<and> si_connected si' = si_connected si \<and> si_signal si' = si_signal si"
proof -
  from wf_core_entry [OF core si] obtain nd where nd: "get_node s (si_node si) = Some nd" by metis
  with local obtain ln where ln: "get_local s n = Some ln" by auto
  let ?br = "si_beacon_request si"
  let ?freq = "breq_band ?br"
  let ?quiet = "?freq = node_freq nd \<and>
      fl (of_nat (unat (current_time s - breq_lastRequestTime ?br))) <
        beacon_request_interval fl (config s) (si_signal si)"
  show ?thesis
  proof (cases ?quiet)
    case True
    then have "usteer_beacon_request_check fl a s = Some s"
      using si nd by (simp add: usteer_beacon_request_check_def Let_def)
    with si entry_step_refl [OF si] show ?thesis by auto
  next
    case False
    obtain mode br' where mode: "usteer_get_beacon_request_mode nd ?br ?freq = (mode, br')"
      by fastforce
    let ?f = "\<lambda>si. si\<lparr>si_beacon_request := br'\<rparr>"
    obtain s1 where u1: "upd_si a ?f s = Some s1" using si by (simp add: upd_si_def)
    with entry_step_upd_si [OF si, of ?f] have e1: "entry_step a s s1" "si_heap s1 a = Some (?f si)"
      by (auto simp: same_entry_def)
    have "get_local s1 n = Some ln" using ln entry_step_frame(4) [OF e1(1)] by (simp add: get_local_def)
    with request_send_step [OF e1(2)] local obtain s2 where
      s2: "usteer_beacon_request_send a ?freq mode s1 = Some s2" "entry_step a s1 s2"
        "si_heap s2 a = Some (?f si)" by fastforce
    from own_band_step [OF s2(3), of "?freq = node_freq nd" "current_time s"] obtain s3 si3 where
      s3: "(if ?freq = node_freq nd
        then Option.bind (upd_si a (\<lambda>si. si\<lparr>si_beacon_request :=
                       (si_beacon_request si)\<lparr>breq_lastRequestTime := current_time s\<rparr>\<rparr>) s2)
               (usteer_beacon_report_cleanup a (Some (MAC 255 255 255 255 255 255)))
        else Some s2) = Some s3" "entry_step a s2 s3" "si_heap s3 a = Some si3"
      "si_connected si3 = si_connected si" "si_signal si3 = si_signal si" by auto
    have e3: "entry_step a s s3" using e1(1) s2(2) s3(2) by (blast intro: entry_step_trans)
    have "local_freqs s3 \<noteq> []"
      using local_freqs_nonempty [of s n] ln entry_step_frame(4) [OF e3] by (simp add: local_freqs_def)
    then obtain f where f: "usteer_beacon_request_next_band s3 ?freq = Some f"
      using next_band_total by blast
    let ?h = "\<lambda>si. si\<lparr>si_beacon_request := (si_beacon_request si)\<lparr>breq_band := f\<rparr>\<rparr>"
    obtain s4 where u4: "upd_si a ?h s3 = Some s4" using s3(3) by (simp add: upd_si_def)
    with entry_step_upd_si [OF s3(3), of ?h] have "entry_step a s3 s4" "si_heap s4 a = Some (?h si3)"
      by (auto simp: same_entry_def)
    moreover have "usteer_beacon_request_check fl a s = Some s4"
      by (simp only: usteer_beacon_request_check_def Let_def si nd mode if_not_P [OF False]
          Option.bind.simps split u1 s2(1) s3(1) f u4)
    ultimately show ?thesis
      using e3 s3(4,5) by (auto intro: entry_step_trans)
  qed
qed

lemma sdiv_mult_self: "0 \<le> c \<Longrightarrow> 5 * c sdiv 5 = (c :: int)"
  by (simp add: signed_divide_int_def abs_mult sgn_mult sgn_if)

section \<open>Properties\<close>

text \<open>
  C24. A complete beacon report of a station that has an entry at the node, about a known access
  point, is recorded: it becomes the first report of the entry, older reports about the same
  access point and reports past the configured age are gone, all others stay in order; the time
  of the last report is set, nothing else changes, and the state stays well formed. In
  particular reports about pairwise different access points stay so.
\<close>

theorem beacon_report_recorded:
  assumes "wf_state s" "entry s m (NLocal n) = Some a" "si_heap s a = Some si"
    and "get_usteer_node_from_bssid s b \<noteq> None"
    and "rep_bssid msg = Some bs" "rep_addr msg = Some ad" "rep_rcpi msg = Some rcpi"
      "rep_rsni msg = Some rsni" "rep_op_class msg = Some oc" "rep_channel msg = Some ch"
    and "ether_aton ad = Some m" "ether_aton bs = Some b"
  shows "\<exists>s' si'. usteer_handle_event_beacon_report ether_aton n msg s = Some s' \<and> wf_state s' \<and>
    s' = s\<lparr>si_heap := (si_heap s)(a \<mapsto> si')\<rparr> \<and>
    si' = si\<lparr>
      si_beacon_request := (si_beacon_request si)\<lparr>breq_lastReportTime := current_time s\<rparr>,
      si_beacon_reports :=
        \<lparr>br_address = a, br_bssid = b, br_rcpi = rcpi, br_rsni = rsni, br_op_class = oc,
         br_channel = ch, br_usteer_time = current_time s\<rparr> #
        filter (\<lambda>br. br_bssid br \<noteq> b \<and> current_time s - br_usteer_time br \<le>
            ucast (beacon_report_invalide_timeout (config s) * 1000)) (si_beacon_reports si)\<rparr> \<and>
    (distinct (map br_bssid (si_beacon_reports si)) \<longrightarrow> distinct (map br_bssid (si_beacon_reports si')))"
proof -
  let ?br = "\<lparr>br_address = a, br_bssid = b, br_rcpi = rcpi, br_rsni = rsni, br_op_class = oc,
         br_channel = ch, br_usteer_time = current_time s\<rparr>"
  have del: "\<not> usteer_beacon_report_delete s br b \<longleftrightarrow> br_bssid br \<noteq> b \<and> current_time s - br_usteer_time br \<le>
            ucast (beacon_report_invalide_timeout (config s) * 1000)" for br
    by (auto simp: usteer_beacon_report_delete_def Let_def)
  have "wf_state (s\<lparr>si_heap := (si_heap s)(a \<mapsto> report_entry s ?br si)\<rparr>)"
    using wf_state_heap_upd [OF assms(1,3) same_entry_report] by simp
  moreover have "usteer_handle_event_beacon_report ether_aton n msg s =
      Some (s\<lparr>si_heap := (si_heap s)(a \<mapsto> report_entry s ?br si)\<rparr>)"
    using handle_report_effect [OF assms(1,5-12), of n] assms(2-4) by simp
  ultimately show ?thesis
    by (auto simp: report_entry_def del distinct_map_filter)
qed

theorem beacon_report_recorded_witness:
  "\<exists>s'. usteer_handle_event_beacon_report (\<lambda>x. if x = ''c'' then Some client else Some (MAC 2 0 0 0 0 2))
      ''a'' \<lparr>rep_bssid = Some ''b'', rep_addr = Some ''c'', rep_op_class = Some 115, rep_channel = Some 36,
            rep_rcpi = Some 180, rep_rsni = Some 90\<rparr> network = Some s' \<and> wf_state s' \<and>
     map_option (map br_rcpi \<circ> si_beacon_reports) (si_heap s' 0) = Some [180]"
proof -
  let ?at = "\<lambda>x. if x = ''c'' then Some client else Some (MAC 2 0 0 0 0 2)"
  let ?msg = "\<lparr>rep_bssid = Some ''b'', rep_addr = Some ''c'', rep_op_class = Some 115,
    rep_channel = Some 36, rep_rcpi = Some 180, rep_rsni = Some 90\<rparr>"
  have "get_usteer_node_from_bssid network (MAC 2 0 0 0 0 2) \<noteq> None"
    by (simp add: get_usteer_node_from_bssid_def network_def ap_local_def ap_node_def)
  moreover have "?at ''c'' = Some client" "?at ''b'' = Some (MAC 2 0 0 0 0 2)" by simp_all
  moreover have "si_beacon_reports client_at_a = []" by (simp add: client_at_a_def calloc_sta_info_def)
  ultimately show ?thesis
    using beacon_report_recorded [OF network_wf network_entry(1) network_heap(1),
        of "MAC 2 0 0 0 0 2" ?msg "''b''" "''c''" 180 90 115 36 ?at] by fastforce
qed

text \<open>
  A report from a known client about a known access point in which a measurement is missing
  is not rejected: the handler reads the absent attribute (undefined behaviour).
\<close>

lemma beacon_report_missing_field:
  assumes "wf_state s" "entry s m (NLocal n) = Some a" "get_usteer_node_from_bssid s b \<noteq> None"
    and "rep_bssid msg = Some bs" "rep_addr msg = Some ad"
    and "ether_aton ad = Some m" "ether_aton bs = Some b"
    and "rep_rcpi msg = None \<or> rep_rsni msg = None \<or> rep_op_class msg = None \<or> rep_channel msg = None"
  shows "usteer_handle_event_beacon_report ether_aton n msg s = None"
proof -
  have core: "wf_core s" using assms(1) by (simp add: wf_state_def)
  from assms(2) obtain st where st: "get_sta s m = Some st" by (auto simp: entry_def split: option.splits)
  then have "get_sta s m \<noteq> None" by simp
  from get_present [OF core this assms(2)] st assms(3-) show ?thesis
    by (auto simp: usteer_handle_event_beacon_report_def usteer_sta_get_def
        split: Option.bind_splits)
qed

text \<open>
  The beacon request schedule visits the bands of the local nodes in turn: when the local
  nodes use pairwise different frequencies, the band after that of the node number \<open>i\<close> is the
  band of the node number \<open>i + 1\<close>, and after the last one it is the first again.
\<close>

lemma beacon_request_bands_cycle:
  assumes "distinct (local_freqs s)" "i < length (local_freqs s)"
  shows "usteer_beacon_request_next_band s (local_freqs s ! i) =
    Some (local_freqs s ! (Suc i mod length (local_freqs s)))"
proof -
  let ?fs = "local_freqs s"
  let ?f = "?fs ! i"
  have split: "?fs = take i ?fs @ ?f # drop (Suc i) ?fs" using assms(2) by (rule id_take_nth_drop)
  have "?f \<notin> set (take i ?fs)"
  proof
    assume "?f \<in> set (take i ?fs)"
    then obtain j where "j < i" "?fs ! j = ?f" by (auto simp: in_set_conv_nth)
    with assms show False by (simp add: nth_eq_iff_index_eq)
  qed
  from next_band_skip [OF this, of "drop (Suc i) ?fs"] split
  have scan: "next_band_scan ?f True ?fs = next_band_scan ?f False (drop (Suc i) ?fs)" by simp
  show ?thesis
  proof (cases "Suc i < length ?fs")
    case True
    then have "drop (Suc i) ?fs = ?fs ! Suc i # drop (Suc (Suc i)) ?fs" by (rule Cons_nth_drop_Suc [symmetric])
    moreover have "?fs ! Suc i \<noteq> ?f" using assms(1) True by (simp add: nth_eq_iff_index_eq)
    ultimately show ?thesis using scan True by (simp add: usteer_beacon_request_next_band_def)
  next
    case False
    with assms(2) have last: "Suc i = length ?fs" by simp
    then have none: "next_band_scan ?f True ?fs = None" using scan by simp
    have "?fs = ?fs ! 0 # tl ?fs" using last by (cases ?fs) simp_all
    then show ?thesis
      using none last unfolding usteer_beacon_request_next_band_def
      by (simp only: option.case) (metis list.case(2) mod_self)
  qed
qed

text \<open>
  The channel tables: the centre frequencies of the 2.4 GHz channels 1 to 13, of channel 14 and
  of every channel of the numbering that starts at 5 GHz give back the channel number, and the operating class is one of the known
  ones exactly for the channels 1-13, 36-48, 52-64 and 100-140; for the upper 5 GHz channels
  from 141 on it is 0.
\<close>

lemma channel_tables:
  "(\<forall>c \<in> {1..13}. get_channel_from_freq (2407 + 5 * c) = c \<and> get_op_class_from_channel c = 81) \<and>
   (\<forall>c \<in> {1..8000}. get_channel_from_freq (5000 + 5 * c) = c) \<and>
   get_channel_from_freq 2484 = 14 \<and>
   (\<forall>c. get_op_class_from_channel c \<noteq> 0 \<longleftrightarrow>
      c \<in> {1..13} \<union> {36..48} \<union> {52..64} \<union> {100..140})"
proof (intro conjI ballI allI)
  fix c :: int assume "c \<in> {1..13}"
  then show "get_channel_from_freq (2407 + 5 * c) = c" "get_op_class_from_channel c = 81"
    by (auto simp: get_channel_from_freq_def get_op_class_from_channel_def sdiv_mult_self)
next
  fix c :: int assume "c \<in> {1..8000}"
  then show "get_channel_from_freq (5000 + 5 * c) = c"
    by (auto simp: get_channel_from_freq_def sdiv_mult_self)
qed (auto simp: get_channel_from_freq_def get_op_class_from_channel_def)

text \<open>
  Checking the beacon request schedule of an entry at a local node is defined on every
  well-formed state: whether a request is due or not, only the entry itself changes and
  messages are sent; the connection state and the signal of the entry stay.
\<close>

lemma beacon_request_check_safe:
  assumes "wf_state s" "si_heap s a = Some si" "si_node si = NLocal n"
  shows "\<exists>s' si'. usteer_beacon_request_check fl a s = Some s' \<and> wf_state s' \<and> entry_step a s s' \<and>
    si_heap s' a = Some si' \<and> si_connected si' = si_connected si \<and> si_signal si' = si_signal si"
proof -
  have "wf_core s" using assms(1) by (simp add: wf_state_def)
  from request_check_step [OF this assms(2,3), of fl] show ?thesis
    using entry_step_wf(1) [OF _ assms(1)] by blast
qed

text \<open>
  The time to live that the hearing map shows never underflows for a report that the cleanup
  at the same time keeps: it is the configured age in seconds less the report's age, a number
  between 0 and the configured age (for configured ages whose number of milliseconds fits into
  32 bits).
\<close>

lemma hearing_map_ttl_bounds:
  assumes "unat (beacon_report_invalide_timeout (config s)) * 1000 < 2 ^ 32"
    and "usteer_beacon_report_cleanup a (Some b) s = Some s'" "si_heap s' a = Some si"
    and "br \<in> set (si_beacon_reports si)"
  shows "\<exists>fields ttl. hearing_map_entry ether_ntoa s' br =
      (ether_ntoa (br_bssid br), Add_table (fields @ [(''time-to-live'', Add_u64 ttl)])) \<and>
    unat ttl = unat (beacon_report_invalide_timeout (config s)) -
      unat (current_time s - br_usteer_time br) div 1000 \<and>
    unat (current_time s - br_usteer_time br) div 1000 \<le> unat (beacon_report_invalide_timeout (config s))"
proof -
  let ?T = "beacon_report_invalide_timeout (config s)"
  let ?d = "current_time s - br_usteer_time br"
  from assms(2-4) have time: "current_time s' = current_time s" "config s' = config s"
    and kept: "\<not> usteer_beacon_report_delete s br b"
    by (auto simp: cleanup_Some)
  have "unat (?T * 1000) = unat ?T * 1000"
    using assms(1) by (subst unat_mult_lem [THEN iffD1]) simp_all
  then have "unat ?d \<le> unat ?T * 1000"
    using kept by (auto simp: usteer_beacon_report_delete_def Let_def not_less word_le_nat_alt
        split: if_splits)
  then have le: "unat ?d div 1000 \<le> unat ?T"
    by (metis div_le_mono nonzero_mult_div_cancel_right zero_neq_numeral)
  have un: "unat (?d div 1000) = unat ?d div 1000" by (simp add: unat_div)
  from le un have "unat (ucast ?T - ?d div 1000 :: u64) = unat ?T - unat ?d div 1000"
    by (subst unat_sub) (simp_all add: word_le_nat_alt)
  moreover obtain nodes where "hearing_map_entry ether_ntoa s' br = (ether_ntoa (br_bssid br),
      Add_table ((nodes @ [(''rcpi'', Add_u16 (br_rcpi br)), (''rsni'', Add_u16 (br_rsni br)),
        (''op_class'', Add_u16 (br_op_class br)), (''channel'', Add_u16 (br_channel br))]) @
        [(''time-to-live'', Add_u64 (ucast ?T - ?d div 1000))]))"
    by (simp add: hearing_map_entry_def Let_def time)
  ultimately show ?thesis using le by blast
qed

end
