(* ===== verification/Ubus_Actions.thy ===== *)
theory Ubus_Actions
  imports Hearing_Map
begin

text \<open>
  The calls usteer makes on hostapd (the end of ubus.c): kicking a client, asking it to scan,
  and announcing a disassociation with a list of neighbours.

  \<open>nr_fields\<close> is \<^verbatim>\<open>blobmsg_parse_array\<close> on a neighbour report with a policy of three strings:
  the elements of the array that are present and are strings.
\<close>

section \<open>Model\<close>

type_synonym nr_parser = "blob \<Rightarrow> string option \<times> string option \<times> string option"

text \<open>\<^verbatim>\<open>container_of(si->node, struct usteer_local_node, node)\<close>: only valid for a local node.\<close>

fun local_of :: "usteer_state \<Rightarrow> node_ref \<Rightarrow> usteer_local_node option" where
  "local_of s (NLocal n) = get_local s n"
| "local_of s (NRemote a) = None"

definition usteer_add_nr_entry ::
    "nr_parser \<Rightarrow> usteer_node \<Rightarrow> usteer_node \<Rightarrow> (string \<times> blobmsg) list" where
  "usteer_add_nr_entry nr_fields nd node =
     (case node_rrm_nr node of
        None \<Rightarrow> []
      | Some nr \<Rightarrow>
          if node_ssid nd \<noteq> node_ssid node then []
          else (case nr_fields nr of
                  (_, _, None) \<Rightarrow> []
                | (_, _, Some x) \<Rightarrow> [('''', Add_string x)]))"

text \<open>
  The array of at most three reports: filled in list order, then the slot with the lowest
  \<^verbatim>\<open>rcpi\<close> (the first of them) is overwritten when the condition of the code holds.
\<close>

definition lowest_slot :: "beacon_report list \<Rightarrow> nat \<times> u16" where
  "lowest_slot fl =
     foldl (\<lambda>(index, lowest) j. if br_rcpi (fl ! j) < lowest then (j, br_rcpi (fl ! j)) else (index, lowest))
       (0, br_rcpi (fl ! 0)) [1, 2]"

definition filter_step :: "usteer_state \<Rightarrow> beacon_report list \<Rightarrow> beacon_report \<Rightarrow> beacon_report list" where
  "filter_step s fl br =
     (if get_usteer_node_from_bssid s (br_bssid br) = None then fl
      else if length fl < 3 then fl @ [br]
      else (case lowest_slot fl of (index, lowest) \<Rightarrow>
              if br_rsni br > lowest then fl[index := br] else fl))"

definition filtered_local :: "usteer_state \<Rightarrow> beacon_report list \<Rightarrow> beacon_report list" where
  "filtered_local s reports = foldl (filter_step s) [] reports"

definition disassoc_neighbors :: "nr_parser \<Rightarrow> usteer_state \<Rightarrow> sta_info \<Rightarrow> usteer_node \<Rightarrow> (string \<times> blobmsg) list" where
  "disassoc_neighbors nr_fields s si nd =
     (let fl = filtered_local s (si_beacon_reports si)
      in concat (map (\<lambda>br. case Option.bind (get_usteer_node_from_bssid s (br_bssid br)) (get_node s) of
                             None \<Rightarrow> []
                           | Some node \<Rightarrow> usteer_add_nr_entry nr_fields nd node) fl) @
         (if fl = [] then
            concat (map (\<lambda>(_, ln). usteer_add_nr_entry nr_fields nd (ln_node ln)) (local_nodes s)) @
            concat (map (\<lambda>(_, rn). usteer_add_nr_entry nr_fields nd (rn_node rn)) (remote_nodes s))
          else []))"

definition usteer_ubus_notify_client_disassoc ::
    "nr_parser \<Rightarrow> nat \<Rightarrow> usteer_state \<Rightarrow> usteer_state option" where
  "usteer_ubus_notify_client_disassoc nr_fields a s = do {
     si \<leftarrow> si_heap s a;
     ln \<leftarrow> local_of s (si_node si);
     Some (emit (Ubus_invoke (ln_obj_id ln) ''wnm_disassoc_imminent''
       [(''addr'', Add_string (mac_addr_fmt (si_sta si))),
        (''duration'', Add_u32 (roam_kick_delay (config s))),
        (''neighbors'', Add_array (disassoc_neighbors nr_fields s si (ln_node ln)))]) s)
   }"

definition usteer_ubus_trigger_client_scan :: "nat \<Rightarrow> usteer_state \<Rightarrow> usteer_state option" where
  "usteer_ubus_trigger_client_scan a s = do {
     si \<leftarrow> si_heap s a;
     ln \<leftarrow> local_of s (si_node si);
     s \<leftarrow> upd_si a (\<lambda>si. si\<lparr>si_scan_band := \<not> si_scan_band si\<rparr>) s;
     si \<leftarrow> si_heap s a;
     Some (emit (Ubus_invoke (ln_obj_id ln) ''rrm_beacon_req''
       [(''addr'', Add_string (mac_addr_fmt (si_sta si))),
        (''mode'', Add_u32 1),
        (''duration'', Add_u32 65535),
        (''channel'', Add_u32 255),
        (''op_class'', Add_u32 (if si_scan_band si then 1 else 12))]) s)
   }"

definition kick_message :: "usteer_state \<Rightarrow> usteer_local_node \<Rightarrow> mac \<Rightarrow> action" where
  "kick_message s l m =
     Ubus_invoke (ln_obj_id l) ''del_client''
       [(''addr'', Add_string (mac_addr_fmt m)),
        (''reason'', Add_u32 (load_kick_reason_code (config s))),
        (''deauth'', Add_u8 1)]"

definition usteer_ubus_kick_client :: "nat \<Rightarrow> usteer_state \<Rightarrow> usteer_state option" where
  "usteer_ubus_kick_client a s = do {
     si \<leftarrow> si_heap s a;
     ln \<leftarrow> local_of s (si_node si);
     let s = emit (kick_message s ln (si_sta si)) s;
     upd_si a (\<lambda>si. si\<lparr>si_connected := 0, si_roam_kick := current_time s\<rparr>) s
   }"

section \<open>Lemmas\<close>

lemma local_of_entry:
  assumes "wf_core s" "si_heap s a = Some si" "si_node si = NLocal n"
  obtains l where "local_of s (si_node si) = Some l" "get_local s n = Some l"
  using wf_core_entry [OF assms(1,2)] assms(3)
  by (metis get_node.simps(1) local_of.simps(1) option.map_disc_iff option.collapse option.distinct(1))

lemma notify_step:
  assumes "wf_core s" "si_heap s a = Some si" "si_node si = NLocal n"
  shows "\<exists>s' i args. usteer_ubus_notify_client_disassoc nrp a s = Some s' \<and> entry_step a s s' \<and>
    si_heap s' = si_heap s \<and> out s' = out s @ [Ubus_invoke i ''wnm_disassoc_imminent'' args]"
proof -
  from local_of_entry [OF assms] obtain l where "local_of s (si_node si) = Some l" by metis
  then show ?thesis
    using assms(2) entry_step_emit [OF assms(2)]
    by (auto simp: usteer_ubus_notify_client_disassoc_def)
qed

lemma trigger_scan_step:
  assumes "wf_core s" "si_heap s a = Some si" "si_node si = NLocal n"
  shows "\<exists>s' i args. usteer_ubus_trigger_client_scan a s = Some s' \<and> entry_step a s s' \<and>
    si_heap s' = (si_heap s)(a \<mapsto> si\<lparr>si_scan_band := \<not> si_scan_band si\<rparr>) \<and>
    out s' = out s @ [Ubus_invoke i ''rrm_beacon_req'' args]"
proof -
  from local_of_entry [OF assms] obtain l where l: "local_of s (si_node si) = Some l" by metis
  let ?f = "\<lambda>si. si\<lparr>si_scan_band := \<not> si_scan_band si\<rparr>"
  obtain s1 where u: "upd_si a ?f s = Some s1" using assms(2) by (simp add: upd_si_def)
  with entry_step_upd_si [OF assms(2), of ?f] have e: "entry_step a s s1" "si_heap s1 a = Some (?f si)"
    by (auto simp: same_entry_def)
  have h: "si_heap s1 = (si_heap s)(a \<mapsto> ?f si)" "out s1 = out s"
    using u assms(2) by (auto simp: upd_si_Some)
  show ?thesis
    using l u e h assms(2) entry_step_trans [OF e(1) entry_step_emit [OF e(2)]]
    by (auto simp: usteer_ubus_trigger_client_scan_def)
qed

lemma kick_step:
  assumes "wf_core s" "si_heap s a = Some si" "si_node si = NLocal n"
  shows "\<exists>s' l. usteer_ubus_kick_client a s = Some s' \<and> entry_step a s s' \<and>
    get_local s n = Some l \<and> out s' = out s @ [kick_message s l (si_sta si)] \<and>
    si_heap s' = (si_heap s)(a \<mapsto> si\<lparr>si_connected := 0, si_roam_kick := current_time s\<rparr>)"
proof -
  from local_of_entry [OF assms] obtain l where
    l: "local_of s (si_node si) = Some l" "get_local s n = Some l" by metis
  let ?t = "emit (kick_message s l (si_sta si)) s"
  let ?f = "\<lambda>si. si\<lparr>si_connected := 0, si_roam_kick := current_time s\<rparr>"
  have si: "si_heap ?t a = Some si" using assms(2) by simp
  obtain s1 where u: "upd_si a ?f ?t = Some s1" using si by (simp add: upd_si_def)
  with entry_step_upd_si [OF si, of ?f] have "entry_step a ?t s1" by (auto simp: same_entry_def)
  with entry_step_emit [OF assms(2)] have "entry_step a s s1" by (rule entry_step_trans)
  with l u assms(2) show ?thesis
    by (auto simp: usteer_ubus_kick_client_def upd_si_Some Let_def)
qed

lemma filter_step_length: "length fl \<le> 3 \<Longrightarrow> length (filter_step s fl br) \<le> 3"
  by (auto simp: filter_step_def split: prod.splits)

lemma filtered_local_length: "length (filtered_local s reports) \<le> 3"
proof -
  have "length fl \<le> 3 \<Longrightarrow> length (foldl (filter_step s) fl reports) \<le> 3" for fl
    by (induction reports arbitrary: fl) (auto simp: filter_step_length)
  then show ?thesis by (simp add: filtered_local_def)
qed

end
