(* ===== verification/Policy.thy ===== *)
theory Policy
  imports Ubus_Actions
begin

text \<open>
  The first half of policy.c: which node is a better candidate for a client and whether a
  request is answered. The functions on nodes, entries and
  reports are pure; \<open>find_better_candidate\<close> changes the state, because
  \<^verbatim>\<open>usteer_sta_info_get\<close> creates the entry of a node known from a beacon report only.
  Logging is left out.
\<close>

section \<open>Model\<close>

subsection \<open>Comparing nodes and signals\<close>

definition below_assoc_threshold :: "usteer_config \<Rightarrow> usteer_node \<Rightarrow> usteer_node \<Rightarrow> bool" where
  "below_assoc_threshold cfg node_cur node_new =
     (let n_assoc_cur = node_n_assoc node_cur;
          n_assoc_new = node_n_assoc node_new;
          ref_5g = sint (node_freq node_cur) > 4000;
          node_5g = sint (node_freq node_new) > 4000;
          n_assoc_new' = (if ref_5g \<and> \<not> node_5g then n_assoc_new + band_steering_threshold cfg
                          else n_assoc_new);
          n_assoc_cur' = (if \<not> (ref_5g \<and> \<not> node_5g) \<and> \<not> ref_5g \<and> node_5g
                          then n_assoc_cur + band_steering_threshold cfg else n_assoc_cur);
          n_assoc_new'' = n_assoc_new' + load_balancing_threshold cfg
      in sint n_assoc_new'' \<le> sint n_assoc_cur')"

definition better_signal_strength :: "usteer_config \<Rightarrow> sta_info \<Rightarrow> sta_info \<Rightarrow> bool" where
  "better_signal_strength cfg si_cur si_new =
     (let is_better = sint (si_signal si_new - si_signal si_cur) > sint (signal_diff_threshold cfg)
      in if signal_diff_threshold cfg = 0 then False else is_better)"

definition better_signal_strength_hearing_map ::
    "usteer_config \<Rightarrow> beacon_report \<Rightarrow> beacon_report \<Rightarrow> bool" where
  "better_signal_strength_hearing_map cfg br_cur br_new =
     (let rcpi_threshold = (ucast ((signal_diff_threshold cfg div 100) * 255) :: u16);
          is_better = uint (br_rcpi br_new) - uint (br_rcpi br_cur) > uint rcpi_threshold
      in if signal_diff_threshold cfg = 0 then False else is_better)"

text \<open>The comparisons of an \<^verbatim>\<open>int\<close> with a \<^verbatim>\<open>uint32_t\<close> are unsigned.\<close>

definition below_load_threshold :: "usteer_config \<Rightarrow> usteer_node \<Rightarrow> bool" where
  "below_load_threshold cfg node \<longleftrightarrow>
     node_n_assoc node \<ge> load_kick_min_clients cfg \<and> node_load node > load_kick_threshold cfg"

definition has_better_load :: "usteer_config \<Rightarrow> usteer_node \<Rightarrow> usteer_node \<Rightarrow> bool" where
  "has_better_load cfg node_cur node_new \<longleftrightarrow>
     \<not> below_load_threshold cfg node_cur \<and> below_load_threshold cfg node_new"

definition below_max_assoc :: "usteer_node \<Rightarrow> bool" where
  "below_max_assoc node \<longleftrightarrow>
     node_max_assoc node = 0 \<or> sint (node_n_assoc node) < sint (node_max_assoc node)"

definition is_better_candidate :: "usteer_state \<Rightarrow> sta_info \<Rightarrow> sta_info \<Rightarrow> bool option" where
  "is_better_candidate s si_cur si_new = do {
     nd_new \<leftarrow> get_node s (si_node si_new);
     (if \<not> below_max_assoc nd_new then Some False
      else do {
        nd_cur \<leftarrow> get_node s (si_node si_cur);
        Some (below_assoc_threshold (config s) nd_cur nd_new \<or>
              better_signal_strength (config s) si_cur si_new \<or>
              has_better_load (config s) nd_cur nd_new)
      })
   }"

definition node_of_report :: "usteer_state \<Rightarrow> beacon_report \<Rightarrow> usteer_node option" where
  "node_of_report s br = Option.bind (get_usteer_node_from_bssid s (br_bssid br)) (get_node s)"

definition is_better_candidate_hearing_map ::
    "usteer_state \<Rightarrow> beacon_report \<Rightarrow> beacon_report \<Rightarrow> bool option" where
  "is_better_candidate_hearing_map s br_cur br_new = do {
     nd_new \<leftarrow> node_of_report s br_new;
     (if \<not> below_max_assoc nd_new then Some False
      else do {
        nd_cur \<leftarrow> node_of_report s br_cur;
        Some (below_assoc_threshold (config s) nd_cur nd_new \<or>
              better_signal_strength_hearing_map (config s) br_cur br_new \<or>
              has_better_load (config s) nd_cur nd_new)
      })
   }"

subsection \<open>Finding a better candidate\<close>

text \<open>\<^verbatim>\<open>A && !B\<close>: the second test is made only when the first holds.\<close>

definition better_only :: "bool option \<Rightarrow> bool option \<Rightarrow> bool option" where
  "better_only p q = (case p of None \<Rightarrow> None | Some False \<Rightarrow> Some False | Some True \<Rightarrow> map_option Not q)"

fun hearing_map_scan ::
    "usteer_state \<Rightarrow> node_ref \<Rightarrow> usteer_node \<Rightarrow> beacon_report \<Rightarrow> beacon_report list \<Rightarrow>
     (beacon_report \<times> node_ref) option option" where
  "hearing_map_scan s r_ref nd_ref br_cur [] = Some None"
| "hearing_map_scan s r_ref nd_ref br_cur (br # brs) =
     (case get_usteer_node_from_bssid s (br_bssid br) of
        None \<Rightarrow> hearing_map_scan s r_ref nd_ref br_cur brs
      | Some r \<Rightarrow>
          if r = r_ref then hearing_map_scan s r_ref nd_ref br_cur brs
          else
            (case get_node s r of
               None \<Rightarrow> None
             | Some node \<Rightarrow>
                 if node_ssid node \<noteq> node_ssid nd_ref then hearing_map_scan s r_ref nd_ref br_cur brs
                 else
                   (case better_only (is_better_candidate_hearing_map s br_cur br)
                                     (is_better_candidate_hearing_map s br br_cur) of
                      None \<Rightarrow> None
                    | Some True \<Rightarrow> Some (Some (br, r))
                    | Some False \<Rightarrow> hearing_map_scan s r_ref nd_ref br_cur brs)))"

fun entry_scan ::
    "usteer_state \<Rightarrow> nat \<Rightarrow> sta_info \<Rightarrow> usteer_node \<Rightarrow> nat list \<Rightarrow> nat option option" where
  "entry_scan s a_ref si_ref nd_ref [] = Some None"
| "entry_scan s a_ref si_ref nd_ref (b # bs) =
     (if b = a_ref then entry_scan s a_ref si_ref nd_ref bs
      else
        (case si_heap s b of
           None \<Rightarrow> None
         | Some si \<Rightarrow>
             if current_time s - si_seen si > ucast (seen_policy_timeout (config s))
             then entry_scan s a_ref si_ref nd_ref bs
             else
               (case get_node s (si_node si) of
                  None \<Rightarrow> None
                | Some node \<Rightarrow>
                    if node_ssid node \<noteq> node_ssid nd_ref then entry_scan s a_ref si_ref nd_ref bs
                    else
                      (case better_only (is_better_candidate s si_ref si) (is_better_candidate s si si_ref) of
                         None \<Rightarrow> None
                       | Some True \<Rightarrow> Some (Some b)
                       | Some False \<Rightarrow> entry_scan s a_ref si_ref nd_ref bs))))"

definition find_better_candidate :: "nat \<Rightarrow> usteer_state \<Rightarrow> (nat option \<times> usteer_state) option" where
  "find_better_candidate a s = do {
     si_ref \<leftarrow> si_heap s a;
     sta \<leftarrow> get_sta s (si_sta si_ref);
     nd_ref \<leftarrow> get_node s (si_node si_ref);
     let br_cur = List.find (\<lambda>br. get_usteer_node_from_bssid s (br_bssid br) = Some (si_node si_ref))
                    (si_beacon_reports si_ref);
     heard \<leftarrow> (case br_cur of
                None \<Rightarrow> Some None
              | Some br_cur \<Rightarrow>
                  hearing_map_scan s (si_node si_ref) nd_ref br_cur (si_beacon_reports si_ref));
     (case heard of
        Some (br, r) \<Rightarrow> do {
          si_br \<leftarrow> si_heap s (br_address br);
          (b, _, s) \<leftarrow> usteer_sta_info_get (si_sta si_br) r True s;
          Some (b, s)
        }
      | None \<Rightarrow> do {
          b \<leftarrow> entry_scan s a si_ref nd_ref (st_nodes sta);
          Some (b, s)
        })
   }"

definition snr_to_signal :: "usteer_node \<Rightarrow> s32 \<Rightarrow> s32" where
  "snr_to_signal node snr =
     (if sint snr < 0 then snr
      else (if node_noise node \<noteq> 0 then node_noise node else - 95) + snr)"

definition get_stats :: "sta_info \<Rightarrow> usteer_event_type \<Rightarrow> sta_info_stats option" where
  "get_stats si type =
     (if event_index type < length (si_stats si) then Some (si_stats si ! event_index type) else None)"

definition usteer_check_request ::
    "nat \<Rightarrow> usteer_event_type \<Rightarrow> usteer_state \<Rightarrow> (bool \<times> usteer_state) option" where
  "usteer_check_request a type s =
     (if type = EVENT_TYPE_ASSOC then Some (True, s)
      else do {
        si \<leftarrow> si_heap s a;
        stats \<leftarrow> get_stats si type;
        (if blocked_cur stats \<ge> max_retry_band (config s) then Some (True, s)
         else do {
           nd \<leftarrow> get_node s (si_node si);
           let min_signal = snr_to_signal nd (min_connect_snr (config s));
           (if sint (si_signal si) < sint min_signal then Some (False, s)
            else if current_time s - si_created si < ucast (initial_connect_delay (config s))
            then Some (False, s)
            else do {
              (si_new, s) \<leftarrow> find_better_candidate a s;
              Some (si_new = None, s)
            })
         })
      })"

section \<open>Lemmas\<close>

subsection \<open>Candidates\<close>

lemma is_better_candidate_eq:
  assumes "get_node s (si_node x) = Some nd_cur" "get_node s (si_node y) = Some nd_new"
  shows "is_better_candidate s x y = Some (below_max_assoc nd_new \<and>
    (below_assoc_threshold (config s) nd_cur nd_new \<or> better_signal_strength (config s) x y \<or>
     has_better_load (config s) nd_cur nd_new))"
  using assms by (simp add: is_better_candidate_def)

lemma is_better_hearing_eq:
  assumes "node_of_report s x = Some nd_cur" "node_of_report s y = Some nd_new"
  shows "is_better_candidate_hearing_map s x y = Some (below_max_assoc nd_new \<and>
    (below_assoc_threshold (config s) nd_cur nd_new \<or> better_signal_strength_hearing_map (config s) x y \<or>
     has_better_load (config s) nd_cur nd_new))"
  using assms by (simp add: is_better_candidate_hearing_map_def)

lemma better_only_Some: "better_only (Some p) (Some q) = Some (p \<and> \<not> q)"
  by (cases p) (simp_all add: better_only_def)

text \<open>A report is usable when its BSSID is that of a known node.\<close>

lemma node_of_report_live:
  assumes "wf_core s" "get_usteer_node_from_bssid s (br_bssid br) = Some r"
  obtains nd where "get_node s r = Some nd" "node_of_report s br = Some nd"
  using node_from_bssid_live [of s "br_bssid br" r] assms
  by (auto simp: wf_core_def node_of_report_def)

definition heard_better ::
    "usteer_state \<Rightarrow> node_ref \<Rightarrow> usteer_node \<Rightarrow> beacon_report \<Rightarrow> beacon_report \<Rightarrow> bool" where
  "heard_better s r_ref nd_ref br_cur br \<longleftrightarrow>
     (\<exists>r nd. get_usteer_node_from_bssid s (br_bssid br) = Some r \<and> r \<noteq> r_ref \<and>
        get_node s r = Some nd \<and> node_ssid nd = node_ssid nd_ref \<and> below_max_assoc nd \<and>
        is_better_candidate_hearing_map s br_cur br = Some True \<and>
        is_better_candidate_hearing_map s br br_cur = Some False)"

definition known_better :: "usteer_state \<Rightarrow> nat \<Rightarrow> sta_info \<Rightarrow> usteer_node \<Rightarrow> nat \<Rightarrow> bool" where
  "known_better s a si_ref nd_ref b \<longleftrightarrow> b \<noteq> a \<and>
     (\<exists>si nd. si_heap s b = Some si \<and> get_node s (si_node si) = Some nd \<and>
        current_time s - si_seen si \<le> ucast (seen_policy_timeout (config s)) \<and>
        node_ssid nd = node_ssid nd_ref \<and> below_max_assoc nd \<and>
        is_better_candidate s si_ref si = Some True \<and> is_better_candidate s si si_ref = Some False)"

text \<open>Both loops find the first element that is better and not also worse.\<close>

lemma hearing_map_scan_find:
  assumes wf: "wf_core s" and cur: "node_of_report s br_cur = Some nd_ref"
  shows "hearing_map_scan s r_ref nd_ref br_cur brs =
    Some (map_option (\<lambda>br. (br, the (get_usteer_node_from_bssid s (br_bssid br))))
      (List.find (heard_better s r_ref nd_ref br_cur) brs))"
proof (induction brs)
  case (Cons br brs)
  show ?case
  proof (cases "get_usteer_node_from_bssid s (br_bssid br)")
    case None
    with Cons show ?thesis by (simp add: heard_better_def)
  next
    case (Some r)
    with wf obtain nd where nd: "get_node s r = Some nd" "node_of_report s br = Some nd"
      by (rule node_of_report_live)
    obtain p q where p: "is_better_candidate_hearing_map s br_cur br = Some p"
        "p \<Longrightarrow> below_max_assoc nd"
      and q: "is_better_candidate_hearing_map s br br_cur = Some q"
      using is_better_hearing_eq [OF nd(2) cur] is_better_hearing_eq [OF cur nd(2)] by blast
    have hb: "heard_better s r_ref nd_ref br_cur br \<longleftrightarrow>
        r \<noteq> r_ref \<and> node_ssid nd = node_ssid nd_ref \<and> p \<and> \<not> q"
      using Some nd p q by (auto simp: heard_better_def)
    show ?thesis
      by (cases p; cases q) (simp_all add: Cons Some nd p q hb better_only_Some)
  qed
qed simp

lemma entry_scan_find:
  assumes wf: "wf_core s" and ref: "get_node s (si_node si_ref) = Some nd_ref"
    and live: "\<forall>b \<in> set bs. si_heap s b \<noteq> None"
  shows "entry_scan s a si_ref nd_ref bs = Some (List.find (known_better s a si_ref nd_ref) bs)"
  using live
proof (induction bs)
  case (Cons b bs)
  then obtain si where si: "si_heap s b = Some si" by auto
  from wf_core_entry [OF wf si] obtain nd where nd: "get_node s (si_node si) = Some nd" by metis
  obtain p q where p: "is_better_candidate s si_ref si = Some p" "p \<Longrightarrow> below_max_assoc nd"
    and q: "is_better_candidate s si si_ref = Some q"
    using is_better_candidate_eq [OF nd ref] is_better_candidate_eq [OF ref nd] by blast
  have kb: "known_better s a si_ref nd_ref b \<longleftrightarrow> b \<noteq> a \<and>
      \<not> current_time s - si_seen si > ucast (seen_policy_timeout (config s)) \<and>
      node_ssid nd = node_ssid nd_ref \<and> p \<and> \<not> q"
    using si nd p q by (auto simp: known_better_def not_less)
  have IH: "entry_scan s a si_ref nd_ref bs = Some (List.find (known_better s a si_ref nd_ref) bs)"
    using Cons by simp
  show ?case by (cases p; cases q) (simp_all add: IH si nd p q kb better_only_Some)
qed simp

text \<open>What creating an entry changes of the nodes: only the list of entries.\<close>

definition local_view :: "usteer_state \<Rightarrow> string \<Rightarrow> usteer_local_node option" where
  "local_view s n = map_option (\<lambda>l. l\<lparr>ln_node := (ln_node l)\<lparr>node_sta_info := []\<rparr>\<rparr>) (get_local s n)"

definition plain_node :: "usteer_state \<Rightarrow> node_ref \<Rightarrow> usteer_node option" where
  "plain_node s r = map_option (\<lambda>nd. nd\<lparr>node_sta_info := []\<rparr>) (get_node s r)"

lemma get_local_upd_node:
  "get_local (upd_node r f s) n =
     (if r = NLocal n then map_option (\<lambda>l. l\<lparr>ln_node := f (ln_node l)\<rparr>) (get_local s n) else get_local s n)"
  by (cases r) (auto simp: get_local_def)

lemma info_get_state:
  assumes "usteer_sta_info_get m r c s = Some (b, cr, s')"
  shows "s' = s \<or> (\<exists>a h i. s' = upd_node r (\<lambda>nd. nd\<lparr>node_sta_info := a # node_sta_info nd\<rparr>)
    (upd_sta m (\<lambda>st. st\<lparr>st_nodes := a # st_nodes st\<rparr>) (s\<lparr>si_heap := h, si_next := i\<rparr>)))"
  using assms
  by (auto simp: usteer_sta_info_get_def bind_eq_Some_conv Let_def split: option.splits if_splits)

lemma get_local_frame [simp]:
  "get_local (upd_sta m f s) n = get_local s n"
  "get_local (s\<lparr>si_heap := h\<rparr>) n = get_local s n"
  "get_local (s\<lparr>si_next := i\<rparr>) n = get_local s n"
  "get_local (s\<lparr>current_time := t\<rparr>) n = get_local s n"
  "get_local (emit x s) n = get_local s n"
  by (simp_all add: get_local_def)

lemma info_get_views:
  assumes "usteer_sta_info_get m r c s = Some (b, cr, s')"
  shows "local_view s' = local_view s" "plain_node s' = plain_node s"
    "r' \<noteq> r \<Longrightarrow> node_view s' r' = node_view s r'"
  using info_get_state [OF assms]
  by (auto simp: local_view_def plain_node_def node_view_def fun_eq_iff get_local_upd_node
      option.map_comp comp_def)

text \<open>
  What \<open>find_better_candidate\<close> may do to the state: at most create an entry, at another node.
\<close>

definition only_grows :: "node_ref \<Rightarrow> usteer_state \<Rightarrow> usteer_state \<Rightarrow> bool" where
  "only_grows r s s' \<longleftrightarrow> frame_eq s s' \<and> tq s' = tq s \<and> local_view s' = local_view s \<and>
     plain_node s' = plain_node s \<and> node_view s' r = node_view s r \<and>
     (\<forall>b. si_heap s b \<noteq> None \<longrightarrow> si_heap s' b = si_heap s b)"

lemma only_grows_refl [simp]: "only_grows r s s"
  by (simp add: only_grows_def)

lemma only_grows_trans: "only_grows r s t \<Longrightarrow> only_grows r t u \<Longrightarrow> only_grows r s u"
  by (auto simp: only_grows_def intro: frame_eq_trans)

text \<open>A candidate of an entry, in the state after the search.\<close>

definition candidate_of :: "usteer_state \<Rightarrow> nat \<Rightarrow> sta_info \<Rightarrow> nat \<Rightarrow> bool" where
  "candidate_of s a si b \<longleftrightarrow> b \<noteq> a \<and>
     (\<exists>si_b nd nd_b. si_heap s b = Some si_b \<and> si_sta si_b = si_sta si \<and> si_node si_b \<noteq> si_node si \<and>
        get_node s (si_node si) = Some nd \<and> get_node s (si_node si_b) = Some nd_b \<and>
        node_ssid nd_b = node_ssid nd \<and> below_max_assoc nd_b)"

lemma plain_node_ssid:
  assumes "plain_node s' = plain_node s" "get_node s r = Some nd"
  obtains nd' where "get_node s' r = Some nd'" "node_ssid nd' = node_ssid nd"
    "below_max_assoc nd' = below_max_assoc nd" "node_freq nd' = node_freq nd" "node_noise nd' = node_noise nd"
proof -
  from fun_cong [OF assms(1), of r] assms(2) obtain nd' where
    nd': "get_node s' r = Some nd'" "nd'\<lparr>node_sta_info := []\<rparr> = nd\<lparr>node_sta_info := []\<rparr>"
    by (auto simp: plain_node_def)
  from nd'(2) have "node_ssid nd' = node_ssid nd" "node_n_assoc nd' = node_n_assoc nd"
    "node_max_assoc nd' = node_max_assoc nd" "node_freq nd' = node_freq nd" "node_noise nd' = node_noise nd"
    by (cases nd; cases nd'; simp)+
  with nd'(1) that show ?thesis by (simp add: below_max_assoc_def)
qed

text \<open>The search is defined on every entry; it is a search for the first better report, then
  for the first better entry.\<close>

lemma own_report_node:
  assumes "wf_core s" "get_node s r = Some nd"
    and "List.find (\<lambda>br. get_usteer_node_from_bssid s (br_bssid br) = Some r) brs = Some br"
  shows "node_of_report s br = Some nd"
  using assms by (auto simp: find_Some_iff node_of_report_def)

lemma find_entries:
  assumes wf: "wf_state s" and si: "si_heap s a = Some si"
    and st: "get_sta s (si_sta si) = Some st" and nd: "get_node s (si_node si) = Some nd"
  defines "br_cur \<equiv> List.find (\<lambda>br. get_usteer_node_from_bssid s (br_bssid br) = Some (si_node si))
                    (si_beacon_reports si)"
  defines "heard \<equiv> Option.bind br_cur
      (\<lambda>br. List.find (heard_better s (si_node si) nd br) (si_beacon_reports si))"
  shows "find_better_candidate a s =
    (case heard of
       None \<Rightarrow> Some (List.find (known_better s a si nd) (st_nodes st), s)
     | Some br \<Rightarrow> map_option (\<lambda>(b, _, s'). (b, s'))
         (usteer_sta_info_get (si_sta si) (the (get_usteer_node_from_bssid s (br_bssid br))) True s))"
proof -
  have core: "wf_core s" using wf by (simp add: wf_state_def)
  have live: "\<forall>b \<in> set (st_nodes st). si_heap s b \<noteq> None"
    using wf_core_sta(2) [OF core st] by auto
  note es = entry_scan_find [OF core nd live, of a]
  show ?thesis
  proof (cases heard)
    case None
    then have "(case br_cur of None \<Rightarrow> Some None | Some br \<Rightarrow>
        hearing_map_scan s (si_node si) nd br (si_beacon_reports si)) = Some None"
      using own_report_node [OF core nd] hearing_map_scan_find [OF core]
      by (auto simp: heard_def br_cur_def split: option.splits)
    with None es si st nd show ?thesis
      by (simp add: find_better_candidate_def br_cur_def)
  next
    case (Some br)
    then obtain bc where bc: "br_cur = Some bc"
      and f: "List.find (heard_better s (si_node si) nd bc) (si_beacon_reports si) = Some br"
      by (auto simp: heard_def bind_eq_Some_conv)
    from f have "br \<in> set (si_beacon_reports si)" by (auto simp: find_Some_iff)
    with core si have own: "br_address br = a" by (auto simp: wf_core_def si_ok_def)
    have "hearing_map_scan s (si_node si) nd bc (si_beacon_reports si) =
        Some (Some (br, the (get_usteer_node_from_bssid s (br_bssid br))))"
      using hearing_map_scan_find [OF core own_report_node [OF core nd bc [unfolded br_cur_def]]] f by simp
    with Some bc own si st nd show ?thesis
      by (simp add: find_better_candidate_def br_cur_def [symmetric] Option.map_conv_bind_option
          comp_def case_prod_unfold)
  qed
qed

lemma candidate_total:
  assumes wf: "wf_state s" and si: "si_heap s a = Some si"
  shows "\<exists>b s'. find_better_candidate a s = Some (b, s') \<and> wf_state s' \<and>
    only_grows (si_node si) s s' \<and>
    (case b of None \<Rightarrow> s' = s | Some b \<Rightarrow> candidate_of s' a si b)"
proof -
  have core: "wf_core s" using wf by (simp add: wf_state_def)
  from wf_core_entry [OF core si] obtain st nd where st: "get_sta s (si_sta si) = Some st"
    and nd: "get_node s (si_node si) = Some nd" by metis
  let ?heard = "Option.bind (List.find (\<lambda>br. get_usteer_node_from_bssid s (br_bssid br) = Some (si_node si))
                    (si_beacon_reports si))
      (\<lambda>br. List.find (heard_better s (si_node si) nd br) (si_beacon_reports si))"
  note eq = find_entries [OF wf si st nd]
  show ?thesis
  proof (cases ?heard)
    case None
    let ?b = "List.find (known_better s a si nd) (st_nodes st)"
    have "candidate_of s a si b" if "?b = Some b" for b
    proof -
      from that have mem: "b \<in> set (st_nodes st)" and kb: "known_better s a si nd b"
        by (auto simp: find_Some_iff)
      from wf_core_sta(2) [OF core st] mem obtain sb where sb: "si_heap s b = Some sb" "si_sta sb = si_sta si"
        by auto
      with kb wf_core_unique [OF core sb(1) si] have "si_node sb \<noteq> si_node si"
        by (auto simp: known_better_def)
      with kb sb nd show ?thesis by (auto simp: known_better_def candidate_of_def)
    qed
    with eq None wf show ?thesis by (auto split: option.splits)
  next
    case (Some br)
    then obtain bc where "heard_better s (si_node si) nd bc br"
      by (auto simp: bind_eq_Some_conv find_Some_iff)
    then obtain r nr where r: "get_usteer_node_from_bssid s (br_bssid br) = Some r" "r \<noteq> si_node si"
      and nr: "get_node s r = Some nr" "node_ssid nr = node_ssid nd" "below_max_assoc nr"
      by (auto simp: heard_better_def)
    have st': "get_sta s (si_sta si) \<noteq> None" using st by simp
    have neb: "no_empty_but (si_sta si) s"
      using wf by (auto simp: wf_state_def no_empty_sta_def no_empty_but_def)
    from get_total [OF core st' nr(1)] neb obtain b c s' where
      s': "usteer_sta_info_get (si_sta si) r True s = Some (Some b, c, s')" "wf_core s'" "frame_eq s s'"
        "tq s' = tq s" "c = (entry s (si_sta si) r = None)"
        "if c then b = si_next s \<and> si_heap s' = (si_heap s)(b \<mapsto> new_sta_info s (si_sta si) r nr)
         else entry s (si_sta si) r = Some b \<and> s' = s" "no_empty_sta s'" by blast
    have new: "si_sta (new_sta_info s (si_sta si) r nr) = si_sta si" "si_node (new_sta_info s (si_sta si) r nr) = r"
      by (simp_all add: new_sta_info_def calloc_sta_info_def Let_def)
    have keep: "\<forall>x. si_heap s x \<noteq> None \<longrightarrow> si_heap s' x = si_heap s x"
      using s'(6) wf_core_fresh [OF core] by (auto split: if_splits)
    have grows: "only_grows (si_node si) s s'"
      using s'(3,4) keep info_get_views [OF s'(1)] r(2) by (auto simp: only_grows_def)
    obtain sb where sb: "si_heap s' b = Some sb" "si_sta sb = si_sta si" "si_node sb = r"
      using s'(5,6) new entry_iff [OF core, of "si_sta si" r b] by (auto split: if_splits)
    have "b \<noteq> a" using sb si keep r(2) by auto
    moreover from plain_node_ssid [OF info_get_views(2) [OF s'(1)] nd] obtain nd' where
      "get_node s' (si_node si) = Some nd'" "node_ssid nd' = node_ssid nd" by metis
    moreover from plain_node_ssid [OF info_get_views(2) [OF s'(1)] nr(1)] obtain nr' where
      "get_node s' r = Some nr'" "node_ssid nr' = node_ssid nr" "below_max_assoc nr' = below_max_assoc nr"
      by metis
    ultimately have "candidate_of s' a si b" using sb r(2) nr by (auto simp: candidate_of_def)
    with eq Some r s' grows show ?thesis by (auto simp: wf_state_def)
  qed
qed

subsection \<open>Requests\<close>

lemma get_stats_total:
  "wf_core s \<Longrightarrow> si_heap s a = Some si \<Longrightarrow> type \<noteq> EVENT_TYPE_MAX \<Longrightarrow>
   get_stats si type = Some (si_stats si ! event_index type)"
  by (cases type) (auto simp: get_stats_def wf_core_def si_ok_def)

text \<open>In the concrete network the search from the first access point finds the second.\<close>

lemma network_candidate:
  "find_better_candidate 0 network = Some (Some 1, network)"
proof -
  let ?st = "\<lparr>st_nodes = [1, 0], st_seen_2ghz = True, st_seen_5ghz = True, st_addr = client\<rparr>"
  have at: "si_sta client_at_a = client" "si_node client_at_a = NLocal ''a''"
    "si_beacon_reports client_at_a = []" "si_node client_at_b = NLocal ''b''" "si_seen client_at_b = 99000"
    by (simp_all add: client_at_a_def client_at_b_def calloc_sta_info_def)
  have st: "get_sta network (si_sta client_at_a) = Some ?st" by (simp add: at get_sta_def network_def)
  have nd: "get_node network (si_node client_at_a) = Some (ap_node [0] 1 2412 10)"
    by (simp only: at network_nodes)
  have nb: "get_node network (si_node client_at_b) = Some (ap_node [1] 2 5180 0)"
    by (simp only: at network_nodes)
  have "known_better network 0 client_at_a (ap_node [0] 1 2412 10) 1"
    by (simp add: known_better_def is_better_candidate_eq [OF nd nb] is_better_candidate_eq [OF nb nd] nb
        at(5) below_max_assoc_def below_assoc_threshold_def better_signal_strength_def has_better_load_def
        below_load_threshold_def)
       (simp add: network_defs usteer_init_defaults_def)
  with find_entries [OF network_wf network_heap(1) st nd] show ?thesis
    by (simp add: at)
qed

section \<open>Properties\<close>

text \<open>
  C6. The search for a better candidate is defined on every live entry of a well-formed state
  and keeps it well formed. It changes nothing but may create one entry, never at the node of
  the client. The candidate it returns is another entry of the same station, at another node
  with the same SSID that has room for a client.
\<close>

theorem find_better_candidate_sound:
  assumes "wf_state s" "si_heap s a = Some si"
  shows "\<exists>b s'. find_better_candidate a s = Some (b, s') \<and> wf_state s' \<and>
    only_grows (si_node si) s s' \<and>
    (case b of None \<Rightarrow> s' = s | Some b \<Rightarrow> candidate_of s' a si b)"
  using candidate_total [OF assms] .

theorem find_better_candidate_sound_witness:
  "\<exists>b s'. find_better_candidate 0 network = Some (b, s') \<and> wf_state s'"
  using find_better_candidate_sound [OF network_wf network_heap(1)] by blast

text \<open>
  C13. The two search loops are equivalent to a specification: if the client has reported on its
  own node, the first report that names another node of the same SSID and is better, while the
  current node is not also better than it, decides (and the entry of the client there is found
  or created); otherwise it is the first recently seen entry of the station with these
  properties. The search returns nothing exactly when there is neither.
\<close>

theorem find_better_candidate_first:
  assumes "wf_state s" "si_heap s a = Some si"
    and "get_sta s (si_sta si) = Some st" "get_node s (si_node si) = Some nd"
  shows "find_better_candidate a s =
    (case Option.bind (List.find (\<lambda>br. get_usteer_node_from_bssid s (br_bssid br) = Some (si_node si))
            (si_beacon_reports si))
          (\<lambda>br. List.find (heard_better s (si_node si) nd br) (si_beacon_reports si)) of
       None \<Rightarrow> Some (List.find (known_better s a si nd) (st_nodes st), s)
     | Some br \<Rightarrow> map_option (\<lambda>(b, _, s'). (b, s'))
         (usteer_sta_info_get (si_sta si) (the (get_usteer_node_from_bssid s (br_bssid br))) True s))"
  using find_entries [OF assms] .

theorem find_better_candidate_first_witness:
  "find_better_candidate 0 network =
     Some (List.find (known_better network 0 client_at_a (ap_node [0] 1 2412 10)) [1, 0], network)"
proof -
  have at: "si_sta client_at_a = client" "si_node client_at_a = NLocal ''a''" "si_beacon_reports client_at_a = []"
    by (simp_all add: client_at_a_def calloc_sta_info_def)
  have "get_sta network (si_sta client_at_a) =
      Some \<lparr>st_nodes = [1, 0], st_seen_2ghz = True, st_seen_5ghz = True, st_addr = client\<rparr>"
    "get_node network (si_node client_at_a) = Some (ap_node [0] 1 2412 10)"
    unfolding at network_nodes by (simp_all add: get_sta_def network_def)
  from find_better_candidate_first [OF network_wf network_heap(1) this] show ?thesis by (simp add: at)
qed

text \<open>
  C29. No ping-pong: between two entries of a station without beacon reports the relation is
  asymmetric. If the search from the entry \<open>a\<close> returns \<open>b\<close>, the search from \<open>b\<close> does not return
  \<open>a\<close>.
\<close>

theorem find_better_candidate_asym:
  assumes "wf_state s" "si_heap s a = Some si" "si_heap s b = Some sb"
    and "si_beacon_reports si = []" "si_beacon_reports sb = []"
    and "find_better_candidate a s = Some (Some b, s')"
  shows "find_better_candidate b s \<noteq> Some (Some a, s'')"
proof -
  have core: "wf_core s" using assms(1) by (simp add: wf_state_def)
  from wf_core_entry [OF core assms(2)] obtain st nd where
    a: "get_sta s (si_sta si) = Some st" "get_node s (si_node si) = Some nd" by metis
  from wf_core_entry [OF core assms(3)] obtain tb nb where
    b: "get_sta s (si_sta sb) = Some tb" "get_node s (si_node sb) = Some nb" by metis
  from find_entries [OF assms(1,2) a] assms(4,6)
  have "known_better s a si nd b" by (auto simp: find_Some_iff find_Some_iff2)
  then have "is_better_candidate s si sb = Some True" using assms(3) by (auto simp: known_better_def)
  then have "\<not> known_better s b sb nb a" using assms(2) by (auto simp: known_better_def)
  with find_entries [OF assms(1,3) b] assms(5) show ?thesis
    by (auto simp: find_Some_iff find_Some_iff2)
qed

theorem find_better_candidate_asym_witness:
  "find_better_candidate 0 network = Some (Some 1, network) \<and>
   find_better_candidate 1 network \<noteq> Some (Some 0, network)"
proof -
  have "si_beacon_reports client_at_a = []" "si_beacon_reports client_at_b = []"
    by (simp_all add: client_at_a_def client_at_b_def calloc_sta_info_def)
  with find_better_candidate_asym [OF network_wf network_heap(1,2)] network_candidate show ?thesis
    by blast
qed

text \<open>
  C23. The decision on a request (probe, authentication; association requests are always
  answered): on a well-formed state it is defined and keeps it well formed. The answer is yes
  when the client was turned away often enough, and otherwise exactly when its signal reaches
  the minimum, the initial delay is over and there is no better candidate.
\<close>

theorem check_request_decision:
  assumes "wf_state s" "si_heap s a = Some si" "get_node s (si_node si) = Some nd"
    and "type \<noteq> EVENT_TYPE_MAX"
  shows "\<exists>b s1 ok s'. find_better_candidate a s = Some (b, s1) \<and>
    usteer_check_request a type s = Some (ok, s') \<and> wf_state s' \<and> only_grows (si_node si) s s' \<and>
    (ok \<longleftrightarrow> type = EVENT_TYPE_ASSOC \<or>
       blocked_cur (si_stats si ! event_index type) \<ge> max_retry_band (config s) \<or>
       (sint (snr_to_signal nd (min_connect_snr (config s))) \<le> sint (si_signal si) \<and>
        ucast (initial_connect_delay (config s)) \<le> current_time s - si_created si \<and> b = None))"
proof -
  have "wf_core s" using assms(1) by (simp add: wf_state_def)
  note stats = get_stats_total [OF this assms(2,4)]
  from candidate_total [OF assms(1,2)] obtain b s1 where
    "find_better_candidate a s = Some (b, s1)" "wf_state s1" "only_grows (si_node si) s s1" by blast
  then show ?thesis
    using assms stats by (auto simp: usteer_check_request_def Let_def not_less not_le)
qed

theorem check_request_decision_witness:
  "\<exists>ok s'. usteer_check_request 0 EVENT_TYPE_AUTH network = Some (ok, s') \<and> wf_state s'"
proof -
  have "si_node client_at_a = NLocal ''a''" by (simp add: client_at_a_def calloc_sta_info_def)
  then have "get_node network (si_node client_at_a) = Some (ap_node [0] 1 2412 10)"
    by (simp only: network_nodes)
  from check_request_decision [OF network_wf network_heap(1) this, of EVENT_TYPE_AUTH] show ?thesis
    by auto
qed



text \<open>
  For signal difference thresholds from 1 to 99 the threshold on the hearing map is lost in
  an integer division: a report is better as soon as its received power is higher at all.
\<close>

lemma hearing_map_threshold_lost:
  assumes "0 < signal_diff_threshold cfg" "signal_diff_threshold cfg < 100"
  shows "better_signal_strength_hearing_map cfg br_cur br_new \<longleftrightarrow> br_rcpi br_cur < br_rcpi br_new"
proof -
  have "unat (signal_diff_threshold cfg) < 100" using assms(2) by (simp add: word_less_nat_alt)
  then have "unat (signal_diff_threshold cfg div 100) = 0" by (simp add: unat_div)
  then have "signal_diff_threshold cfg div 100 = 0" by (simp add: unsigned_eq_0_iff)
  moreover have "signal_diff_threshold cfg \<noteq> 0" using assms(1) by auto
  ultimately show ?thesis
    by (simp add: better_signal_strength_hearing_map_def Let_def word_less_def)
qed

end
