(* ===== verification/Kicking.thy ===== *)
theory Kicking
  imports Policy
begin

text \<open>
  The second half of policy.c: the roaming state machine and the three reasons to kick a client
  (roaming, low signal, load of the node). Logging is left out. Each loop of the code over a
  node's entries is a recursive function over the node's list; the bodies do not change that
  list (\<open>find_better_candidate\<close> adds entries to other nodes only).
\<close>

section \<open>Model\<close>

subsection \<open>Activity and kicking order\<close>

definition usteer_get_client_active_bits :: "usteer_config \<Rightarrow> sta_info \<Rightarrow> u64 option" where
  "usteer_get_client_active_bits cfg si =
     (let ab = si_active_bytes si;
          rx_delta = ab_cur_rx ab - ab_prev_rx ab;
          tx_delta = ab_cur_tx ab - ab_prev_tx ab
      in if kick_client_active_sec cfg = 0 then None
         else Some (((rx_delta + tx_delta) div ucast (kick_client_active_sec cfg)) * 8))"

definition is_active_client :: "usteer_config \<Rightarrow> sta_info \<Rightarrow> bool option" where
  "is_active_client cfg si =
     map_option (\<lambda>bits. bits \<ge> ucast (kick_client_active_bits cfg)) (usteer_get_client_active_bits cfg si)"

fun is_more_kickable :: "sta_info option \<Rightarrow> sta_info \<Rightarrow> bool" where
  "is_more_kickable None si_new = True"
| "is_more_kickable (Some si_cur) si_new =
     (if sint (si_kick_count si_new) > sint (si_kick_count si_cur) then False
      else sint (si_signal si_cur) > sint (si_signal si_new))"

subsection \<open>The roaming state machine\<close>

definition roam_set_state :: "u64 \<Rightarrow> roam_trigger_state \<Rightarrow> sta_info \<Rightarrow> sta_info" where
  "roam_set_state now state si =
     (let si = si\<lparr>si_roam_event := now\<rparr>
      in if si_roam_state si = state
         then if si_roam_state si = ROAM_TRIGGER_IDLE then si\<lparr>si_roam_tries := 0\<rparr>
              else si\<lparr>si_roam_tries := si_roam_tries si + 1, si_roam_state := state\<rparr>
         else si\<lparr>si_roam_tries := 0, si_roam_state := state\<rparr>)"

definition usteer_roam_set_state ::
    "nat \<Rightarrow> roam_trigger_state \<Rightarrow> usteer_state \<Rightarrow> usteer_state option" where
  "usteer_roam_set_state a state s = upd_si a (roam_set_state (current_time s) state) s"

definition usteer_roam_trigger_sm ::
    "nr_parser \<Rightarrow> nat \<Rightarrow> usteer_state \<Rightarrow> (bool \<times> usteer_state) option" where
  "usteer_roam_trigger_sm nr_fields a s = do {
     si \<leftarrow> si_heap s a;
     nd \<leftarrow> get_node s (si_node si);
     let min_signal = snr_to_signal nd (roam_trigger_snr (config s));
     (case si_roam_state si of
        ROAM_TRIGGER_SCAN \<Rightarrow>
          if current_time s - si_roam_event si < ucast (roam_scan_interval (config s)) then Some (False, s)
          else do {
            (si_new, s) \<leftarrow> find_better_candidate a s;
            (if si_new \<noteq> None \<or> si_roam_scan_done si > si_roam_event si
             then map_option (Pair False) (usteer_roam_set_state a ROAM_TRIGGER_SCAN_DONE s)
             else if roam_scan_tries (config s) \<noteq> 0 \<and>
                     ucast (si_roam_tries si) \<ge> roam_scan_tries (config s)
             then map_option (Pair False) (usteer_roam_set_state a ROAM_TRIGGER_WAIT_KICK s)
             else do {
               s \<leftarrow> usteer_ubus_trigger_client_scan a s;
               map_option (Pair False) (usteer_roam_set_state a ROAM_TRIGGER_SCAN s)
             })
          }
      | ROAM_TRIGGER_IDLE \<Rightarrow> do {
          (si_new, s) \<leftarrow> find_better_candidate a s;
          (if si_new \<noteq> None
           then map_option (Pair False) (usteer_roam_set_state a ROAM_TRIGGER_SCAN_DONE s)
           else map_option (Pair False) (usteer_roam_set_state a ROAM_TRIGGER_SCAN s))
        }
      | ROAM_TRIGGER_SCAN_DONE \<Rightarrow>
          if current_time s - si_roam_scan_done si > ucast (2 * roam_scan_interval (config s))
          then map_option (Pair False) (usteer_roam_set_state a ROAM_TRIGGER_SCAN s)
          else do {
            (si_new, s) \<leftarrow> find_better_candidate a s;
            (if si_new = None then Some (False, s)
             else map_option (Pair False) (usteer_roam_set_state a ROAM_TRIGGER_WAIT_KICK s))
          }
      | ROAM_TRIGGER_WAIT_KICK \<Rightarrow>
          if sint (si_signal si) > sint min_signal then Some (False, s)
          else do {
            s \<leftarrow> usteer_roam_set_state a ROAM_TRIGGER_NOTIFY_KICK s;
            map_option (Pair False) (usteer_ubus_notify_client_disassoc nr_fields a s)
          }
      | ROAM_TRIGGER_NOTIFY_KICK \<Rightarrow>
          if current_time s - si_roam_event si < ucast (roam_kick_delay (config s) * 100)
          then Some (False, s)
          else map_option (Pair False) (usteer_roam_set_state a ROAM_TRIGGER_KICK s)
      | ROAM_TRIGGER_KICK \<Rightarrow> do {
          s \<leftarrow> usteer_ubus_kick_client a s;
          map_option (Pair True) (usteer_roam_set_state a ROAM_TRIGGER_IDLE s)
        })
   }"

text \<open>The condition under which the loop sends an entry back to idle, tested left to right.\<close>

definition roam_excluded :: "usteer_state \<Rightarrow> s32 \<Rightarrow> sta_info \<Rightarrow> bool option" where
  "roam_excluded s min_signal si =
     (if si_connected si = 0 \<or> sint (si_signal si) \<ge> sint min_signal then Some True
      else (case is_active_client (config s) si of
              None \<Rightarrow> None
            | Some True \<Rightarrow> Some True
            | Some False \<Rightarrow>
                Some (current_time s - si_roam_kick si < ucast (roam_trigger_interval (config s)))))"

fun roam_check_loop ::
    "nr_parser \<Rightarrow> s32 \<Rightarrow> nat list \<Rightarrow> usteer_state \<Rightarrow> usteer_state option" where
  "roam_check_loop nr_fields min_signal [] s = Some s"
| "roam_check_loop nr_fields min_signal (a # as) s = do {
     si \<leftarrow> si_heap s a;
     excluded \<leftarrow> roam_excluded s min_signal si;
     (if excluded then do {
        s \<leftarrow> usteer_roam_set_state a ROAM_TRIGGER_IDLE s;
        roam_check_loop nr_fields min_signal as s
      }
      else do {
        (kicked, s) \<leftarrow> usteer_roam_trigger_sm nr_fields a s;
        (if kicked then Some s else roam_check_loop nr_fields min_signal as s)
      })
   }"

text \<open>\<open>clk\<close> is what \<^verbatim>\<open>usteer_update_time\<close> reads.\<close>

definition usteer_local_node_roam_check ::
    "nr_parser \<Rightarrow> u64 \<Rightarrow> string \<Rightarrow> usteer_state \<Rightarrow> usteer_state option" where
  "usteer_local_node_roam_check nr_fields clk n s =
     (let cfg = config s;
          snr = (if roam_scan_snr cfg \<noteq> 0 then roam_scan_snr cfg else roam_trigger_snr cfg)
      in if snr = 0 then Some s
         else do {
           let s = s\<lparr>current_time := clk\<rparr>;
           ln \<leftarrow> get_local s n;
           let min_signal = snr_to_signal (ln_node ln) snr;
           roam_check_loop nr_fields min_signal (node_sta_info (ln_node ln)) s
         })"

subsection \<open>Kicking weak clients and loaded nodes\<close>

definition kick_counted :: "nat \<Rightarrow> usteer_state \<Rightarrow> usteer_state option" where
  "kick_counted a s = do {
     s \<leftarrow> upd_si a (\<lambda>si. si\<lparr>si_kick_count := si_kick_count si + 1\<rparr>) s;
     usteer_ubus_kick_client a s
   }"

fun snr_kick_loop :: "s32 \<Rightarrow> nat list \<Rightarrow> usteer_state \<Rightarrow> usteer_state option" where
  "snr_kick_loop min_signal [] s = Some s"
| "snr_kick_loop min_signal (a # as) s = do {
     si \<leftarrow> si_heap s a;
     (if si_connected si = 0 then snr_kick_loop min_signal as s
      else do {
        active \<leftarrow> is_active_client (config s) si;
        (if active then snr_kick_loop min_signal as s
         else if sint (si_signal si) \<ge> sint min_signal then snr_kick_loop min_signal as s
         else kick_counted a s)
      })
   }"

definition usteer_local_node_snr_kick :: "string \<Rightarrow> usteer_state \<Rightarrow> usteer_state option" where
  "usteer_local_node_snr_kick n s =
     (if min_snr (config s) = 0 then Some s
      else do {
        ln \<leftarrow> get_local s n;
        let min_signal = snr_to_signal (ln_node ln) (min_snr (config s));
        snr_kick_loop min_signal (node_sta_info (ln_node ln)) s
      })"

text \<open>The selection loop of \<^verbatim>\<open>usteer_local_node_kick\<close>, with the locals \<^verbatim>\<open>kick1\<close> and \<^verbatim>\<open>kick2\<close>.\<close>

fun load_kick_loop ::
    "nat list \<Rightarrow> nat option \<Rightarrow> nat option \<Rightarrow> usteer_state \<Rightarrow>
     (nat option \<times> nat option \<times> usteer_state) option" where
  "load_kick_loop [] kick1 kick2 s = Some (kick1, kick2, s)"
| "load_kick_loop (a # as) kick1 kick2 s = do {
     si \<leftarrow> si_heap s a;
     (if si_connected si = 0 then load_kick_loop as kick1 kick2 s
      else do {
        active \<leftarrow> is_active_client (config s) si;
        (if active then load_kick_loop as kick1 kick2 s
         else do {
           let kick1 = (if is_more_kickable (Option.bind kick1 (si_heap s)) si then Some a else kick1);
           (tmp, s) \<leftarrow> find_better_candidate a s;
           (if tmp = None then load_kick_loop as kick1 kick2 s
            else load_kick_loop as kick1
                   (if is_more_kickable (Option.bind kick2 (si_heap s)) si then Some a else kick2) s)
         })
      })
   }"

definition DIV_ROUND_UP :: "u32 \<Rightarrow> u32 \<Rightarrow> u32 option" where
  "DIV_ROUND_UP n d = (if d = 0 then None else Some ((n + d - 1) div d))"

definition usteer_local_node_load_kick :: "string \<Rightarrow> usteer_state \<Rightarrow> usteer_state option" where
  "usteer_local_node_load_kick n s = do {
     let cfg = config s;
     ln \<leftarrow> get_local s n;
     (if \<not> load_kick_enabled cfg \<or> load_kick_threshold cfg = 0 \<or> load_kick_delay cfg = 0 then Some s
      else if node_load (ln_node ln) < load_kick_threshold cfg
      then Some (upd_local n (\<lambda>ln. ln\<lparr>ln_load_thr_count := 0\<rparr>) s)
      else do {
        let s = upd_local n (\<lambda>ln. ln\<lparr>ln_load_thr_count := ln_load_thr_count ln + 1\<rparr>) s;
        rounds \<leftarrow> DIV_ROUND_UP (load_kick_delay cfg) (local_sta_update cfg);
        (if ln_load_thr_count ln + 1 \<le> rounds then Some s
         else do {
           let s = upd_local n (\<lambda>ln. ln\<lparr>ln_load_thr_count := 0\<rparr>) s;
           (if node_n_assoc (ln_node ln) < load_kick_min_clients cfg then Some s
            else do {
              (kick1, kick2, s) \<leftarrow> load_kick_loop (node_sta_info (ln_node ln)) None None s;
              (case kick1 of
                 None \<Rightarrow> Some s
               | Some k1 \<Rightarrow> kick_counted (case kick2 of None \<Rightarrow> k1 | Some k2 \<Rightarrow> k2) s)
            })
         })
      })
   }"

definition usteer_local_node_kick ::
    "nr_parser \<Rightarrow> u64 \<Rightarrow> string \<Rightarrow> usteer_state \<Rightarrow> usteer_state option" where
  "usteer_local_node_kick nr_fields clk n s = do {
     s \<leftarrow> usteer_local_node_roam_check nr_fields clk n s;
     s \<leftarrow> usteer_local_node_snr_kick n s;
     usteer_local_node_load_kick n s
   }"

section \<open>Specification of the roaming state machine\<close>

text \<open>What one call of the state machine does towards the client, as seen in its messages.\<close>

datatype roam_event = Quiet | Scan_request | Disassoc_imminent | Deauthenticate

fun roam_event_of :: "action list \<Rightarrow> roam_event option" where
  "roam_event_of [] = Some Quiet"
| "roam_event_of [Ubus_invoke i method args] =
     (if method = ''rrm_beacon_req'' then Some Scan_request
      else if method = ''wnm_disassoc_imminent'' then Some Disassoc_imminent
      else if method = ''del_client'' then Some Deauthenticate
      else None)"
| "roam_event_of _ = None"

inductive roam_edge :: "roam_trigger_state \<Rightarrow> roam_event \<Rightarrow> roam_trigger_state \<Rightarrow> bool" where
  stay: "st \<in> {ROAM_TRIGGER_SCAN, ROAM_TRIGGER_SCAN_DONE, ROAM_TRIGGER_WAIT_KICK, ROAM_TRIGGER_NOTIFY_KICK} \<Longrightarrow>
    roam_edge st Quiet st"
| idle_found: "roam_edge ROAM_TRIGGER_IDLE Quiet ROAM_TRIGGER_SCAN_DONE"
| idle_scan: "roam_edge ROAM_TRIGGER_IDLE Quiet ROAM_TRIGGER_SCAN"
| scan_done: "roam_edge ROAM_TRIGGER_SCAN Quiet ROAM_TRIGGER_SCAN_DONE"
| scan_again: "roam_edge ROAM_TRIGGER_SCAN Scan_request ROAM_TRIGGER_SCAN"
| scan_failed: "roam_edge ROAM_TRIGGER_SCAN Quiet ROAM_TRIGGER_WAIT_KICK"
| scan_stale: "roam_edge ROAM_TRIGGER_SCAN_DONE Quiet ROAM_TRIGGER_SCAN"
| done_found: "roam_edge ROAM_TRIGGER_SCAN_DONE Quiet ROAM_TRIGGER_WAIT_KICK"
| notify: "roam_edge ROAM_TRIGGER_WAIT_KICK Disassoc_imminent ROAM_TRIGGER_NOTIFY_KICK"
| delay_over: "roam_edge ROAM_TRIGGER_NOTIFY_KICK Quiet ROAM_TRIGGER_KICK"
| kick: "roam_edge ROAM_TRIGGER_KICK Deauthenticate ROAM_TRIGGER_IDLE"

inductive_cases roam_edge_kickE: "roam_edge st Deauthenticate st'"
inductive_cases roam_edge_notifyE: "roam_edge st Disassoc_imminent st'"
inductive_cases roam_edge_pendingE: "roam_edge st ev ROAM_TRIGGER_KICK"

section \<open>Steps on a client\<close>

text \<open>
  What an operation on the entry \<open>a\<close> of the local node \<open>n\<close> may change: the entry itself, and
  entries may appear at other nodes.
\<close>

definition client_step :: "string \<Rightarrow> nat \<Rightarrow> usteer_state \<Rightarrow> usteer_state \<Rightarrow> bool" where
  "client_step n a s s' \<longleftrightarrow> config s' = config s \<and> current_time s' = current_time s \<and> tq s' = tq s \<and>
     local_view s' = local_view s \<and> plain_node s' = plain_node s \<and>
     node_view s' (NLocal n) = node_view s (NLocal n) \<and>
     (\<forall>b. b \<noteq> a \<longrightarrow> si_heap s b \<noteq> None \<longrightarrow> si_heap s' b = si_heap s b) \<and>
     (\<forall>si. si_heap s a = Some si \<longrightarrow> (\<exists>si'. si_heap s' a = Some si' \<and> same_entry a si si'))"

lemma client_step_refl [simp]: "client_step n a s s"
  by (simp add: client_step_def)

lemma client_step_trans: "client_step n a s t \<Longrightarrow> client_step n a t u \<Longrightarrow> client_step n a s u"
  unfolding client_step_def by (metis same_entry_trans)

lemma client_step_grows: "only_grows (NLocal n) s s' \<Longrightarrow> client_step n a s s'"
  by (auto simp: client_step_def only_grows_def frame_eq_def)

lemma client_step_entry: "entry_step a s s' \<Longrightarrow> client_step n a s s'"
  using entry_step_frame [of a s s'] entry_step_si [of a s s']
  by (auto simp: client_step_def local_view_def plain_node_def node_view_def get_local_def fun_eq_iff)

lemma client_step_live:
  "client_step n a s s' \<Longrightarrow> si_heap s b = Some sb \<Longrightarrow> si_node sb = r \<Longrightarrow>
   \<exists>sb'. si_heap s' b = Some sb' \<and> si_node sb' = r \<and> si_sta sb' = si_sta sb"
  by (cases "b = a") (auto simp: client_step_def same_entry_def)

lemma same_entry_roam [simp]: "same_entry a si (roam_set_state t st si)"
  by (simp add: same_entry_def roam_set_state_def Let_def)

lemma roam_state_set [simp]: "si_roam_state (roam_set_state t st si) = st"
  by (simp add: roam_set_state_def Let_def)

lemma set_state_step:
  assumes "si_heap s a = Some si"
  shows "\<exists>s'. usteer_roam_set_state a st s = Some s' \<and> entry_step a s s' \<and> out s' = out s \<and>
    si_heap s' = (si_heap s)(a \<mapsto> roam_set_state (current_time s) st si)"
proof -
  let ?f = "roam_set_state (current_time s) st"
  obtain s' where s': "upd_si a ?f s = Some s'" using assms by (simp add: upd_si_def)
  with entry_step_upd_si [OF assms, of ?f] assms show ?thesis
    by (auto simp: usteer_roam_set_state_def upd_si_Some)
qed

text \<open>The outcome of a call of the state machine.\<close>

definition roam_outcome ::
    "string \<Rightarrow> nat \<Rightarrow> usteer_state \<Rightarrow> roam_trigger_state \<Rightarrow> action list \<Rightarrow> usteer_state \<Rightarrow> bool" where
  "roam_outcome n a s st msgs s' \<longleftrightarrow> wf_state s' \<and> client_step n a s s' \<and> out s' = out s @ msgs \<and>
     (\<exists>si'. si_heap s' a = Some si' \<and> si_roam_state si' = st)"

lemma outcome_set_state:
  assumes "wf_state s" "si_heap s a = Some si"
  shows "\<exists>s'. usteer_roam_set_state a st s = Some s' \<and> roam_outcome n a s st [] s'"
  using set_state_step [OF assms(2), of st] assms(1)
  by (auto simp: roam_outcome_def client_step_entry entry_step_wf)

lemma outcome_grows:
  "only_grows (NLocal n) s t \<Longrightarrow> roam_outcome n a t st msgs u \<Longrightarrow> roam_outcome n a s st msgs u"
  by (auto simp: roam_outcome_def only_grows_def frame_eq_def
      intro: client_step_trans [OF client_step_grows])

lemma outcome_entry:
  "entry_step a s t \<Longrightarrow> out t = out s @ ms \<Longrightarrow> roam_outcome n a t st msgs u \<Longrightarrow>
   roam_outcome n a s st (ms @ msgs) u"
  by (auto simp: roam_outcome_def intro: client_step_trans [OF client_step_entry])

text \<open>One call of the state machine is defined, and is an edge of the specification.\<close>

lemma sm_found:
  assumes wf: "wf_state s" and si: "si_heap s a = Some si" and loc: "si_node si = NLocal n"
  obtains b t where "find_better_candidate a s = Some (b, t)" "wf_state t" "only_grows (NLocal n) s t"
    "si_heap t a = Some si"
  using candidate_total [OF wf si] si loc by (auto simp: only_grows_def)

lemma grows_set_state:
  assumes "only_grows (NLocal n) s t" "wf_state t" "si_heap t a = Some si"
  shows "\<exists>s'. usteer_roam_set_state a st t = Some s' \<and> roam_outcome n a s st [] s'"
  using outcome_set_state [OF assms(2,3)] outcome_grows [OF assms(1)] by blast

lemma outcome_same:
  "wf_state s \<Longrightarrow> si_heap s a = Some si \<Longrightarrow> only_grows (NLocal n) t s \<Longrightarrow>
   roam_outcome n a t (si_roam_state si) [] s"
  by (auto simp: roam_outcome_def only_grows_def frame_eq_def intro: client_step_grows)

definition sm_result :: "nr_parser \<Rightarrow> string \<Rightarrow> nat \<Rightarrow> usteer_state \<Rightarrow> roam_trigger_state \<Rightarrow> bool" where
  "sm_result nrp n a s st0 \<longleftrightarrow> (\<exists>s' st msgs ev.
     usteer_roam_trigger_sm nrp a s = Some (ev = Deauthenticate, s') \<and> roam_outcome n a s st msgs s' \<and>
     roam_event_of msgs = Some ev \<and> roam_edge st0 ev st)"

lemma sm_resultI:
  "usteer_roam_trigger_sm nrp a s = Some (False, s') \<Longrightarrow> roam_outcome n a s st [] s' \<Longrightarrow>
   roam_edge st0 Quiet st \<Longrightarrow> sm_result nrp n a s st0"
  unfolding sm_result_def
  by (intro exI [of _ s'] exI [of _ st] exI [of _ "[]"] exI [of _ Quiet]) simp

lemma sm_result_msgI:
  "roam_outcome n a s st [Ubus_invoke i meth args] s' \<Longrightarrow>
   usteer_roam_trigger_sm nrp a s = Some (ev = Deauthenticate, s') \<Longrightarrow>
   roam_event_of [Ubus_invoke i meth args] = Some ev \<Longrightarrow> roam_edge st0 ev st \<Longrightarrow> sm_result nrp n a s st0"
  unfolding sm_result_def by blast

lemma sm_stays:
  assumes "wf_state s" "si_heap s a = Some si" "si_roam_state si = st0"
    and "usteer_roam_trigger_sm nrp a s = Some (False, t)" "only_grows (NLocal n) s t"
    and "wf_state t" "si_heap t a = Some si"
    and "st0 \<notin> {ROAM_TRIGGER_IDLE, ROAM_TRIGGER_KICK}"
  shows "sm_result nrp n a s st0"
  using assms outcome_same [OF assms(6,7,5)]
  by (intro sm_resultI [of nrp a s t n st0 st0]) (cases st0; auto intro: roam_edge.intros)+

lemma sm_scan:
  assumes wf: "wf_state s" and si: "si_heap s a = Some si" and loc: "si_node si = NLocal n"
    and st: "si_roam_state si = ROAM_TRIGGER_SCAN"
  shows "sm_result nrp n a s ROAM_TRIGGER_SCAN"
proof -
  have core: "wf_core s" using wf by (simp add: wf_state_def)
  from wf_core_entry [OF core si] obtain nd where nd: "get_node s (si_node si) = Some nd" by metis
  from sm_found [OF wf si loc] obtain b t where
    t: "find_better_candidate a s = Some (b, t)" "wf_state t" "only_grows (NLocal n) s t" "si_heap t a = Some si" .
  note set_state = grows_set_state [OF t(3,2,4)]
  have cfg: "config t = config s" "current_time t = current_time s" and coret: "wf_core t"
    using t(2,3) by (auto simp: only_grows_def frame_eq_def wf_state_def)
  let ?early = "current_time s - si_roam_event si < ucast (roam_scan_interval (config s))"
  let ?found = "b \<noteq> None \<or> si_roam_scan_done si > si_roam_event si"
  let ?failed = "roam_scan_tries (config s) \<noteq> 0 \<and> ucast (si_roam_tries si) \<ge> roam_scan_tries (config s)"
  note sm = usteer_roam_trigger_sm_def si nd st t(1) cfg
  consider ?early | "\<not> ?early" ?found | "\<not> ?early" "\<not> ?found" ?failed
    | "\<not> ?early" "\<not> ?found" "\<not> ?failed" by blast
  then show ?thesis
  proof cases
    case 1
    with sm_stays [OF wf si st] wf si show ?thesis by (auto simp: sm)
  next
    case 2
    from set_state [of ROAM_TRIGGER_SCAN_DONE] 2 show ?thesis
      by (auto intro!: sm_resultI roam_edge.intros simp: sm)
  next
    case 3
    from set_state [of ROAM_TRIGGER_WAIT_KICK] 3 show ?thesis
      by (auto intro!: sm_resultI roam_edge.intros simp: sm)
  next
    case 4
    from trigger_scan_step [OF coret t(4) loc] obtain u i args where
      u: "usteer_ubus_trigger_client_scan a t = Some u" "entry_step a t u"
        "si_heap u = (si_heap t)(a \<mapsto> si\<lparr>si_scan_band := \<not> si_scan_band si\<rparr>)"
        "out u = out t @ [Ubus_invoke i ''rrm_beacon_req'' args]" by blast
    have "wf_state u" using entry_step_wf(1) [OF u(2) t(2)] .
    then obtain s' where s': "usteer_roam_set_state a ROAM_TRIGGER_SCAN u = Some s'"
      "roam_outcome n a u ROAM_TRIGGER_SCAN [] s'" using outcome_set_state u(3) by fastforce
    from outcome_grows [OF t(3) outcome_entry [OF u(2,4) s'(2)]]
    have "roam_outcome n a s ROAM_TRIGGER_SCAN [Ubus_invoke i ''rrm_beacon_req'' args] s'" by simp
    moreover have "usteer_roam_trigger_sm nrp a s = Some (Scan_request = Deauthenticate, s')"
      using 4 u(1) s'(1) by (auto simp: sm)
    ultimately show ?thesis
      by (rule sm_result_msgI) (auto intro: roam_edge.intros)
  qed
qed

lemma sm_wait:
  assumes wf: "wf_state s" and si: "si_heap s a = Some si" and loc: "si_node si = NLocal n"
    and st: "si_roam_state si = ROAM_TRIGGER_WAIT_KICK"
  shows "sm_result nrp n a s ROAM_TRIGGER_WAIT_KICK"
proof -
  have core: "wf_core s" using wf by (simp add: wf_state_def)
  from wf_core_entry [OF core si] obtain nd where nd: "get_node s (si_node si) = Some nd" by metis
  note sm = usteer_roam_trigger_sm_def si nd st
  show ?thesis
  proof (cases "sint (si_signal si) > sint (snr_to_signal nd (roam_trigger_snr (config s)))")
    case True
    with sm_stays [OF wf si st, of nrp s n] wf si show ?thesis by (simp add: sm)
  next
    case False
    let ?si = "roam_set_state (current_time s) ROAM_TRIGGER_NOTIFY_KICK si"
    from set_state_step [OF si, of ROAM_TRIGGER_NOTIFY_KICK] obtain u where
      u: "usteer_roam_set_state a ROAM_TRIGGER_NOTIFY_KICK s = Some u" "entry_step a s u" "out u = out s"
        "si_heap u = (si_heap s)(a \<mapsto> ?si)" by blast
    have "wf_core u" using entry_step_wf(2) [OF u(2) core] .
    moreover have "si_heap u a = Some ?si" "si_node ?si = NLocal n"
      using u(4) loc same_entry_roam [of a si "current_time s" ROAM_TRIGGER_NOTIFY_KICK]
      by (simp_all add: same_entry_def)
    ultimately obtain s' i args where s': "usteer_ubus_notify_client_disassoc nrp a u = Some s'"
      "entry_step a u s'" "si_heap s' = si_heap u"
      "out s' = out u @ [Ubus_invoke i ''wnm_disassoc_imminent'' args]"
      using notify_step by blast
    have e: "entry_step a s s'" using u(2) s'(2) by (rule entry_step_trans)
    have "roam_outcome n a s ROAM_TRIGGER_NOTIFY_KICK [Ubus_invoke i ''wnm_disassoc_imminent'' args] s'"
      using entry_step_wf(1) [OF e wf] client_step_entry [OF e] u(3,4) s'(3,4)
      by (simp add: roam_outcome_def)
    moreover have "usteer_roam_trigger_sm nrp a s = Some (Disassoc_imminent = Deauthenticate, s')"
      using False u(1) s'(1) by (simp add: sm)
    ultimately show ?thesis
      by (rule sm_result_msgI) (auto intro: roam_edge.intros)
  qed
qed

lemma sm_kick:
  assumes wf: "wf_state s" and si: "si_heap s a = Some si" and loc: "si_node si = NLocal n"
    and st: "si_roam_state si = ROAM_TRIGGER_KICK"
  shows "sm_result nrp n a s ROAM_TRIGGER_KICK"
proof -
  have core: "wf_core s" using wf by (simp add: wf_state_def)
  from wf_core_entry [OF core si] obtain nd where nd: "get_node s (si_node si) = Some nd" by metis
  from kick_step [OF core si loc] obtain u l where
    u: "usteer_ubus_kick_client a s = Some u" "entry_step a s u" "out u = out s @ [kick_message s l (si_sta si)]"
      "si_heap u = (si_heap s)(a \<mapsto> si\<lparr>si_connected := 0, si_roam_kick := current_time s\<rparr>)" by blast
  have "wf_state u" using entry_step_wf(1) [OF u(2) wf] .
  then obtain s' where s': "usteer_roam_set_state a ROAM_TRIGGER_IDLE u = Some s'"
    "roam_outcome n a u ROAM_TRIGGER_IDLE [] s'" using outcome_set_state u(4) by fastforce
  from outcome_entry [OF u(2,3) s'(2)]
  have "roam_outcome n a s ROAM_TRIGGER_IDLE [kick_message s l (si_sta si)] s'" by simp
  moreover have "usteer_roam_trigger_sm nrp a s = Some (Deauthenticate = Deauthenticate, s')"
    using u(1) s'(1) by (simp add: usteer_roam_trigger_sm_def si nd st)
  ultimately show ?thesis
    unfolding kick_message_def by (rule sm_result_msgI) (auto intro: roam_edge.intros)
qed

lemma sm_step:
  assumes wf: "wf_state s" and si: "si_heap s a = Some si" and loc: "si_node si = NLocal n"
  shows "sm_result nrp n a s (si_roam_state si)"
proof -
  have core: "wf_core s" using wf by (simp add: wf_state_def)
  from wf_core_entry [OF core si] obtain nd where nd: "get_node s (si_node si) = Some nd" by metis
  from sm_found [OF wf si loc] obtain b t where
    t: "find_better_candidate a s = Some (b, t)" "wf_state t" "only_grows (NLocal n) s t" "si_heap t a = Some si" .
  note set_found = grows_set_state [OF t(3,2,4)] and set_state = outcome_set_state [OF wf si, of _ n]
  note sm = usteer_roam_trigger_sm_def si nd t(1)
  show ?thesis
  proof (cases "si_roam_state si")
    case ROAM_TRIGGER_IDLE
    with set_found [of ROAM_TRIGGER_SCAN_DONE] set_found [of ROAM_TRIGGER_SCAN] show ?thesis
      by (cases b) (auto intro!: sm_resultI roam_edge.intros simp: sm)
  next
    case ROAM_TRIGGER_SCAN_DONE
    show ?thesis
    proof (cases "current_time s - si_roam_scan_done si > ucast (2 * roam_scan_interval (config s))")
      case True
      with set_state [of ROAM_TRIGGER_SCAN] ROAM_TRIGGER_SCAN_DONE show ?thesis
        by (auto intro!: sm_resultI roam_edge.intros simp: sm)
    next
      case False
      with set_found [of ROAM_TRIGGER_WAIT_KICK] sm_stays [OF wf si ROAM_TRIGGER_SCAN_DONE, of nrp t n] t
        ROAM_TRIGGER_SCAN_DONE show ?thesis
        by (cases b) (auto intro!: sm_resultI roam_edge.intros simp: sm)
    qed
  next
    case ROAM_TRIGGER_NOTIFY_KICK
    with set_state [of ROAM_TRIGGER_KICK] sm_stays [OF wf si ROAM_TRIGGER_NOTIFY_KICK, of nrp s n] wf si
    show ?thesis
      by (cases "current_time s - si_roam_event si < ucast (roam_kick_delay (config s) * 100)")
         (auto intro!: sm_resultI roam_edge.intros simp: sm)
  qed (use sm_scan [OF wf si loc] sm_wait [OF wf si loc] sm_kick [OF wf si loc] in simp_all)
qed

section \<open>Kick counts\<close>

fun is_kick :: "action \<Rightarrow> bool" where
  "is_kick (Ubus_invoke i method args) = (method = ''del_client'')"
| "is_kick _ = False"

fun is_disassoc :: "action \<Rightarrow> bool" where
  "is_disassoc (Ubus_invoke i method args) = (method = ''wnm_disassoc_imminent'')"
| "is_disassoc _ = False"

definition kicks :: "action list \<Rightarrow> nat" where
  "kicks msgs = length (filter is_kick msgs)"

definition disassocs :: "action list \<Rightarrow> nat" where
  "disassocs msgs = length (filter is_disassoc msgs)"

lemma counts_append [simp]:
  "kicks (xs @ ys) = kicks xs + kicks ys" "disassocs (xs @ ys) = disassocs xs + disassocs ys"
  "kicks [] = 0" "disassocs [] = 0"
  by (simp_all add: kicks_def disassocs_def)

lemma event_counts:
  assumes "roam_event_of msgs = Some ev"
  shows "kicks msgs = (if ev = Deauthenticate then 1 else 0)"
    and "disassocs msgs = (if ev = Disassoc_imminent then 1 else 0)"
  using assms by (cases msgs rule: roam_event_of.cases; auto simp: kicks_def disassocs_def split: if_splits)+

section \<open>The loops over a node's clients\<close>

definition node_step :: "string \<Rightarrow> usteer_state \<Rightarrow> usteer_state \<Rightarrow> bool" where
  "node_step n s s' \<longleftrightarrow> config s' = config s \<and> current_time s' = current_time s \<and> tq s' = tq s \<and>
     local_view s' = local_view s \<and> plain_node s' = plain_node s \<and>
     node_view s' (NLocal n) = node_view s (NLocal n) \<and>
     (\<forall>b sb. si_heap s b = Some sb \<longrightarrow> (\<exists>sb'. si_heap s' b = Some sb' \<and> same_entry b sb sb'))"

lemma node_step_refl [simp]: "node_step n s s"
  by (simp add: node_step_def)

lemma node_step_trans: "node_step n s t \<Longrightarrow> node_step n t u \<Longrightarrow> node_step n s u"
  unfolding node_step_def by (metis same_entry_trans)

lemma node_step_client:
  assumes "client_step n a s s'"
  shows "node_step n s s'"
  unfolding node_step_def
proof (intro conjI allI impI)
  fix b sb assume "si_heap s b = Some sb"
  with assms show "\<exists>sb'. si_heap s' b = Some sb' \<and> same_entry b sb sb'"
    by (cases "b = a") (auto simp: client_step_def)
qed (use assms in \<open>simp_all add: client_step_def\<close>)

text \<open>The entries of a list are clients of the local node \<open>n\<close>.\<close>

definition clients_of :: "string \<Rightarrow> usteer_state \<Rightarrow> nat list \<Rightarrow> bool" where
  "clients_of n s as \<longleftrightarrow> (\<forall>a \<in> set as. \<exists>si. si_heap s a = Some si \<and> si_node si = NLocal n)"

lemma clients_of_step: "clients_of n s as \<Longrightarrow> node_step n s s' \<Longrightarrow> clients_of n s' as"
  unfolding clients_of_def node_step_def same_entry_def by metis

lemma clients_of_node:
  assumes "wf_core s" "get_local s n = Some l"
  shows "clients_of n s (node_sta_info (ln_node l))"
  using wf_core_node(2) [OF assms(1), of "NLocal n"] assms(2) by (auto simp: clients_of_def)

lemma is_active_total:
  "kick_client_active_sec cfg \<noteq> 0 \<Longrightarrow> \<exists>b. is_active_client cfg si = Some b"
  by (simp add: is_active_client_def usteer_get_client_active_bits_def Let_def)

lemma roam_excluded_total:
  "kick_client_active_sec (config s) \<noteq> 0 \<Longrightarrow> \<exists>b. roam_excluded s m si = Some b"
  using is_active_total [of "config s" si] by (auto simp: roam_excluded_def split: bool.splits)

lemma roam_check_loop_total:
  assumes "wf_state s" "clients_of n s as" "kick_client_active_sec (config s) \<noteq> 0"
  shows "\<exists>s' msgs. roam_check_loop nrp m as s = Some s' \<and> wf_state s' \<and> node_step n s s' \<and>
    out s' = out s @ msgs \<and> kicks msgs \<le> 1"
  using assms
proof (induction as arbitrary: s)
  case (Cons a as)
  then obtain si where si: "si_heap s a = Some si" "si_node si = NLocal n" by (auto simp: clients_of_def)
  obtain ex where ex: "roam_excluded s m si = Some ex" using roam_excluded_total [OF Cons.prems(3)] by blast
  have rest: "\<exists>s' msgs. roam_check_loop nrp m as t = Some s' \<and> wf_state s' \<and> node_step n s s' \<and>
      out s' = out t @ msgs \<and> kicks msgs \<le> 1" if "wf_state t" "node_step n s t" for t
  proof -
    have "clients_of n t as" "config t = config s"
      using clients_of_step [OF Cons.prems(2) that(2)] that(2) by (auto simp: clients_of_def node_step_def)
    with Cons.IH [OF that(1)] Cons.prems(3) show ?thesis using node_step_trans [OF that(2)] by auto
  qed
  show ?case
  proof (cases ex)
    case True
    from outcome_set_state [OF Cons.prems(1) si(1), of ROAM_TRIGGER_IDLE n] obtain t where
      t: "usteer_roam_set_state a ROAM_TRIGGER_IDLE s = Some t" "wf_state t" "client_step n a s t" "out t = out s"
      by (auto simp: roam_outcome_def)
    with rest [OF t(2) node_step_client [OF t(3)]] True si ex show ?thesis by simp
  next
    case False
    from sm_step [OF Cons.prems(1) si, of nrp] obtain t st msgs ev where
      t: "usteer_roam_trigger_sm nrp a s = Some (ev = Deauthenticate, t)" "wf_state t"
        "client_step n a s t" "out t = out s @ msgs" "roam_event_of msgs = Some ev"
      by (auto simp: sm_result_def roam_outcome_def)
    note ns = node_step_client [OF t(3)]
    show ?thesis
    proof (cases "ev = Deauthenticate")
      case True
      with t ns False si ex event_counts(1) [OF t(5)] show ?thesis by auto
    next
      case noisy: False
      from rest [OF t(2) ns] obtain s' ms where
        "roam_check_loop nrp m as t = Some s'" "wf_state s'" "node_step n s s'" "out s' = out t @ ms" "kicks ms \<le> 1"
        by blast
      with t noisy False si ex event_counts(1) [OF t(5)] show ?thesis
        by (intro exI [of _ s'] exI [of _ "msgs @ ms"]) simp
    qed
  qed
qed auto

text \<open>The loop on weak clients kicks the first that qualifies.\<close>

definition snr_victim :: "usteer_state \<Rightarrow> s32 \<Rightarrow> nat \<Rightarrow> bool" where
  "snr_victim s min_signal a \<longleftrightarrow> (\<exists>si. si_heap s a = Some si \<and> si_connected si \<noteq> 0 \<and>
     is_active_client (config s) si = Some False \<and> sint (si_signal si) < sint min_signal)"

lemma snr_kick_loop_find:
  assumes "clients_of n s as" "kick_client_active_sec (config s) \<noteq> 0"
  shows "snr_kick_loop m as s =
    (case List.find (snr_victim s m) as of None \<Rightarrow> Some s | Some a \<Rightarrow> kick_counted a s)"
  using assms(1)
proof (induction as)
  case (Cons a as)
  then obtain si where si: "si_heap s a = Some si" by (auto simp: clients_of_def)
  obtain act where act: "is_active_client (config s) si = Some act" using is_active_total [OF assms(2)] by blast
  have "snr_victim s m a \<longleftrightarrow> si_connected si \<noteq> 0 \<and> \<not> act \<and> sint (si_signal si) < sint m"
    using si act by (simp add: snr_victim_def)
  with Cons si act show ?case by (simp add: clients_of_def)
qed simp

lemma kick_counted_step:
  assumes "wf_core s" "si_heap s a = Some si" "si_node si = NLocal n"
  shows "\<exists>s' l. kick_counted a s = Some s' \<and> entry_step a s s' \<and> get_local s n = Some l \<and>
    out s' = out s @ [kick_message s l (si_sta si)] \<and>
    si_heap s' = (si_heap s)(a \<mapsto> si\<lparr>si_kick_count := si_kick_count si + 1, si_connected := 0,
                                     si_roam_kick := current_time s\<rparr>)"
proof -
  let ?f = "\<lambda>si. si\<lparr>si_kick_count := si_kick_count si + 1\<rparr>"
  obtain t where t: "upd_si a ?f s = Some t" using assms(2) by (simp add: upd_si_def)
  with entry_step_upd_si [OF assms(2), of ?f] have e: "entry_step a s t" "si_heap t a = Some (?f si)"
    by (auto simp: same_entry_def)
  have eq: "t = s\<lparr>si_heap := (si_heap s)(a \<mapsto> ?f si)\<rparr>" using t assms(2) by (auto simp: upd_si_Some)
  have "wf_core t" "si_node (?f si) = NLocal n" using entry_step_wf(2) [OF e(1) assms(1)] assms(3) by simp_all
  from kick_step [OF this(1) e(2) this(2)] obtain s' l where
    s': "usteer_ubus_kick_client a t = Some s'" "entry_step a t s'" "get_local t n = Some l"
      "out s' = out t @ [kick_message t l (si_sta si)]"
      "si_heap s' = (si_heap t)(a \<mapsto> (?f si)\<lparr>si_connected := 0, si_roam_kick := current_time t\<rparr>)"
    by auto
  have "kick_message t l (si_sta si) = kick_message s l (si_sta si)" by (simp add: kick_message_def eq)
  with s' t e(1) show ?thesis
    by (auto simp: kick_counted_def eq intro: entry_step_trans)
qed

lemma kicks_kick_message [simp]: "kicks [kick_message s l m] = 1"
  by (simp add: kicks_def kick_message_def)

subsection \<open>The load kick\<close>

text \<open>The running choice of the loop, and the clients it looks at.\<close>

definition pick :: "usteer_state \<Rightarrow> nat option \<Rightarrow> nat \<Rightarrow> nat option" where
  "pick s k a = (case si_heap s a of None \<Rightarrow> k
     | Some si \<Rightarrow> if is_more_kickable (Option.bind k (si_heap s)) si then Some a else k)"

definition kickable :: "usteer_state \<Rightarrow> nat \<Rightarrow> bool" where
  "kickable s a \<longleftrightarrow> (\<exists>si. si_heap s a = Some si \<and> si_connected si \<noteq> 0 \<and>
     is_active_client (config s) si = Some False)"

definition kick_le :: "sta_info \<Rightarrow> sta_info \<Rightarrow> bool" where
  "kick_le x y \<longleftrightarrow> sint (si_kick_count x) \<le> sint (si_kick_count y) \<and> sint (si_signal x) \<le> sint (si_signal y)"

lemma kick_le_simps:
  "kick_le x x" "kick_le x y \<Longrightarrow> kick_le y z \<Longrightarrow> kick_le x z"
  "is_more_kickable (Some x) y \<Longrightarrow> kick_le y x"
  "kick_le x y \<Longrightarrow> \<not> is_more_kickable (Some x) y"
  "kick_le x y \<Longrightarrow> \<not> is_more_kickable (Some y) z \<Longrightarrow> \<not> is_more_kickable (Some x) z"
  by (auto simp: kick_le_def split: if_splits)

text \<open>No client of the list is more kickable than the chosen one.\<close>

lemma pick_undominated:
  assumes "\<forall>a \<in> set as. si_heap s a \<noteq> None" "foldl (pick s) k as = Some f"
    and "\<forall>c. k = Some c \<longrightarrow> si_heap s c \<noteq> None"
  shows "\<exists>sf. si_heap s f = Some sf \<and> (f \<in> set as \<or> k = Some f) \<and>
    (\<forall>a \<in> set as. \<forall>si. si_heap s a = Some si \<longrightarrow> \<not> is_more_kickable (Some sf) si) \<and>
    (\<forall>c sc. k = Some c \<longrightarrow> si_heap s c = Some sc \<longrightarrow> kick_le sf sc)"
  using assms
proof (induction as arbitrary: k)
  case Nil
  then show ?case by (auto simp: kick_le_simps)
next
  case (Cons a as)
  then obtain si where si: "si_heap s a = Some si" by auto
  let ?k = "pick s k a"
  have "\<forall>c. ?k = Some c \<longrightarrow> si_heap s c \<noteq> None" using Cons.prems(3) si by (auto simp: pick_def)
  with Cons.IH [of ?k] Cons.prems(1,2) obtain sf where
    sf: "si_heap s f = Some sf" "f \<in> set as \<or> ?k = Some f"
      "\<forall>b \<in> set as. \<forall>x. si_heap s b = Some x \<longrightarrow> \<not> is_more_kickable (Some sf) x"
      "\<forall>c sc. ?k = Some c \<longrightarrow> si_heap s c = Some sc \<longrightarrow> kick_le sf sc" by auto
  have "\<not> is_more_kickable (Some sf) si \<and> (\<forall>c sc. k = Some c \<longrightarrow> si_heap s c = Some sc \<longrightarrow> kick_le sf sc)"
  proof (cases "is_more_kickable (Option.bind k (si_heap s)) si")
    case True
    then have "?k = Some a" using si by (simp add: pick_def)
    with sf(4) si have le: "kick_le sf si" by simp
    moreover have "kick_le si sc" if "k = Some c" "si_heap s c = Some sc" for c sc
      using that True kick_le_simps(3) by simp
    ultimately show ?thesis using kick_le_simps(2,4) by blast
  next
    case False
    then have k: "?k = k" using si by (simp add: pick_def)
    from False obtain c where c: "k = Some c" by (cases k) auto
    then obtain sc where sc: "si_heap s c = Some sc" using Cons.prems(3) by auto
    with sf(4) k c have "kick_le sf sc" by simp
    moreover have "\<not> is_more_kickable (Some sc) si" using False c sc by simp
    ultimately have "\<not> is_more_kickable (Some sf) si" by (rule kick_le_simps(5))
    with sf(4) k show ?thesis by simp
  qed
  moreover have "f \<in> set (a # as) \<or> k = Some f" using sf(2) si by (auto simp: pick_def split: if_splits)
  ultimately show ?case using sf(1,3) si by auto
qed

lemma pick_cong:
  "only_grows r s t \<Longrightarrow> si_heap s a \<noteq> None \<Longrightarrow> (\<forall>c. k = Some c \<longrightarrow> si_heap s c \<noteq> None) \<Longrightarrow>
   pick t k a = pick s k a"
  by (cases k) (auto simp: pick_def only_grows_def)

lemma foldl_pick_cong:
  assumes "only_grows r s t" "\<forall>a \<in> set as. si_heap s a \<noteq> None" "\<forall>c. k = Some c \<longrightarrow> si_heap s c \<noteq> None"
  shows "foldl (pick t) k as = foldl (pick s) k as"
  using assms(2,3)
proof (induction as arbitrary: k)
  case (Cons a as)
  have "pick t k a = pick s k a" using pick_cong [OF assms(1)] Cons.prems by simp
  moreover have "\<forall>c. pick s k a = Some c \<longrightarrow> si_heap s c \<noteq> None"
    using Cons.prems by (auto simp: pick_def split: option.splits)
  ultimately show ?case using Cons by simp
qed simp

lemma kickable_cong: "only_grows r s t \<Longrightarrow> si_heap s a \<noteq> None \<Longrightarrow> kickable t a = kickable s a"
  by (auto simp: kickable_def only_grows_def frame_eq_def)

text \<open>
  The loop chooses \<open>kick1\<close> among all kickable clients and \<open>kick2\<close> among those for which it found
  a better candidate.
\<close>

definition has_candidate :: "string \<Rightarrow> usteer_state \<Rightarrow> nat \<Rightarrow> bool \<Rightarrow> bool" where
  "has_candidate n s a found \<longleftrightarrow> (\<exists>t b t'. only_grows (NLocal n) s t \<and>
     find_better_candidate a t = Some (b, t') \<and> found = (b \<noteq> None))"

lemma has_candidate_grows: "only_grows (NLocal n) s t \<Longrightarrow> has_candidate n t a f \<Longrightarrow> has_candidate n s a f"
  unfolding has_candidate_def by (blast intro: only_grows_trans)

lemma pick_live:
  "si_heap s a \<noteq> None \<Longrightarrow> \<forall>c. k = Some c \<longrightarrow> si_heap s c \<noteq> None \<Longrightarrow>
   \<forall>c. pick s k a = Some c \<longrightarrow> si_heap s c \<noteq> None"
  by (auto simp: pick_def split: option.splits)

lemma load_kick_loop_cons:
  assumes si: "si_heap s a = Some si" and act: "kick_client_active_sec (config s) \<noteq> 0"
    and fbc: "find_better_candidate a s = Some (b, t)" and grows: "only_grows r s t"
    and k2: "\<forall>c. k2 = Some c \<longrightarrow> si_heap s c \<noteq> None"
  shows "load_kick_loop (a # as) k1 k2 s =
    (if kickable s a then load_kick_loop as (pick s k1 a) (if b = None then k2 else pick s k2 a) t
     else load_kick_loop as k1 k2 s)"
proof -
  obtain c where c: "is_active_client (config s) si = Some c" using is_active_total [OF act] by blast
  have "pick t k2 a = pick s k2 a" using pick_cong [OF grows _ k2] si by simp
  then have "(if is_more_kickable (Option.bind k2 (si_heap t)) si then Some a else k2) = pick s k2 a"
    using si grows by (simp add: pick_def only_grows_def)
  moreover have "kickable s a \<longleftrightarrow> si_connected si \<noteq> 0 \<and> \<not> c" using si c by (simp add: kickable_def)
  moreover have "(if is_more_kickable (Option.bind k1 (si_heap s)) si then Some a else k1) = pick s k1 a"
    using si by (simp add: pick_def)
  ultimately show ?thesis using si c fbc by (simp add: Let_def)
qed

lemma load_kick_loop_total:
  assumes "wf_state s" "clients_of n s as" "kick_client_active_sec (config s) \<noteq> 0" "distinct as"
    and "\<forall>c. k1 = Some c \<longrightarrow> si_heap s c \<noteq> None" "\<forall>c. k2 = Some c \<longrightarrow> si_heap s c \<noteq> None"
  shows "\<exists>s' P. load_kick_loop as k1 k2 s =
      Some (foldl (pick s) k1 (filter (kickable s) as),
            foldl (pick s) k2 (filter P (filter (kickable s) as)), s') \<and>
    wf_state s' \<and> only_grows (NLocal n) s s' \<and>
    (\<forall>a \<in> set as. kickable s a \<longrightarrow> has_candidate n s a (P a))"
  using assms
proof (induction as arbitrary: s k1 k2)
  case (Cons a as)
  then obtain si where si: "si_heap s a = Some si" "si_node si = NLocal n" by (auto simp: clients_of_def)
  from candidate_total [OF Cons.prems(1) si(1)] si(2) obtain b t where
    t: "find_better_candidate a s = Some (b, t)" "wf_state t" "only_grows (NLocal n) s t" by auto
  note eq = load_kick_loop_cons [OF si(1) Cons.prems(3) t(1,3) Cons.prems(6), of as k1]
  show ?case
  proof (cases "kickable s a")
    case False
    have "clients_of n s as" "distinct as" using Cons.prems(2,4) by (auto simp: clients_of_def)
    from Cons.IH [OF Cons.prems(1) this(1) Cons.prems(3) this(2) Cons.prems(5,6)] eq False
    show ?thesis by (auto cong: filter_cong)
  next
    case True
    let ?k1 = "pick s k1 a" and ?k2 = "if b = None then k2 else pick s k2 a"
    have live: "\<forall>x \<in> set (a # as). si_heap s x \<noteq> None" using Cons.prems(2) by (auto simp: clients_of_def)
    have keep: "\<And>x. si_heap s x \<noteq> None \<Longrightarrow> si_heap t x = si_heap s x" and cfg: "config t = config s"
      using t(3) by (auto simp: only_grows_def frame_eq_def)
    have kl: "\<forall>c. ?k1 = Some c \<longrightarrow> si_heap s c \<noteq> None" "\<forall>c. ?k2 = Some c \<longrightarrow> si_heap s c \<noteq> None"
      using pick_live [of s a] si Cons.prems(5,6) by auto
    have "clients_of n t as" using Cons.prems(2) keep by (auto simp: clients_of_def)
    moreover have "\<forall>c. ?k1 = Some c \<longrightarrow> si_heap t c \<noteq> None" "\<forall>c. ?k2 = Some c \<longrightarrow> si_heap t c \<noteq> None"
      using kl keep by metis+
    ultimately obtain s' P where s': "load_kick_loop as ?k1 ?k2 t =
        Some (foldl (pick t) ?k1 (filter (kickable t) as),
              foldl (pick t) ?k2 (filter P (filter (kickable t) as)), s')"
      "wf_state s'" "only_grows (NLocal n) t s'" "\<forall>x \<in> set as. kickable t x \<longrightarrow> has_candidate n t x (P x)"
      using Cons.IH [OF t(2), of ?k1 ?k2] Cons.prems(3,4) cfg by auto
    have kb: "filter (kickable t) as = filter (kickable s) as"
      using kickable_cong [OF t(3)] live by (auto intro: filter_cong)
    have fold: "foldl (pick t) k xs = foldl (pick s) k xs"
      if "set xs \<subseteq> set as" "\<forall>c. k = Some c \<longrightarrow> si_heap s c \<noteq> None" for k xs
      using foldl_pick_cong [OF t(3), of xs k] that live by auto
    let ?P = "P(a := (b \<noteq> None))"
    have P: "filter ?P (filter (kickable s) as) = filter P (filter (kickable s) as)"
      using Cons.prems(4) by (auto intro!: filter_cong)
    have "load_kick_loop (a # as) k1 k2 s = Some (foldl (pick s) k1 (filter (kickable s) (a # as)),
        foldl (pick s) k2 (filter ?P (filter (kickable s) (a # as))), s')"
    proof -
      let ?F = "filter (kickable s) as"
      have F: "filter (kickable s) (a # as) = a # ?F" using True by simp
      have PF: "filter ?P (a # ?F) = (if b = None then filter P ?F else a # filter P ?F)"
        using P by (cases b) (simp_all del: filter_filter)
      have "foldl (pick t) ?k1 ?F = foldl (pick s) ?k1 ?F"
        "foldl (pick t) ?k2 (filter P ?F) = foldl (pick s) ?k2 (filter P ?F)"
        using fold [OF _ kl(1), of ?F] fold [OF _ kl(2), of "filter P ?F"] by auto
      then show ?thesis
        unfolding eq if_P [OF True] s'(1) kb F PF by (cases b) (simp_all del: filter_filter)
    qed
    moreover have "only_grows (NLocal n) s s'" using t(3) s'(3) by (rule only_grows_trans)
    moreover have "\<forall>x \<in> set (a # as). kickable s x \<longrightarrow> has_candidate n s x (?P x)"
    proof -
      have "has_candidate n s a (b \<noteq> None)" unfolding has_candidate_def
        using t(1) by (intro exI [of _ s] exI [of _ b] exI [of _ t]) simp
      moreover have "has_candidate n s x (P x)" if "x \<in> set as" "kickable s x" for x
        using that s'(4) kickable_cong [OF t(3), of x] live has_candidate_grows [OF t(3)] by simp
      ultimately show ?thesis using Cons.prems(4) by auto
    qed
    ultimately show ?thesis using s'(2) by (intro exI [of _ s'] exI [of _ ?P]) blast
  qed
qed simp

section \<open>The three checks on a node\<close>

text \<open>Counter updates of a local node leave everything else alone.\<close>

lemma upd_local_counter:
  assumes "\<And>l. ln_node (f l) = ln_node l"
  shows "wf_state (upd_local n f s) = wf_state s" "si_heap (upd_local n f s) = si_heap s"
    "config (upd_local n f s) = config s" "out (upd_local n f s) = out s"
    "get_node (upd_local n f s) = get_node s"
proof -
  have node: "get_node (upd_local n f s) r = get_node s r" for r
    using assms by (cases r) (auto simp: upd_local_def get_local_def get_remote_def option.map_comp comp_def)
  then show "get_node (upd_local n f s) = get_node s" by blast
  show "wf_state (upd_local n f s) = wf_state s"
    by (rule wf_cong) (simp_all add: sta_view_def node_view_def get_sta_def fun_eq_iff node keys_ok_def,
        simp_all add: upd_local_def get_sta_def)
qed (simp_all add: upd_local_def)

lemma roam_check_total:
  assumes "wf_state s" "get_local s n = Some l" "kick_client_active_sec (config s) \<noteq> 0"
  shows "\<exists>s' msgs. usteer_local_node_roam_check nrp clk n s = Some s' \<and> wf_state s' \<and>
    (\<exists>t. node_step n (s\<lparr>current_time := t\<rparr>) s') \<and> out s' = out s @ msgs \<and> kicks msgs \<le> 1"
proof -
  let ?snr = "if roam_scan_snr (config s) \<noteq> 0 then roam_scan_snr (config s) else roam_trigger_snr (config s)"
  let ?s = "s\<lparr>current_time := clk\<rparr>"
  show ?thesis
  proof (cases "?snr = 0")
    case True
    then have "usteer_local_node_roam_check nrp clk n s = Some s"
      by (simp add: usteer_local_node_roam_check_def Let_def)
    with assms(1) show ?thesis
      by (intro exI [of _ s] exI [of _ "[]"]) (auto intro: exI [of _ "current_time s"])
  next
    case False
    have wf: "wf_state ?s" using assms(1) by simp
    then have core: "wf_core ?s" by (simp add: wf_state_def)
    have l: "get_local ?s n = Some l" using assms(2) by simp
    have c: "clients_of n ?s (node_sta_info (ln_node l))" by (rule clients_of_node [OF core l])
    have k: "kick_client_active_sec (config ?s) \<noteq> 0" using assms(3) by simp
    from roam_check_loop_total [OF wf c k, of nrp "snr_to_signal (ln_node l) ?snr"] obtain s' msgs where
      "roam_check_loop nrp (snr_to_signal (ln_node l) ?snr) (node_sta_info (ln_node l)) ?s = Some s'"
      "wf_state s'" "node_step n ?s s'" "out s' = out s @ msgs" "kicks msgs \<le> 1" by auto
    with False assms(2) show ?thesis
      by (intro exI [of _ s'] exI [of _ msgs]) (auto simp: usteer_local_node_roam_check_def Let_def)
  qed
qed

lemma snr_kick_total:
  assumes "wf_state s" "get_local s n = Some l" "kick_client_active_sec (config s) \<noteq> 0"
  shows "\<exists>s' msgs. usteer_local_node_snr_kick n s = Some s' \<and> wf_state s' \<and> node_step n s s' \<and>
    out s' = out s @ msgs \<and> kicks msgs \<le> 1"
proof -
  have core: "wf_core s" using assms(1) by (simp add: wf_state_def)
  let ?m = "snr_to_signal (ln_node l) (min_snr (config s))"
  let ?as = "node_sta_info (ln_node l)"
  have c: "clients_of n s ?as" by (rule clients_of_node [OF core assms(2)])
  note loop = snr_kick_loop_find [OF c assms(3), of ?m]
  consider "min_snr (config s) = 0 \<or> List.find (snr_victim s ?m) ?as = None"
    | a where "min_snr (config s) \<noteq> 0" "List.find (snr_victim s ?m) ?as = Some a" by fastforce
  then show ?thesis
  proof cases
    case 1
    then have "usteer_local_node_snr_kick n s = Some s"
      using assms(2) loop by (auto simp: usteer_local_node_snr_kick_def Let_def)
    with assms(1) show ?thesis by (intro exI [of _ s] exI [of _ "[]"]) simp
  next
    case 2
    then have "a \<in> set ?as" by (auto simp: find_Some_iff)
    with c obtain si where si: "si_heap s a = Some si" "si_node si = NLocal n" by (auto simp: clients_of_def)
    from kick_counted_step [OF core si] obtain s' l' where
      s': "kick_counted a s = Some s'" "entry_step a s s'" "out s' = out s @ [kick_message s l' (si_sta si)]"
      by blast
    moreover have "usteer_local_node_snr_kick n s = Some s'"
      using 2 assms(2) loop s'(1) by (simp add: usteer_local_node_snr_kick_def Let_def)
    ultimately show ?thesis
      using entry_step_wf(1) [OF s'(2) assms(1)] node_step_client [OF client_step_entry [OF s'(2)]]
      by (intro exI [of _ s'] exI [of _ "[kick_message s l' (si_sta si)]"]) simp
  qed
qed

lemma node_step_local:
  assumes "node_step n s s'" "get_local s n = Some l"
  obtains l' where "get_local s' n = Some l'"
proof -
  have "local_view s' n = local_view s n" using assms(1) by (simp add: node_step_def)
  with assms(2) that show ?thesis by (auto simp: local_view_def)
qed

text \<open>The client that the load check kicks, if it comes to that.\<close>

definition load_kick_target :: "string \<Rightarrow> usteer_state \<Rightarrow> nat list \<Rightarrow> nat \<Rightarrow> bool" where
  "load_kick_target n s as a \<longleftrightarrow> (\<exists>P. (\<forall>x \<in> set as. kickable s x \<longrightarrow> has_candidate n s x (P x)) \<and>
     (case foldl (pick s) None (filter P (filter (kickable s) as)) of
        Some k2 \<Rightarrow> a = k2
      | None \<Rightarrow> foldl (pick s) None (filter (kickable s) as) = Some a))"

lemma foldl_pick_Some:
  "\<forall>a \<in> set as. si_heap s a \<noteq> None \<Longrightarrow> as \<noteq> [] \<or> k \<noteq> None \<Longrightarrow> foldl (pick s) k as \<noteq> None"
proof (induction as arbitrary: k)
  case (Cons a as)
  have "pick s k a \<noteq> None" using Cons.prems by (cases k) (auto simp: pick_def)
  with Cons show ?case by simp
qed simp

lemma kickable_live: "kickable s a \<Longrightarrow> si_heap s a \<noteq> None"
  by (auto simp: kickable_def)

text \<open>Which client it is: kickable, and undominated among those it competes with.\<close>

lemma load_kick_target_spec:
  assumes "load_kick_target n s as a"
  shows "\<exists>si P. si_heap s a = Some si \<and> a \<in> set as \<and> kickable s a \<and>
    (\<forall>x \<in> set as. kickable s x \<longrightarrow> has_candidate n s x (P x)) \<and>
    ((\<exists>x \<in> set as. kickable s x \<and> P x) \<longrightarrow> P a) \<and>
    (\<forall>x \<in> set as. \<forall>sx. kickable s x \<longrightarrow> (P a \<longrightarrow> P x) \<longrightarrow> si_heap s x = Some sx \<longrightarrow>
       \<not> is_more_kickable (Some si) sx)"
proof -
  from assms obtain P where P: "\<forall>x \<in> set as. kickable s x \<longrightarrow> has_candidate n s x (P x)"
    and t: "case foldl (pick s) None (filter P (filter (kickable s) as)) of
        Some k2 \<Rightarrow> a = k2 | None \<Rightarrow> foldl (pick s) None (filter (kickable s) as) = Some a"
    by (auto simp: load_kick_target_def)
  let ?F = "filter (kickable s) as"
  show ?thesis
  proof (cases "foldl (pick s) None (filter P ?F)")
    case None
    with foldl_pick_Some [of "filter P ?F" s None] kickable_live have none: "filter P ?F = []" by auto
    from t None have "foldl (pick s) None ?F = Some a" by simp
    from pick_undominated [OF _ this] kickable_live obtain si where
      "si_heap s a = Some si" "a \<in> set ?F"
      "\<forall>x \<in> set ?F. \<forall>sx. si_heap s x = Some sx \<longrightarrow> \<not> is_more_kickable (Some si) sx" by auto
    with P none show ?thesis
      by (intro exI [of _ si] exI [of _ P]) (auto simp: filter_empty_conv)
  next
    case (Some k2)
    with t have "foldl (pick s) None (filter P ?F) = Some a" by simp
    from pick_undominated [OF _ this] kickable_live obtain si where
      "si_heap s a = Some si" "a \<in> set (filter P ?F)"
      "\<forall>x \<in> set (filter P ?F). \<forall>sx. si_heap s x = Some sx \<longrightarrow> \<not> is_more_kickable (Some si) sx" by auto
    with P show ?thesis
      by (intro exI [of _ si] exI [of _ P]) auto
  qed
qed

lemma upd_local_twice [simp]: "upd_local n f (upd_local n g s) = upd_local n (f \<circ> g) s"
  by (auto simp: upd_local_def dict_modify_def comp_def case_prod_unfold)

lemma get_local_upd_local [simp]:
  "get_local (upd_local n f s) n' = (if n' = n then map_option f (get_local s n) else get_local s n')"
  by (simp add: upd_local_def get_local_def)

lemma kick_target_step:
  assumes wf: "wf_state s" and l: "get_local s n = Some l" and act: "kick_client_active_sec (config s) \<noteq> 0"
  shows "\<exists>k1 k2 t. load_kick_loop (node_sta_info (ln_node l)) None None s = Some (k1, k2, t) \<and>
    (case k1 of
       None \<Rightarrow> wf_state t \<and> out t = out s
     | Some c1 \<Rightarrow> \<exists>a si s'. a = (case k2 of None \<Rightarrow> c1 | Some c2 \<Rightarrow> c2) \<and>
         load_kick_target n s (node_sta_info (ln_node l)) a \<and> si_heap s a = Some si \<and>
         kick_counted a t = Some s' \<and> wf_state s' \<and> out s' = out s @ [kick_message s l (si_sta si)])"
proof -
  let ?as = "node_sta_info (ln_node l)"
  have core: "wf_core s" using wf by (simp add: wf_state_def)
  have c: "clients_of n s ?as" by (rule clients_of_node [OF core l])
  have "get_node s (NLocal n) = Some (ln_node l)" using l by simp
  then have d: "distinct ?as" by (rule wf_core_node(1) [OF core])
  from load_kick_loop_total [OF wf c act d, of None None] obtain t P where
    t: "load_kick_loop ?as None None s = Some (foldl (pick s) None (filter (kickable s) ?as),
          foldl (pick s) None (filter P (filter (kickable s) ?as)), t)"
      "wf_state t" "only_grows (NLocal n) s t" "\<forall>a \<in> set ?as. kickable s a \<longrightarrow> has_candidate n s a (P a)" by auto
  let ?k1 = "foldl (pick s) None (filter (kickable s) ?as)"
  let ?k2 = "foldl (pick s) None (filter P (filter (kickable s) ?as))"
  show ?thesis
  proof (cases ?k1)
    case None
    with t show ?thesis by (auto simp: only_grows_def frame_eq_def)
  next
    case (Some c1)
    let ?a = "case ?k2 of None \<Rightarrow> c1 | Some c2 \<Rightarrow> c2"
    have target: "load_kick_target n s ?as ?a"
      using t(4) Some by (auto simp: load_kick_target_def split: option.splits)
    with load_kick_target_spec obtain si where si: "si_heap s ?a = Some si" "?a \<in> set ?as" by blast
    with c have loc: "si_node si = NLocal n" by (auto simp: clients_of_def)
    have sit: "si_heap t ?a = Some si" using si t(3) by (simp add: only_grows_def)
    have "wf_core t" using t(2) by (simp add: wf_state_def)
    from kick_counted_step [OF this sit loc] obtain s' l' where
      s': "kick_counted ?a t = Some s'" "entry_step ?a t s'" "get_local t n = Some l'"
        "out s' = out t @ [kick_message t l' (si_sta si)]" by blast
    have "local_view t n = local_view s n" "config t = config s" "out t = out s"
      using t(3) by (simp_all add: only_grows_def frame_eq_def)
    moreover from this(1) l s'(3) have "ln_obj_id l' = ln_obj_id l"
      by (cases l; cases l') (simp add: local_view_def)
    ultimately have "out s' = out s @ [kick_message s l (si_sta si)]"
      using s'(4) by (simp add: kick_message_def)
    with Some t target si s' entry_step_wf(1) [OF s'(2) t(2)] show ?thesis by auto
  qed
qed

text \<open>All conditions under which the load check kicks.\<close>

definition load_kick_due :: "usteer_config \<Rightarrow> usteer_local_node \<Rightarrow> bool" where
  "load_kick_due cfg l \<longleftrightarrow> load_kick_enabled cfg \<and> load_kick_threshold cfg \<noteq> 0 \<and> load_kick_delay cfg \<noteq> 0 \<and>
     load_kick_threshold cfg \<le> node_load (ln_node l) \<and>
     (load_kick_delay cfg + local_sta_update cfg - 1) div local_sta_update cfg < ln_load_thr_count l + 1 \<and>
     load_kick_min_clients cfg \<le> node_n_assoc (ln_node l)"

lemma load_kick_total:
  assumes wf: "wf_state s" and l: "get_local s n = Some l" and act: "kick_client_active_sec (config s) \<noteq> 0"
    and upd: "local_sta_update (config s) \<noteq> 0"
  shows "\<exists>s'. usteer_local_node_load_kick n s = Some s' \<and> wf_state s' \<and>
    (out s' = out s \<or>
     (load_kick_due (config s) l \<and>
      (\<exists>a si t. t = upd_local n (\<lambda>l. l\<lparr>ln_load_thr_count := 0\<rparr>) s \<and>
         load_kick_target n t (node_sta_info (ln_node l)) a \<and> si_heap s a = Some si \<and>
         out s' = out s @ [kick_message s l (si_sta si)])))"
proof -
  let ?t = "upd_local n (\<lambda>l. l\<lparr>ln_load_thr_count := 0\<rparr>) s"
  let ?l = "l\<lparr>ln_load_thr_count := 0\<rparr>"
  have t: "wf_state ?t" "si_heap ?t = si_heap s" "config ?t = config s" "out ?t = out s"
    using wf by (simp_all add: upd_local_counter)
  have lt: "get_local ?t n = Some ?l" using l by simp
  have actt: "kick_client_active_sec (config ?t) \<noteq> 0" using act t(3) by simp
  have quiet: "wf_state (upd_local n (\<lambda>l. l\<lparr>ln_load_thr_count := ln_load_thr_count l + 1\<rparr>) s)"
      "out (upd_local n (\<lambda>l. l\<lparr>ln_load_thr_count := ln_load_thr_count l + 1\<rparr>) s) = out s"
    using wf by (simp_all add: upd_local_counter)
  have km: "kick_message ?t ?l m = kick_message s l m" for m by (simp add: kick_message_def t(3))
  note def = usteer_local_node_load_kick_def Let_def l DIV_ROUND_UP_def upd
  show ?thesis
  proof (cases "load_kick_due (config s) l")
    case False
    then show ?thesis
      using wf t quiet by (auto simp: def load_kick_due_def not_less not_le comp_def)
  next
    case True
    then have run: "usteer_local_node_load_kick n s =
        Option.bind (load_kick_loop (node_sta_info (ln_node l)) None None ?t)
          (\<lambda>(k1, k2, s). case k1 of None \<Rightarrow> Some s
             | Some k1 \<Rightarrow> kick_counted (case k2 of None \<Rightarrow> k1 | Some k2 \<Rightarrow> k2) s)"
      by (auto simp: def load_kick_due_def not_less not_le comp_def)
    have ln: "ln_node ?l = ln_node l" by simp
    from kick_target_step [OF t(1) lt actt, unfolded ln] obtain k1 k2 u where
      u: "load_kick_loop (node_sta_info (ln_node l)) None None ?t = Some (k1, k2, u)"
      and k: "case k1 of None \<Rightarrow> wf_state u \<and> out u = out ?t
         | Some c1 \<Rightarrow> \<exists>a si s'. a = (case k2 of None \<Rightarrow> c1 | Some c2 \<Rightarrow> c2) \<and>
             load_kick_target n ?t (node_sta_info (ln_node l)) a \<and> si_heap ?t a = Some si \<and>
             kick_counted a u = Some s' \<and> wf_state s' \<and> out s' = out ?t @ [kick_message ?t ?l (si_sta si)]"
      by blast
    show ?thesis
      using k True t unfolding run u km by (cases k1) auto
  qed
qed

section \<open>Runs of the state machine\<close>

text \<open>
  The life of one client of the local node \<open>n\<close> as the state machine sees it: calls of the state
  machine, resets by the roaming check, the clock, and any change of the entry that leaves the
  roaming state alone (signals, connection, reports, statistics).
\<close>

inductive roam_run :: "nr_parser \<Rightarrow> nat \<Rightarrow> usteer_state \<Rightarrow> usteer_state \<Rightarrow> bool" for nrp a where
  start: "roam_run nrp a s s"
| machine: "roam_run nrp a s t \<Longrightarrow> usteer_roam_trigger_sm nrp a t = Some (kicked, u) \<Longrightarrow> roam_run nrp a s u"
| reset: "roam_run nrp a s t \<Longrightarrow> usteer_roam_set_state a ROAM_TRIGGER_IDLE t = Some u \<Longrightarrow> roam_run nrp a s u"
| clock: "roam_run nrp a s t \<Longrightarrow> roam_run nrp a s (t\<lparr>current_time := now\<rparr>)"
| other: "roam_run nrp a s t \<Longrightarrow> si_heap t a = Some si \<Longrightarrow> same_entry a si si' \<Longrightarrow>
    si_roam_state si' = si_roam_state si \<Longrightarrow> roam_run nrp a s (t\<lparr>si_heap := (si_heap t)(a \<mapsto> si')\<rparr>)"

text \<open>A notification that has not yet led to a kick.\<close>

fun notified :: "roam_trigger_state \<Rightarrow> nat" where
  "notified ROAM_TRIGGER_NOTIFY_KICK = 1"
| "notified ROAM_TRIGGER_KICK = 1"
| "notified _ = 0"

lemma edge_notified:
  "roam_edge st ev st' \<Longrightarrow>
   (if ev = Deauthenticate then 1 else 0) + notified st' \<le> notified st + (if ev = Disassoc_imminent then 1 else 0)"
  by (induction rule: roam_edge.induct) auto

definition run_inv :: "string \<Rightarrow> nat \<Rightarrow> usteer_state \<Rightarrow> usteer_state \<Rightarrow> bool" where
  "run_inv n a s t \<longleftrightarrow> wf_state t \<and> (\<exists>si. si_heap t a = Some si \<and> si_node si = NLocal n \<and>
     kicks (out t) + disassocs (out s) + notified (si_roam_state si) \<le> disassocs (out t) + kicks (out s))"

lemma roam_run_inv:
  assumes "roam_run nrp a s t" "wf_state s" "si_heap s a = Some si" "si_node si = NLocal n"
    and "si_roam_state si = ROAM_TRIGGER_IDLE"
  shows "run_inv n a s t"
  using assms
proof (induction rule: roam_run.induct)
  case (start s)
  then show ?case by (simp add: run_inv_def)
next
  case (machine s t kicked u)
  then obtain ti where ti: "wf_state t" "si_heap t a = Some ti" "si_node ti = NLocal n"
    "kicks (out t) + disassocs (out s) + notified (si_roam_state ti) \<le> disassocs (out t) + kicks (out s)"
    by (auto simp: run_inv_def)
  from sm_step [OF ti(1-3), of nrp] machine.hyps(2) obtain st msgs ev ui where
    u: "wf_state u" "client_step n a t u" "out u = out t @ msgs" "si_heap u a = Some ui" "si_roam_state ui = st"
      "roam_event_of msgs = Some ev" "roam_edge (si_roam_state ti) ev st"
    by (auto simp: sm_result_def roam_outcome_def)
  have "si_node ui = NLocal n" using client_step_live [OF u(2) ti(2,3)] u(4) by auto
  with u ti(4) edge_notified [OF u(7)] event_counts [OF u(6)] show ?case by (simp add: run_inv_def)
next
  case (reset s t u)
  then obtain ti where ti: "wf_state t" "si_heap t a = Some ti" "si_node ti = NLocal n"
    "kicks (out t) + disassocs (out s) \<le> disassocs (out t) + kicks (out s)"
    by (auto simp: run_inv_def)
  from outcome_set_state [OF ti(1,2), of ROAM_TRIGGER_IDLE n] reset.hyps(2) obtain ui where
    u: "wf_state u" "client_step n a t u" "out u = out t" "si_heap u a = Some ui"
      "si_roam_state ui = ROAM_TRIGGER_IDLE" by (auto simp: roam_outcome_def)
  have "si_node ui = NLocal n" using client_step_live [OF u(2) ti(2,3)] u(4) by auto
  with u ti(4) show ?case by (simp add: run_inv_def)
next
  case (other s t x y)
  then show ?case
    using wf_state_heap_upd [of t a x y] by (auto simp: run_inv_def same_entry_def)
qed (auto simp: run_inv_def)

text \<open>The whole periodic check.\<close>

lemma node_kick_total:
  assumes "wf_state s" "get_local s n = Some l" "kick_client_active_sec (config s) \<noteq> 0"
    and "local_sta_update (config s) \<noteq> 0"
  shows "\<exists>s' msgs. usteer_local_node_kick nrp clk n s = Some s' \<and> wf_state s' \<and>
    out s' = out s @ msgs \<and> kicks msgs \<le> 3"
proof -
  from roam_check_total [OF assms(1-3), of nrp clk] obtain s1 m1 t where
    s1: "usteer_local_node_roam_check nrp clk n s = Some s1" "wf_state s1"
      "node_step n (s\<lparr>current_time := t\<rparr>) s1" "out s1 = out s @ m1" "kicks m1 \<le> 1" by blast
  have "get_local (s\<lparr>current_time := t\<rparr>) n = Some l" using assms(2) by simp
  from node_step_local [OF s1(3) this] obtain l1 where l1: "get_local s1 n = Some l1" .
  have c1: "config s1 = config s" using s1(3) by (simp add: node_step_def)
  then have a1: "kick_client_active_sec (config s1) \<noteq> 0" using assms(3) by simp
  from snr_kick_total [OF s1(2) l1 a1] obtain s2 m2 where
    s2: "usteer_local_node_snr_kick n s1 = Some s2" "wf_state s2" "node_step n s1 s2"
      "out s2 = out s1 @ m2" "kicks m2 \<le> 1" by blast
  from node_step_local [OF s2(3) l1] obtain l2 where l2: "get_local s2 n = Some l2" .
  have "config s2 = config s" using s2(3) c1 by (simp add: node_step_def)
  then have "kick_client_active_sec (config s2) \<noteq> 0" "local_sta_update (config s2) \<noteq> 0"
    using assms(3,4) by simp_all
  from load_kick_total [OF s2(2) l2 this] obtain s3 where
    s3: "usteer_local_node_load_kick n s2 = Some s3" "wf_state s3"
      "out s3 = out s2 \<or> (\<exists>m. out s3 = out s2 @ [kick_message s2 l2 m])" by auto
  then obtain m3 where "out s3 = out s2 @ m3" "kicks m3 \<le> 1" by fastforce
  with s1 s2 s3 show ?thesis
    by (intro exI [of _ s3] exI [of _ "m1 @ m2 @ m3"]) (simp add: usteer_local_node_kick_def)
qed

section \<open>Properties\<close>

text \<open>
  C5. One call of the roaming state machine on a client of a local node is defined on every
  well-formed state and keeps it well formed; it changes no other entry, and its effect is an
  edge of the specified state machine: the new state and the one message it may send (a scan
  request, the announcement of a disassociation, the deauthentication) are those of the edge,
  and it reports a kick exactly when it has sent the deauthentication.
\<close>

theorem roam_sm_refines_edges:
  assumes "wf_state s" "si_heap s a = Some si" "si_node si = NLocal n"
  shows "\<exists>s' si' msgs ev. usteer_roam_trigger_sm nrp a s = Some (ev = Deauthenticate, s') \<and> wf_state s' \<and>
    client_step n a s s' \<and> out s' = out s @ msgs \<and> roam_event_of msgs = Some ev \<and>
    si_heap s' a = Some si' \<and> roam_edge (si_roam_state si) ev (si_roam_state si')"
  using sm_step [OF assms, of nrp] unfolding sm_result_def roam_outcome_def by blast

theorem roam_sm_refines_edges_witness:
  "\<exists>s' si' ev. usteer_roam_trigger_sm (\<lambda>_. (None, None, None)) 0 network = Some (ev = Deauthenticate, s') \<and>
     wf_state s' \<and> si_heap s' 0 = Some si' \<and> roam_edge ROAM_TRIGGER_IDLE ev (si_roam_state si')"
proof -
  have at: "si_node client_at_a = NLocal ''a''" "si_roam_state client_at_a = ROAM_TRIGGER_IDLE"
    by (simp_all add: client_at_a_def calloc_sta_info_def)
  from roam_sm_refines_edges [OF network_wf network_heap(1) at(1), unfolded at(2)] show ?thesis by blast
qed

text \<open>
  C14. The state machine never deauthenticates a client without warning: along every run from the
  idle state, whatever the clock, the signals and the other parts of the program do in between,
  there were at least as many announcements of a disassociation as deauthentications.
\<close>

theorem roam_kick_announced:
  assumes "roam_run nrp a s t" "wf_state s" "si_heap s a = Some si" "si_node si = NLocal n"
    and "si_roam_state si = ROAM_TRIGGER_IDLE"
  shows "kicks (out t) + disassocs (out s) \<le> disassocs (out t) + kicks (out s)"
  using roam_run_inv [OF assms] by (auto simp: run_inv_def)

theorem roam_kick_announced_witness:
  "\<exists>t kicked. usteer_roam_trigger_sm (\<lambda>_. (None, None, None)) 0 network = Some (kicked, t) \<and>
     roam_run (\<lambda>_. (None, None, None)) 0 network t \<and> kicks (out t) \<le> disassocs (out t)"
proof -
  have at: "si_node client_at_a = NLocal ''a''" "si_roam_state client_at_a = ROAM_TRIGGER_IDLE"
    by (simp_all add: client_at_a_def calloc_sta_info_def)
  from sm_step [OF network_wf network_heap(1) at(1)] obtain t kicked where
    t: "usteer_roam_trigger_sm (\<lambda>_. (None, None, None)) 0 network = Some (kicked, t)"
    unfolding sm_result_def by blast
  have run: "roam_run (\<lambda>_. (None, None, None)) 0 network t"
    by (rule roam_run.machine [OF roam_run.start t])
  have "out network = []" by (simp add: network_def)
  with roam_kick_announced [OF run network_wf network_heap(1) at] t run show ?thesis by auto
qed

text \<open>
  C26. The check for weak clients kicks exactly the first client of the node that is connected,
  inactive and below the minimum signal, and counts the kick; if there is none (or no minimum
  is configured), it changes nothing.
\<close>

theorem snr_kick_first_weak_client:
  assumes "wf_state s" "get_local s n = Some l" "kick_client_active_sec (config s) \<noteq> 0"
    and "min_snr (config s) \<noteq> 0"
  shows "case List.find (snr_victim s (snr_to_signal (ln_node l) (min_snr (config s)))) (node_sta_info (ln_node l)) of
      None \<Rightarrow> usteer_local_node_snr_kick n s = Some s
    | Some a \<Rightarrow> \<exists>s' si. usteer_local_node_snr_kick n s = Some s' \<and> wf_state s' \<and> si_heap s a = Some si \<and>
        si_connected si \<noteq> 0 \<and> out s' = out s @ [kick_message s l (si_sta si)] \<and>
        si_heap s' = (si_heap s)(a \<mapsto> si\<lparr>si_kick_count := si_kick_count si + 1, si_connected := 0,
                                         si_roam_kick := current_time s\<rparr>)"
proof -
  let ?m = "snr_to_signal (ln_node l) (min_snr (config s))" and ?as = "node_sta_info (ln_node l)"
  have core: "wf_core s" using assms(1) by (simp add: wf_state_def)
  have c: "clients_of n s ?as" by (rule clients_of_node [OF core assms(2)])
  have run: "usteer_local_node_snr_kick n s =
      (case List.find (snr_victim s ?m) ?as of None \<Rightarrow> Some s | Some a \<Rightarrow> kick_counted a s)"
    using snr_kick_loop_find [OF c assms(3), of ?m] assms(2,4)
    by (simp add: usteer_local_node_snr_kick_def Let_def)
  show ?thesis
  proof (cases "List.find (snr_victim s ?m) ?as")
    case None
    with run show ?thesis by simp
  next
    case (Some a)
    then have "a \<in> set ?as" and v: "snr_victim s ?m a" by (auto simp: find_Some_iff)
    with c obtain si where si: "si_heap s a = Some si" "si_node si = NLocal n" by (auto simp: clients_of_def)
    with v have conn: "si_connected si \<noteq> 0" by (auto simp: snr_victim_def)
    from kick_counted_step [OF core si] obtain s' where
      s': "kick_counted a s = Some s'" "entry_step a s s'" "out s' = out s @ [kick_message s l (si_sta si)]"
        "si_heap s' = (si_heap s)(a \<mapsto> si\<lparr>si_kick_count := si_kick_count si + 1, si_connected := 0,
                                         si_roam_kick := current_time s\<rparr>)"
      using assms(2) by auto
    then show ?thesis
      using run Some si conn entry_step_wf(1) [OF s'(2) assms(1)] by auto
  qed
qed

theorem snr_kick_first_weak_client_witness:
  "\<exists>s' si. usteer_local_node_snr_kick ''a''
     (network\<lparr>config := usteer_init_defaults\<lparr>min_snr := 30\<rparr>\<rparr>) = Some s' \<and>
     si_heap s' 0 = Some si \<and> si_connected si = 0 \<and> si_kick_count si = 1 \<and> kicks (out s') = 1"
proof -
  let ?s = "network\<lparr>config := usteer_init_defaults\<lparr>min_snr := 30\<rparr>\<rparr>"
  let ?l = "ap_local (ap_node [0] 1 2412 10) 1"
  have s: "wf_state ?s" "get_local ?s ''a'' = Some ?l" "kick_client_active_sec (config ?s) \<noteq> 0"
    "min_snr (config ?s) \<noteq> 0" "si_heap ?s 0 = Some client_at_a"
    using network_wf network_nodes(3) by (simp_all add: get_local_def usteer_init_defaults_def)
  have "snr_victim ?s (snr_to_signal (ln_node ?l) (min_snr (config ?s))) 0"
    by (simp add: snr_victim_def s(5))
       (simp add: client_at_a_def calloc_sta_info_def is_active_client_def usteer_get_client_active_bits_def
         usteer_init_defaults_def snr_to_signal_def ap_local_def ap_node_def calloc_node_def)
  then have "List.find (snr_victim ?s (snr_to_signal (ln_node ?l) (min_snr (config ?s)))) (node_sta_info (ln_node ?l))
      = Some 0" by (simp add: ap_local_def ap_node_def)
  with snr_kick_first_weak_client [OF s(1-4)] s(5) show ?thesis
    by (auto simp: kick_message_def kicks_def network_def client_at_a_def calloc_sta_info_def)
qed



text \<open>
  C15. The whole periodic check of a local node (roaming, weak clients, load) is defined on every
  well-formed state when the activity interval and the update interval are not zero; it keeps
  the state well formed and kicks at most three clients.
\<close>

theorem local_node_kick_safe:
  assumes "wf_state s" "get_local s n = Some l" "kick_client_active_sec (config s) \<noteq> 0"
    and "local_sta_update (config s) \<noteq> 0"
  shows "\<exists>s' msgs. usteer_local_node_kick nrp clk n s = Some s' \<and> wf_state s' \<and>
    out s' = out s @ msgs \<and> kicks msgs \<le> 3"
  using node_kick_total [OF assms] .

theorem local_node_kick_safe_witness:
  "\<exists>s' msgs. usteer_local_node_kick (\<lambda>_. (None, None, None)) 100000 ''a'' network = Some s' \<and>
     wf_state s' \<and> out s' = out network @ msgs \<and> kicks msgs \<le> 3"
  using local_node_kick_safe [OF network_wf network_nodes(3), of "\<lambda>_. (None, None, None)" 100000]
  by (simp add: network_def usteer_init_defaults_def)

text \<open>
  With an activity interval of zero seconds (which \<^verbatim>\<open>set_config\<close> accepts) the check for weak
  clients divides by zero as soon as the first entry of a node is a connected client.
\<close>

lemma zero_activity_interval_divides:
  assumes "kick_client_active_sec (config s) = 0" "min_snr (config s) \<noteq> 0"
    and "get_local s n = Some l" "node_sta_info (ln_node l) = a # as"
    and "si_heap s a = Some si" "si_connected si \<noteq> 0"
  shows "usteer_local_node_snr_kick n s = None"
  using assms by (simp add: usteer_local_node_snr_kick_def is_active_client_def usteer_get_client_active_bits_def Let_def)

end
