(* ===== verification/Remote_Send.thy ===== *)
theory Remote_Send
  imports Policy
begin

text \<open>
  The sending half of remote.c: the messages with which an instance tells the others about its
  nodes and stations, and the expiry of remote nodes that have not been heard of.

  A message is the list of the calls of the libubox builder (\<open>blob_item\<close>); the attribute
  numbers are those of remote.h. \<open>ether_ntoa\<close> is the address conversion of the C library.
\<close>

section \<open>Model\<close>

subsection \<open>Attribute numbers (remote.h)\<close>

definition APMSG_ID :: nat where "APMSG_ID = 0"
definition APMSG_SEQ :: nat where "APMSG_SEQ = 1"
definition APMSG_NODES :: nat where "APMSG_NODES = 2"

definition APMSG_NODE_NAME :: nat where "APMSG_NODE_NAME = 0"
definition APMSG_NODE_FREQ :: nat where "APMSG_NODE_FREQ = 1"
definition APMSG_NODE_N_ASSOC :: nat where "APMSG_NODE_N_ASSOC = 2"
definition APMSG_NODE_STATIONS :: nat where "APMSG_NODE_STATIONS = 3"
definition APMSG_NODE_NOISE :: nat where "APMSG_NODE_NOISE = 4"
definition APMSG_NODE_LOAD :: nat where "APMSG_NODE_LOAD = 5"
definition APMSG_NODE_SSID :: nat where "APMSG_NODE_SSID = 6"
definition APMSG_NODE_BSSID :: nat where "APMSG_NODE_BSSID = 7"
definition APMSG_NODE_MAX_ASSOC :: nat where "APMSG_NODE_MAX_ASSOC = 8"
definition APMSG_NODE_RRM_NR :: nat where "APMSG_NODE_RRM_NR = 9"
definition APMSG_NODE_SCRIPT_DATA :: nat where "APMSG_NODE_SCRIPT_DATA = 10"

definition APMSG_STA_ADDR :: nat where "APMSG_STA_ADDR = 0"
definition APMSG_STA_SIGNAL :: nat where "APMSG_STA_SIGNAL = 1"
definition APMSG_STA_TIMEOUT :: nat where "APMSG_STA_TIMEOUT = 2"
definition APMSG_STA_SEEN :: nat where "APMSG_STA_SEEN = 3"
definition APMSG_STA_CONNECTED :: nat where "APMSG_STA_CONNECTED = 4"

lemmas apmsg_defs = APMSG_ID_def APMSG_SEQ_def APMSG_NODES_def
  APMSG_NODE_NAME_def APMSG_NODE_FREQ_def APMSG_NODE_N_ASSOC_def APMSG_NODE_STATIONS_def
  APMSG_NODE_NOISE_def APMSG_NODE_LOAD_def APMSG_NODE_SSID_def APMSG_NODE_BSSID_def
  APMSG_NODE_MAX_ASSOC_def APMSG_NODE_RRM_NR_def APMSG_NODE_SCRIPT_DATA_def
  APMSG_STA_ADDR_def APMSG_STA_SIGNAL_def APMSG_STA_TIMEOUT_def APMSG_STA_SEEN_def
  APMSG_STA_CONNECTED_def

subsection \<open>Building messages\<close>

text \<open>\<^verbatim>\<open>int seen = current_time - sta->seen\<close> keeps the low 32 bits.\<close>

definition usteer_send_sta_info :: "usteer_state \<Rightarrow> sta_info \<Rightarrow> blob_item" where
  "usteer_send_sta_info s si =
     (let seen = (ucast (current_time s - si_seen si) :: s32)
      in Nest 0
           [Put APMSG_STA_ADDR (mac_bytes (si_sta si)),
            Put_int8 APMSG_STA_CONNECTED (if si_connected si \<noteq> 0 then 1 else 0),
            Put_int32 APMSG_STA_SIGNAL (si_signal si),
            Put_int32 APMSG_STA_SEEN seen,
            Put_int32 APMSG_STA_TIMEOUT (local_sta_timeout (config s) - seen)])"

text \<open>The loop over a node's entries; each is dereferenced.\<close>

definition send_sta_infos :: "usteer_state \<Rightarrow> nat list \<Rightarrow> blob_item list option" where
  "send_sta_infos s as = those (map (\<lambda>a. map_option (usteer_send_sta_info s) (si_heap s a)) as)"

text \<open>\<open>only\<close> is the optional single entry to send instead of all entries of the node.\<close>

definition usteer_send_node ::
    "(mac \<Rightarrow> string) \<Rightarrow> node_ref \<Rightarrow> nat option \<Rightarrow> usteer_state \<Rightarrow> blob_item option" where
  "usteer_send_node ether_ntoa r only s = do {
     node \<leftarrow> get_node s r;
     name \<leftarrow> usteer_node_name s r;
     stas \<leftarrow> (if remote_disabled (config s) then Some []
             else send_sta_infos s (case only of Some a \<Rightarrow> [a] | None \<Rightarrow> node_sta_info node));
     Some (Nest 0 (
       [Put_string APMSG_NODE_NAME name,
        Put_string APMSG_NODE_SSID (node_ssid node),
        Put_string APMSG_NODE_BSSID (ether_ntoa (node_bssid node)),
        Put_int32 APMSG_NODE_FREQ (node_freq node),
        Put_int32 APMSG_NODE_NOISE (node_noise node),
        Put_int32 APMSG_NODE_LOAD (node_load node),
        Put_int32 APMSG_NODE_N_ASSOC (node_n_assoc node),
        Put_int32 APMSG_NODE_MAX_ASSOC (node_max_assoc node)] @
       (case node_rrm_nr node of
          None \<Rightarrow> [] | Some nr \<Rightarrow> [Nest APMSG_NODE_RRM_NR [Put_array_field nr]]) @
       (case node_script_data node of
          None \<Rightarrow> [] | Some d \<Rightarrow> [Put_blob APMSG_NODE_SCRIPT_DATA d]) @
       [Nest APMSG_NODE_STATIONS stas]))
   }"

text \<open>The head of a message with the next sequence number.\<close>

definition usteer_update_init :: "usteer_state \<Rightarrow> blob_item list \<times> usteer_state" where
  "usteer_update_init s =
     (let seq = msg_seq s + 1
      in ([Put_int32 APMSG_ID (local_id s), Put_int32 APMSG_SEQ seq], s\<lparr>msg_seq := seq\<rparr>))"

definition interface_send_msg :: "u32 \<Rightarrow> blob_item list \<Rightarrow> usteer_state \<Rightarrow> usteer_state" where
  "interface_send_msg ifindex data s =
     (if \<not> remote_disabled (config s) then emit (Sendmsg ifindex data) s else s)"

definition usteer_update_send ::
    "blob_item list \<Rightarrow> blob_item list \<Rightarrow> usteer_state \<Rightarrow> usteer_state" where
  "usteer_update_send head nodes s =
     fold (\<lambda>(_, ifindex). interface_send_msg ifindex (head @ [Nest APMSG_NODES nodes])) (interfaces s) s"

definition usteer_send_sta_update ::
    "(mac \<Rightarrow> string) \<Rightarrow> nat \<Rightarrow> usteer_state \<Rightarrow> usteer_state option" where
  "usteer_send_sta_update ether_ntoa a s = do {
     let (head, s) = usteer_update_init s;
     si \<leftarrow> si_heap s a;
     node \<leftarrow> usteer_send_node ether_ntoa (si_node si) (Some a) s;
     Some (usteer_update_send head [node] s)
   }"

subsection \<open>Expiry of remote nodes\<close>

text \<open>
  The code unlinks the node from the tree before it cleans up the entries; the node's memory is
  freed last. Nothing the cleanup does reads the tree, so the model removes the node with the
  memory, after the cleanup.
\<close>

definition remote_node_free :: "nat \<Rightarrow> usteer_state \<Rightarrow> usteer_state option" where
  "remote_node_free a s = do {
     s \<leftarrow> usteer_sta_node_cleanup (NRemote a) s;
     Some (s\<lparr>remote_nodes := dict_delete a (remote_nodes s)\<rparr>)
   }"

definition check_node :: "s32 \<Rightarrow> nat \<Rightarrow> usteer_state \<Rightarrow> usteer_state option" where
  "check_node timeout a s = do {
     rn \<leftarrow> get_remote s a;
     let s = upd_remote a (\<lambda>rn. rn\<lparr>rn_check := rn_check rn + 1\<rparr>) s;
     (if sint timeout < sint (rn_check rn) then remote_node_free a s else Some s)
   }"

definition usteer_check_timeout :: "usteer_state \<Rightarrow> usteer_state option" where
  "usteer_check_timeout s =
     (if remote_update_interval (config s) = 0 then None
      else
        (let timeout = remote_node_timeout (config s) div remote_update_interval (config s)
         in for_each (check_node timeout) (map fst (remote_nodes s)) s))"

text \<open>
  The periodic update; \<open>clk\<close> is what \<^verbatim>\<open>usteer_update_time\<close> reads.
\<close>

definition usteer_send_update_timer ::
    "(mac \<Rightarrow> string) \<Rightarrow> u64 \<Rightarrow> usteer_state \<Rightarrow> usteer_state option" where
  "usteer_send_update_timer ether_ntoa clk s = do {
     let s = s\<lparr>current_time := clk\<rparr>;
     let s = s\<lparr>remote_timer := Some (remote_update_interval (config s))\<rparr>;
     let (head, s) = usteer_update_init s;
     nodes \<leftarrow> those (map (\<lambda>(n, _). usteer_send_node ether_ntoa (NLocal n) None s) (local_nodes s));
     let s = usteer_update_send head nodes s;
     usteer_check_timeout s
   }"

section \<open>Lemmas\<close>

lemma those_total: "(\<And>x. x \<in> set xs \<Longrightarrow> f x \<noteq> None) \<Longrightarrow> those (map f xs) = Some (map (the \<circ> f) xs)"
  by (induction xs) (auto simp: option.case_eq_if)

lemma node_name_live: "get_node s r \<noteq> None \<Longrightarrow> usteer_node_name s r \<noteq> None"
  by (cases r) auto

lemma send_infos_total:
  "\<forall>a \<in> set as. si_heap s a \<noteq> None \<Longrightarrow>
   send_sta_infos s as = Some (map (\<lambda>a. usteer_send_sta_info s (the (si_heap s a))) as)"
  unfolding send_sta_infos_def by (subst those_total) (auto simp: option.map_sel)

text \<open>A message about a node is always built; what it says about the stations.\<close>

lemma send_node_total:
  assumes wf: "wf_core s" and nd: "get_node s r = Some nd"
    and only: "\<forall>a. only = Some a \<longrightarrow> si_heap s a \<noteq> None"
  shows "\<exists>attrs. usteer_send_node ether_ntoa r only s = Some (Nest 0 (attrs @
      [Nest APMSG_NODE_STATIONS (if remote_disabled (config s) then []
         else map (\<lambda>a. usteer_send_sta_info s (the (si_heap s a)))
                (case only of Some a \<Rightarrow> [a] | None \<Rightarrow> node_sta_info nd))]))"
proof -
  let ?as = "case only of Some a \<Rightarrow> [a] | None \<Rightarrow> node_sta_info nd"
  have "\<forall>a \<in> set ?as. si_heap s a \<noteq> None"
    using only wf_core_node(2) [OF wf nd] by (auto split: option.splits)
  from send_infos_total [OF this] nd node_name_live [of s r] show ?thesis
    by (auto simp: usteer_send_node_def)
qed

lemma update_send_eq:
  "usteer_update_send head nodes s = s\<lparr>out := out s @
     (if remote_disabled (config s) then []
      else map (\<lambda>(_, i). Sendmsg i (head @ [Nest APMSG_NODES nodes])) (interfaces s))\<rparr>"
proof -
  have "fold (\<lambda>(_, i). interface_send_msg i data) is s = s\<lparr>out := out s @
      (if remote_disabled (config s) then [] else map (\<lambda>(_, i). Sendmsg i data) is)\<rparr>" for "is" data
  proof (induction "is" arbitrary: s)
    case (Cons i "is")
    then show ?case by (cases i) (simp add: interface_send_msg_def emit_def)
  qed simp
  then show ?thesis unfolding usteer_update_send_def .
qed

text \<open>Sending changes the sequence number and the messages only.\<close>

definition only_sends :: "usteer_state \<Rightarrow> usteer_state \<Rightarrow> bool" where
  "only_sends s s' \<longleftrightarrow> (\<exists>q msgs. s' = s\<lparr>msg_seq := q, out := out s @ msgs\<rparr>)"

lemma views_sends [simp]:
  "sta_view (s\<lparr>msg_seq := q\<rparr>) = sta_view s" "node_view (s\<lparr>msg_seq := q\<rparr>) = node_view s"
  "sta_view (s\<lparr>out := ou\<rparr>) = sta_view s" "node_view (s\<lparr>out := ou\<rparr>) = node_view s"
  "keys_ok (s\<lparr>msg_seq := q\<rparr>) = keys_ok s" "keys_ok (s\<lparr>out := ou\<rparr>) = keys_ok s"
  "get_node (s\<lparr>msg_seq := q\<rparr>) r = get_node s r" "get_local (s\<lparr>msg_seq := q\<rparr>) n = get_local s n"
proof -
  show gn: "get_node (s\<lparr>msg_seq := q\<rparr>) r = get_node s r" for r
    by (cases r) (simp_all add: get_local_def get_remote_def)
  show "node_view (s\<lparr>msg_seq := q\<rparr>) = node_view s" by (simp add: node_view_def fun_eq_iff gn)
qed (simp_all add: sta_view_def get_sta_def node_view_def get_local_def keys_ok_def fun_eq_iff)

lemma wf_remote_timer [simp]:
  "wf_core (s\<lparr>remote_timer := t\<rparr>) = wf_core s" "wf_state (s\<lparr>remote_timer := t\<rparr>) = wf_state s"
  by (rule wf_same_data; simp)+

lemma only_sends_wf:
  assumes "only_sends s s'"
  shows "wf_core s' = wf_core s" "wf_state s' = wf_state s"
proof -
  from assms obtain q msgs where s': "s' = s\<lparr>msg_seq := q, out := out s @ msgs\<rparr>"
    by (auto simp: only_sends_def)
  show "wf_core s' = wf_core s" unfolding s' by (rule wf_core_cong) simp_all
  show "wf_state s' = wf_state s" unfolding s' by (rule wf_cong) simp_all
qed

lemma only_sends_frame:
  assumes "only_sends s s'"
  shows "si_heap s' = si_heap s" "config s' = config s" "current_time s' = current_time s"
    "tq s' = tq s" "local_nodes s' = local_nodes s" "remote_nodes s' = remote_nodes s"
    "stations s' = stations s" "get_node s' r = get_node s r" "get_local s' n = get_local s n"
  using assms by (auto simp: only_sends_def get_local_def)

lemma send_update_total:
  assumes wf: "wf_core s" and si: "si_heap s a = Some si"
  shows "\<exists>s'. usteer_send_sta_update ether_ntoa a s = Some s' \<and> only_sends s s'"
proof -
  let ?s = "s\<lparr>msg_seq := msg_seq s + 1\<rparr>"
  from wf_core_entry [OF wf si] obtain nd where nd: "get_node s (si_node si) = Some nd" by metis
  have sends: "only_sends s ?s" unfolding only_sends_def
    by (intro exI [of _ "msg_seq s + 1"] exI [of _ "[]"]) simp
  have core: "wf_core ?s" using only_sends_wf(1) [OF sends] wf by simp
  have "get_node ?s (si_node si) = Some nd" using nd by simp
  moreover have "\<forall>b. Some a = Some b \<longrightarrow> si_heap ?s b \<noteq> None" using si by simp
  ultimately obtain node where node: "usteer_send_node ether_ntoa (si_node si) (Some a) ?s = Some node"
    using send_node_total [OF core] by blast
  with si have "usteer_send_sta_update ether_ntoa a s = Some (usteer_update_send
      [Put_int32 APMSG_ID (local_id s), Put_int32 APMSG_SEQ (msg_seq s + 1)] [node] ?s)"
    by (simp add: usteer_send_sta_update_def usteer_update_init_def Let_def)
  moreover have "only_sends s (?s\<lparr>out := out ?s @ msgs\<rparr>)" for msgs by (auto simp: only_sends_def)
  ultimately show ?thesis unfolding update_send_eq by blast
qed

subsection \<open>Expiry\<close>

text \<open>A counter update of a remote node.\<close>

lemma upd_remote_check:
  assumes "\<And>rn. rn_node (f rn) = rn_node rn"
  shows "wf_state (upd_remote a f s) = wf_state s" "get_node (upd_remote a f s) r = get_node s r"
proof -
  have node: "get_node (upd_remote a f s) r = get_node s r" for r
    using assms by (cases r) (auto simp: upd_remote_def get_local_def get_remote_def option.map_comp comp_def)
  then show "get_node (upd_remote a f s) r = get_node s r" .
  show "wf_state (upd_remote a f s) = wf_state s"
  proof (rule wf_cong)
    show "node_view (upd_remote a f s) = node_view s" by (simp add: node_view_def fun_eq_iff node)
    have "map fst (remote_nodes (upd_remote a f s)) = map fst (remote_nodes s)" by (simp add: upd_remote_def)
    then show "keys_ok (upd_remote a f s) = keys_ok s"
      unfolding keys_ok_def by (simp add: upd_remote_def)
    show "sta_view (upd_remote a f s) = sta_view s"
      by (simp add: sta_view_def get_sta_def fun_eq_iff upd_remote_def)
  qed (simp_all add: upd_remote_def)
qed

text \<open>Removing a node that has no entries left.\<close>

lemma wf_remove_remote:
  assumes wf: "wf_state s" and empty: "node_view s (NRemote a) = Some []"
  shows "wf_state (s\<lparr>remote_nodes := dict_delete a (remote_nodes s)\<rparr>)"
proof -
  let ?s = "s\<lparr>remote_nodes := dict_delete a (remote_nodes s)\<rparr>"
  have nv: "node_view ?s = (node_view s)(NRemote a := None)"
  proof
    fix r show "node_view ?s r = ((node_view s)(NRemote a := None)) r"
      by (cases r) (auto simp: node_view_def get_local_def get_remote_def)
  qed
  have ok: "sta_ok s" "node_ok s" "si_ok s" "si_unique s" "timers_ok s" "keys_ok s" "no_empty_sta s"
    using wf by (auto simp: wf_state_def wf_core_def)
  have none: "si_node si \<noteq> NRemote a" if "si_heap s b = Some si" for b si
    using ok(2) empty that unfolding node_ok_def by fastforce
  have sv: "sta_view ?s = sta_view s" by (simp add: sta_view_def get_sta_def fun_eq_iff)
  have "keys_ok ?s" using ok(6) by (auto simp: keys_ok_def dict_delete_def distinct_map_filter)
  moreover have "sta_ok ?s" using ok(1) by (simp add: sta_ok_def sv)
  moreover have "node_ok ?s" using ok(2) unfolding node_ok_def nv by auto
  moreover have "si_ok ?s" using ok(3) none unfolding si_ok_def nv sv by auto
  moreover have "si_unique ?s" using ok(4) by (simp add: si_unique_def)
  moreover have "timers_ok ?s" using ok(5) by (simp add: timers_ok_def)
  moreover have "no_empty_sta ?s" using ok(7) by (simp add: no_empty_sta_def sv)
  ultimately show ?thesis by (simp add: wf_state_def wf_core_def)
qed

lemma remote_node_free_total:
  assumes wf: "wf_state s" and rn: "get_remote s a = Some rn"
  shows "\<exists>s'. remote_node_free a s = Some s' \<and> wf_state s' \<and> config s' = config s \<and> out s' = out s \<and>
    map fst (remote_nodes s') = filter (\<lambda>k. k \<noteq> a) (map fst (remote_nodes s)) \<and>
    (\<forall>b. si_heap s' b = (if b \<in> set (node_sta_info (rn_node rn)) then None else si_heap s b))"
proof -
  have nd: "get_node s (NRemote a) = Some (rn_node rn)" using rn by simp
  from cleanup_total [OF wf nd] obtain t where
    t: "usteer_sta_node_cleanup (NRemote a) s = Some t" "wf_state t" "frame_eq s t"
      "si_heap t = (\<lambda>b. if b \<in> set (node_sta_info (rn_node rn)) then None else si_heap s b)" by blast
  have core: "wf_core s" "wf_core t" using wf t(2) by (simp_all add: wf_state_def)
  have "a \<in> set (map fst (remote_nodes t))"
    using t(3) rn by (force simp: frame_eq_def get_remote_def dest: map_of_SomeD)
  then have "get_remote t a \<noteq> None" unfolding get_remote_def map_of_eq_None_iff by simp
  then obtain rn' where "get_remote t a = Some rn'" by blast
  then have rn': "get_node t (NRemote a) = Some (rn_node rn')" by simp
  have "b \<notin> set (node_sta_info (rn_node rn'))" for b
    using wf_core_node(2) [OF core(2) rn', of b] wf_core_node(2) [OF core(1) nd, of b] t(4)
    by (auto split: if_splits)
  then have "node_sta_info (rn_node rn') = []" by (cases "node_sta_info (rn_node rn')") auto
  then have "node_view t (NRemote a) = Some []" using rn' by (simp add: node_view_def del: get_node.simps)
  from wf_remove_remote [OF t(2) this]
  have "wf_state (t\<lparr>remote_nodes := dict_delete a (remote_nodes t)\<rparr>)" .
  moreover have "map fst (dict_delete a xs) = filter (\<lambda>k. k \<noteq> a) (map fst xs)" for xs :: "(nat \<times> usteer_remote_node) list"
    by (induction xs) (auto simp: dict_delete_def)
  ultimately show ?thesis using t by (simp add: remote_node_free_def frame_eq_def)
qed

text \<open>Cleaning up entries does not touch the silence counters.\<close>

definition check_view :: "usteer_state \<Rightarrow> nat \<Rightarrow> s32 option" where
  "check_view s k = map_option rn_check (get_remote s k)"

lemma check_view_upd_node [simp]: "check_view (upd_node r f s) = check_view s"
  by (cases r) (auto simp: check_view_def get_remote_def fun_eq_iff option.map_comp comp_def)

lemma check_view_frame [simp]:
  "check_view (s\<lparr>tq := q\<rparr>) = check_view s" "check_view (s\<lparr>si_heap := h\<rparr>) = check_view s"
  "check_view (upd_sta m g s) = check_view s" "check_view (usteer_sta_del m s) = check_view s"
  by (simp_all add: check_view_def get_remote_def fun_eq_iff usteer_sta_del_def)

lemma check_view_del: "usteer_sta_info_del a s = Some s' \<Longrightarrow> check_view s' = check_view s"
  by (auto simp: usteer_sta_info_del_def bind_eq_Some_conv usteer_beacon_report_cleanup_def upd_si_Some
      Let_def split: if_splits)

lemma check_view_cleanup:
  assumes "usteer_sta_node_cleanup r s = Some s'"
  shows "check_view s' = check_view s"
proof -
  from assms obtain as where
    "for_each usteer_sta_info_del as (upd_node r (\<lambda>nd. nd\<lparr>node_rrm_nr := None\<rparr>) s) = Some s'"
    by (auto simp: usteer_sta_node_cleanup_def bind_eq_Some_conv)
  then show ?thesis
    by (rule for_each_invariant [where P = "\<lambda>t. check_view t = check_view s"]) (auto dest: check_view_del)
qed

definition silent :: "s32 \<Rightarrow> usteer_state \<Rightarrow> nat \<Rightarrow> bool" where
  "silent timeout s k \<longleftrightarrow> (\<exists>c. check_view s k = Some c \<and> sint timeout < sint c)"

lemma check_node_total:
  assumes wf: "wf_state s" and rn: "check_view s a = Some c"
  shows "\<exists>s'. check_node timeout a s = Some s' \<and> wf_state s' \<and> config s' = config s \<and> out s' = out s \<and>
    map fst (remote_nodes s') = filter (\<lambda>k. k \<noteq> a \<or> \<not> silent timeout s k) (map fst (remote_nodes s)) \<and>
    check_view s' = (check_view s)(a := (if silent timeout s a then None else Some (c + 1)))"
proof -
  let ?t = "upd_remote a (\<lambda>rn. rn\<lparr>rn_check := rn_check rn + 1\<rparr>) s"
  from rn obtain x where x: "get_remote s a = Some x" "rn_check x = c" by (auto simp: check_view_def)
  have wft: "wf_state ?t" using wf upd_remote_check(1) by simp
  have t: "get_remote ?t a = Some (x\<lparr>rn_check := c + 1\<rparr>)" "config ?t = config s" "out ?t = out s"
    "map fst (remote_nodes ?t) = map fst (remote_nodes s)"
    "check_view ?t = (check_view s)(a \<mapsto> c + 1)"
    using x by (auto simp: upd_remote_def get_remote_def check_view_def fun_eq_iff)
  have sil: "silent timeout s a \<longleftrightarrow> sint timeout < sint c" using rn by (simp add: silent_def)
  show ?thesis
  proof (cases "silent timeout s a")
    case False
    have "filter (\<lambda>k. k \<noteq> a \<or> \<not> silent timeout s k) (map fst (remote_nodes s)) = map fst (remote_nodes s)"
      using False by (auto intro!: filter_True)
    with False sil x t wft show ?thesis by (simp add: check_node_def Let_def)
  next
    case True
    from remote_node_free_total [OF wft t(1)] t(2-4) obtain s' where
      s': "remote_node_free a ?t = Some s'" "wf_state s'" "config s' = config s" "out s' = out s"
        "map fst (remote_nodes s') = filter (\<lambda>k. k \<noteq> a) (map fst (remote_nodes s))" by auto
    from s'(1) obtain u where u: "usteer_sta_node_cleanup (NRemote a) ?t = Some u"
      "s' = u\<lparr>remote_nodes := dict_delete a (remote_nodes u)\<rparr>"
      by (auto simp: remote_node_free_def bind_eq_Some_conv)
    have "check_view s' = (check_view u)(a := None)"
      by (auto simp: u(2) check_view_def get_remote_def fun_eq_iff)
    then have "check_view s' = (check_view s)(a := None)" using check_view_cleanup [OF u(1)] t(5) by simp
    moreover have "filter (\<lambda>k. k \<noteq> a \<or> \<not> silent timeout s k) (map fst (remote_nodes s)) =
        filter (\<lambda>k. k \<noteq> a) (map fst (remote_nodes s))" using True by (auto intro!: filter_cong)
    ultimately show ?thesis using True sil x s' by (simp add: check_node_def Let_def)
  qed
qed

lemma check_loop_total:
  assumes "wf_state s" "distinct ks" "\<forall>k \<in> set ks. check_view s k \<noteq> None"
  shows "\<exists>s'. for_each (check_node timeout) ks s = Some s' \<and> wf_state s' \<and> config s' = config s \<and>
    out s' = out s \<and>
    map fst (remote_nodes s') =
      filter (\<lambda>k. k \<notin> set ks \<or> \<not> silent timeout s k) (map fst (remote_nodes s)) \<and>
    (\<forall>k. check_view s' k = (if k \<notin> set ks then check_view s k
        else if silent timeout s k then None else map_option (\<lambda>c. c + 1) (check_view s k)))"
  using assms
proof (induction ks arbitrary: s)
  case (Cons a ks)
  then obtain c where c: "check_view s a = Some c" by auto
  from check_node_total [OF Cons.prems(1) c, of timeout] obtain t where
    t: "check_node timeout a s = Some t" "wf_state t" "config t = config s" "out t = out s"
      "map fst (remote_nodes t) = filter (\<lambda>k. k \<noteq> a \<or> \<not> silent timeout s k) (map fst (remote_nodes s))"
      "check_view t = (check_view s)(a := (if silent timeout s a then None else Some (c + 1)))" by blast
  have sil: "silent timeout t k = silent timeout s k" if "k \<in> set ks" for k
    using t(6) that Cons.prems(2) by (auto simp: silent_def)
  have "distinct ks" "\<forall>k \<in> set ks. check_view t k \<noteq> None" using Cons.prems(2,3) t(6) by auto
  from Cons.IH [OF t(2) this] obtain s' where
    s': "for_each (check_node timeout) ks t = Some s'" "wf_state s'" "config s' = config t" "out s' = out t"
      "map fst (remote_nodes s') =
        filter (\<lambda>k. k \<notin> set ks \<or> \<not> silent timeout t k) (map fst (remote_nodes t))"
      "\<forall>k. check_view s' k = (if k \<notin> set ks then check_view t k
        else if silent timeout t k then None else map_option (\<lambda>c. c + 1) (check_view t k))" by blast
  have "map fst (remote_nodes s') =
      filter (\<lambda>k. k \<notin> set (a # ks) \<or> \<not> silent timeout s k) (map fst (remote_nodes s))"
    unfolding s'(5) t(5) filter_filter using Cons.prems(2) sil by (intro filter_cong) auto
  moreover have "\<forall>k. check_view s' k = (if k \<notin> set (a # ks) then check_view s k
        else if silent timeout s k then None else map_option (\<lambda>c. c + 1) (check_view s k))"
    using s'(6) t(6) c sil Cons.prems(2) by auto
  ultimately show ?case using t(1,3,4) s'(1-4) by auto
qed simp

section \<open>Adding a remote node\<close>

lemma wf_add_remote:
  assumes wf: "wf_state s" and new: "node_sta_info (rn_node rn) = []"
    and nodes: "set xs = insert (rn_next s, rn) (set (remote_nodes s))" "distinct (map fst xs)"
  shows "wf_state (s\<lparr>remote_nodes := xs, rn_next := Suc (rn_next s)\<rparr>)"
    and "get_remote (s\<lparr>remote_nodes := xs, rn_next := Suc (rn_next s)\<rparr>) = (get_remote s)(rn_next s \<mapsto> rn)"
proof -
  let ?s = "s\<lparr>remote_nodes := xs, rn_next := Suc (rn_next s)\<rparr>"
  have ok: "sta_ok s" "node_ok s" "si_ok s" "si_unique s" "timers_ok s" "keys_ok s" "no_empty_sta s"
    using wf by (auto simp: wf_state_def wf_core_def)
  have fresh: "rn_next s \<notin> fst ` set (remote_nodes s)" using ok(6) by (auto simp: keys_ok_def)
  have d: "distinct (map fst (remote_nodes s))" using ok(6) by (simp add: keys_ok_def)
  have rem: "map_of xs = (map_of (remote_nodes s))(rn_next s \<mapsto> rn)"
  proof
    fix k
    have "map_of xs k = Some v \<longleftrightarrow> ((map_of (remote_nodes s))(rn_next s \<mapsto> rn)) k = Some v" for v
      using nodes fresh d by (auto simp: map_of_eq_Some_iff image_iff)
    then show "map_of xs k = ((map_of (remote_nodes s))(rn_next s \<mapsto> rn)) k" by (metis not_Some_eq)
  qed
  then show get: "get_remote ?s = (get_remote s)(rn_next s \<mapsto> rn)"
    by (simp add: get_remote_def fun_eq_iff)
  have nv: "node_view ?s = (node_view s)(NRemote (rn_next s) \<mapsto> [])"
  proof
    fix r show "node_view ?s r = ((node_view s)(NRemote (rn_next s) \<mapsto> [])) r"
      using get new by (cases r) (auto simp: node_view_def get_local_def)
  qed
  have none: "node_view s (NRemote (rn_next s)) = None"
    using fresh by (simp add: node_view_def get_remote_def map_of_eq_None_iff)
  have no_si: "si_node si \<noteq> NRemote (rn_next s)" if "si_heap s b = Some si" for b si
    using ok(3) none that unfolding si_ok_def by fastforce
  have sv: "sta_view ?s = sta_view s" by (simp add: sta_view_def get_sta_def fun_eq_iff)
  have "fst ` set xs = insert (rn_next s) (fst ` set (remote_nodes s))" using nodes(1) by simp
  then have "keys_ok ?s" using ok(6) nodes(2) by (auto simp: keys_ok_def less_Suc_eq)
  moreover have "sta_ok ?s" using ok(1) by (simp add: sta_ok_def sv)
  moreover have "node_ok ?s" using ok(2) no_si unfolding node_ok_def nv by auto
  moreover have "si_ok ?s" using ok(3) unfolding si_ok_def nv sv by auto
  moreover have "si_unique ?s" using ok(4) by (simp add: si_unique_def)
  moreover have "timers_ok ?s" using ok(5) by (simp add: timers_ok_def)
  moreover have "no_empty_sta ?s" using ok(7) by (simp add: no_empty_sta_def sv)
  ultimately show "wf_state ?s" by (simp add: wf_state_def wf_core_def)
qed

text \<open>The concrete network with a remote access point that has been silent for long.\<close>

definition remote_ap :: usteer_remote_node where
  "remote_ap = \<lparr>rn_key = 7, rn_name = ''hostapd.wlan0'', rn_full_name = ''fe80::1#hostapd.wlan0'',
     rn_node = (calloc_node NODE_TYPE_REMOTE)\<lparr>node_ssid := ''net'', node_bssid := MAC 2 0 0 0 0 3\<rparr>,
     rn_iface = ''br-lan'', rn_check = 200\<rparr>"

definition remote_network :: usteer_state where
  "remote_network = network\<lparr>remote_nodes := [(0, remote_ap)], rn_next := 1, interfaces := [(''br-lan'', 5)]\<rparr>"

lemma wf_interfaces [simp]: "wf_state (s\<lparr>interfaces := ifs\<rparr>) = wf_state s"
  by (rule wf_same_data) simp_all

lemma remote_network_wf: "wf_state remote_network"
proof -
  have "wf_state (network\<lparr>remote_nodes := [(rn_next network, remote_ap)], rn_next := Suc (rn_next network)\<rparr>)"
    by (rule wf_add_remote(1) [OF network_wf])
       (simp_all add: remote_ap_def calloc_node_def network_def)
  then show ?thesis by (simp add: remote_network_def) (simp add: network_def)
qed

lemma check_timeout_total:
  assumes "wf_state s" "remote_update_interval (config s) \<noteq> 0"
  defines "timeout \<equiv> remote_node_timeout (config s) div remote_update_interval (config s)"
  shows "\<exists>s'. usteer_check_timeout s = Some s' \<and> wf_state s' \<and> out s' = out s \<and>
    map fst (remote_nodes s') = filter (\<lambda>k. \<not> silent timeout s k) (map fst (remote_nodes s)) \<and>
    (\<forall>k. \<not> silent timeout s k \<longrightarrow> check_view s' k = map_option (\<lambda>c. c + 1) (check_view s k))"
proof -
  have d: "distinct (map fst (remote_nodes s))"
    using assms(1) by (simp add: wf_state_def wf_core_def keys_ok_def)
  have live: "\<forall>k \<in> set (map fst (remote_nodes s)). check_view s k \<noteq> None"
    by (auto simp: check_view_def get_remote_def map_of_eq_None_iff)
  have none: "check_view s k = None" if "k \<notin> set (map fst (remote_nodes s))" for k
    using that by (auto simp: check_view_def get_remote_def map_of_eq_None_iff)
  from check_loop_total [OF assms(1) d live, of timeout] obtain s' where
    s': "for_each (check_node timeout) (map fst (remote_nodes s)) s = Some s'" "wf_state s'" "out s' = out s"
      "map fst (remote_nodes s') = filter (\<lambda>k. k \<notin> set (map fst (remote_nodes s)) \<or> \<not> silent timeout s k)
         (map fst (remote_nodes s))"
      "\<forall>k. check_view s' k = (if k \<notin> set (map fst (remote_nodes s)) then check_view s k
        else if silent timeout s k then None else map_option (\<lambda>c. c + 1) (check_view s k))" by blast
  have "map fst (remote_nodes s') = filter (\<lambda>k. \<not> silent timeout s k) (map fst (remote_nodes s))"
    unfolding s'(4) by (rule filter_cong) auto
  moreover have "\<forall>k. \<not> silent timeout s k \<longrightarrow> check_view s' k = map_option (\<lambda>c. c + 1) (check_view s k)"
    using s'(5) none by simp
  ultimately show ?thesis
    using s'(1-3) assms(2) by (auto simp: usteer_check_timeout_def timeout_def Let_def)
qed

text \<open>The periodic update is defined whether the exchange is enabled or not.\<close>

lemma update_timer_total:
  assumes "wf_state s" "remote_update_interval (config s) \<noteq> 0"
  shows "\<exists>s'. usteer_send_update_timer ether_ntoa clk s = Some s' \<and> wf_state s'"
proof -
  let ?b = "s\<lparr>current_time := clk, remote_timer := Some (remote_update_interval (config s))\<rparr>"
  let ?s = "?b\<lparr>msg_seq := msg_seq s + 1\<rparr>"
  have "only_sends ?b ?s" by (auto simp: only_sends_def intro!: exI [of _ "msg_seq s + 1"] exI [of _ "[]"])
  from only_sends_wf(1) [OF this] have core: "wf_core ?s" using assms(1) by (simp add: wf_state_def)
  let ?f = "\<lambda>(n, l). usteer_send_node ether_ntoa (NLocal n) None ?s"
  have "?f x \<noteq> None" if "x \<in> set (local_nodes s)" for x
  proof -
    have "distinct (map fst (local_nodes s))" using assms(1) by (simp add: wf_state_def wf_core_def keys_ok_def dict_ok_def)
    moreover obtain n l where x: "x = (n, l)" by fastforce
    ultimately have "get_node ?s (NLocal n) = Some (ln_node l)" using that by (simp add: get_local_def)
    from send_node_total [OF core this, of None ether_ntoa] x show ?thesis by auto
  qed
  then have all: "those (map ?f (local_nodes s)) = Some (map (the \<circ> ?f) (local_nodes s))" by (rule those_total)
  let ?head = "[Put_int32 APMSG_ID (local_id s), Put_int32 APMSG_SEQ (msg_seq s + 1)]"
  let ?t = "usteer_update_send ?head (map (the \<circ> ?f) (local_nodes s)) ?s"
  have "only_sends ?b ?t" unfolding update_send_eq only_sends_def
    by (rule exI [of _ "msg_seq s + 1"], rule exI) simp
  from only_sends_wf(2) [OF this] have wft: "wf_state ?t" using assms(1) by simp
  have "remote_update_interval (config ?t) \<noteq> 0" using assms(2) by (simp add: update_send_eq)
  from check_timeout_total [OF wft this] obtain s' where "usteer_check_timeout ?t = Some s'" "wf_state s'" by blast
  with all show ?thesis by (simp add: usteer_send_update_timer_def usteer_update_init_def Let_def)
qed

section \<open>Properties\<close>

text \<open>
  C18. Expiry of remote nodes: with a non-zero update interval the check is defined on every
  well-formed state and keeps it well formed. It frees exactly the remote nodes whose count of
  silent intervals exceeds the configured timeout in intervals (with all their entries), in the
  order of the tree, and counts one more silent interval for each of the others.
\<close>

theorem remote_nodes_expire:
  assumes "wf_state s" "remote_update_interval (config s) \<noteq> 0"
  defines "timeout \<equiv> remote_node_timeout (config s) div remote_update_interval (config s)"
  shows "\<exists>s'. usteer_check_timeout s = Some s' \<and> wf_state s' \<and> out s' = out s \<and>
    map fst (remote_nodes s') = filter (\<lambda>k. \<not> silent timeout s k) (map fst (remote_nodes s)) \<and>
    (\<forall>k. \<not> silent timeout s k \<longrightarrow> check_view s' k = map_option (\<lambda>c. c + 1) (check_view s k))"
  unfolding timeout_def using check_timeout_total [OF assms(1,2)] .

theorem remote_nodes_expire_witness:
  "\<exists>s'. usteer_check_timeout remote_network = Some s' \<and> wf_state s' \<and> remote_nodes s' = []"
proof -
  have cfg: "remote_update_interval (config remote_network) = 1000" "remote_node_timeout (config remote_network) = 120000"
    by (simp_all add: remote_network_def network_def usteer_init_defaults_def)
  have "silent 120 remote_network 0"
    by (simp add: silent_def check_view_def get_remote_def remote_network_def remote_ap_def)
  moreover have "map fst (remote_nodes remote_network) = [0]" by (simp add: remote_network_def)
  ultimately show ?thesis
    using remote_nodes_expire [OF remote_network_wf] by (auto simp: cfg)
qed

end
