(* ===== verification/Sta_Event.thy ===== *)
theory Sta_Event
  imports Remote_Send
begin

text \<open>
  The event handler of sta.c: a probe, association or authentication request of a client at a
  local node updates the client's entry, is decided by the policy and counted.
\<close>

section \<open>Model\<close>

text \<open>\<^verbatim>\<open>si->stats[type]\<close>: undefined outside of the array.\<close>

definition upd_stats ::
    "nat \<Rightarrow> usteer_event_type \<Rightarrow> (sta_info_stats \<Rightarrow> sta_info_stats) \<Rightarrow> usteer_state \<Rightarrow> usteer_state option" where
  "upd_stats a type f s = do {
     si \<leftarrow> si_heap s a;
     st \<leftarrow> get_stats si type;
     upd_si a (\<lambda>si. si\<lparr>si_stats := (si_stats si)[event_index type := f st]\<rparr>) s
   }"

definition seen_band :: "s32 \<Rightarrow> sta \<Rightarrow> sta" where
  "seen_band freq st = (if sint freq < 4000 then st\<lparr>st_seen_2ghz := True\<rparr> else st\<lparr>st_seen_5ghz := True\<rparr>)"

text \<open>
  \<^verbatim>\<open>uint32_t diff = blocked_last_time - current_time\<close>: the low 32 bits of the 64-bit difference.
\<close>

definition block_diff :: "u32 \<Rightarrow> u64 \<Rightarrow> u32" where
  "block_diff blocked now = ucast (ucast blocked - now)"

definition count_request :: "usteer_config \<Rightarrow> u64 \<Rightarrow> sta_info_stats \<Rightarrow> sta_info_stats" where
  "count_request cfg now st =
     (let st = st\<lparr>requests := requests st + 1\<rparr>
      in if block_diff (blocked_last_time st) now > sta_block_timeout cfg then st\<lparr>blocked_cur := 0\<rparr> else st)"

definition count_answer :: "bool \<Rightarrow> u64 \<Rightarrow> sta_info_stats \<Rightarrow> sta_info_stats" where
  "count_answer ret now st =
     (if \<not> ret
      then st\<lparr>blocked_cur := blocked_cur st + 1, blocked_total := blocked_total st + 1,
              blocked_last_time := ucast now\<rparr>
      else st\<lparr>blocked_cur := 0\<rparr>)"

definition usteer_handle_sta_event ::
    "tree_insert \<Rightarrow> (mac \<Rightarrow> string) \<Rightarrow> u32 \<Rightarrow> node_ref \<Rightarrow> mac \<Rightarrow> usteer_event_type \<Rightarrow> s32 \<Rightarrow> s32 \<Rightarrow>
     usteer_state \<Rightarrow> (bool \<times> usteer_state) option" where
  "usteer_handle_sta_event ins ether_ntoa now r addr type freq signal s = do {
     let s = snd (usteer_sta_get addr True s);
     let s = upd_sta addr (seen_band freq) s;
     (found, create, s) \<leftarrow> usteer_sta_info_get addr r True s;
     a \<leftarrow> found;
     s \<leftarrow> usteer_sta_info_update ins now a signal False s;
     s \<leftarrow> upd_si a (\<lambda>si. si\<lparr>si_roam_scan_done := current_time s\<rparr>) s;
     s \<leftarrow> upd_stats a type (count_request (config s) (current_time s)) s;
     (ret, s) \<leftarrow> usteer_check_request a type s;
     s \<leftarrow> upd_stats a type (count_answer ret (current_time s)) s;
     s \<leftarrow> (if create then usteer_send_sta_update ether_ntoa a s else Some s);
     Some (ret, s)
   }"

section \<open>Lemmas\<close>

lemma upd_stats_step:
  assumes "wf_core s" "si_heap s a = Some si" "type \<noteq> EVENT_TYPE_MAX"
  shows "\<exists>s'. upd_stats a type f s = Some s' \<and> entry_step a s s' \<and> out s' = out s \<and>
    si_heap s' = (si_heap s)(a \<mapsto> si\<lparr>si_stats :=
      (si_stats si)[event_index type := f (si_stats si ! event_index type)]\<rparr>)"
proof -
  let ?g = "\<lambda>si'. si'\<lparr>si_stats := (si_stats si')[event_index type := f (si_stats si ! event_index type)]\<rparr>"
  obtain s' where u: "upd_si a ?g s = Some s'" using assms(2) by (simp add: upd_si_def)
  with entry_step_upd_si [OF assms(2), of ?g] have "entry_step a s s'" by (simp add: same_entry_def)
  moreover have "upd_stats a type f s = Some s'"
    using u assms(2) get_stats_total [OF assms] by (simp add: upd_stats_def)
  ultimately show ?thesis using u assms(2) by (auto simp: upd_si_Some)
qed

text \<open>The first steps of the handler: the entry exists afterwards.\<close>

lemma event_entry:
  assumes wf: "wf_state s" and nd: "get_node s r = Some nd"
  shows "\<exists>a c s'. usteer_sta_info_get m r True (upd_sta m (seen_band freq) (snd (usteer_sta_get m True s))) =
      Some (Some a, c, s') \<and> wf_state s' \<and> frame_eq s s' \<and> tq s' = tq s \<and> c = (entry s m r = None) \<and>
    (if c then si_heap s a = None \<and> si_heap s' = (si_heap s)(a \<mapsto> new_sta_info s m r nd)
     else entry s m r = Some a \<and> si_heap s' = si_heap s)"
proof -
  have core: "wf_core s" using wf by (simp add: wf_state_def)
  from sta_get_create [OF core, of m] wf obtain s1 where
    s1: "usteer_sta_get m True s = (Some m, s1)" "wf_core s1" "frame_eq s s1" "tq s1 = tq s"
      "si_heap s1 = si_heap s" "si_next s1 = si_next s" "get_node s1 = get_node s" "get_sta s1 m \<noteq> None"
      "no_empty_but m s1"
    by (auto simp: wf_state_def)
  let ?s2 = "upd_sta m (seen_band freq) s1"
  have band: "st_nodes (seen_band freq st) = st_nodes st" "st_addr (seen_band freq st) = st_addr st" for st
    by (simp_all add: seen_band_def)
  have core2: "wf_core ?s2" using s1(2) wf_core_upd_sta(1) [of "seen_band freq", OF band] by blast
  have sta2: "get_sta ?s2 m \<noteq> None" using s1(8) by simp
  have nd2: "get_node ?s2 r = Some nd" using nd s1(7) by simp
  have "sta_view ?s2 = sta_view s1" using sta_view_upd_sta [of "seen_band freq", OF band] by blast
  then have neb: "no_empty_but m ?s2" using s1(9) by (simp add: no_empty_but_def)
  have e2: "entry ?s2 = entry s" by (rule entry_cong [OF core core2]) (simp add: s1(5))
  have fr: "frame_eq s ?s2" using s1(3) by (simp add: frame_eq_def)
  have t: "current_time s1 = current_time s" using s1(3) by (simp add: frame_eq_def)
  from get_total [OF core2 sta2 nd2] neb obtain a c s' where
    s': "usteer_sta_info_get m r True ?s2 = Some (Some a, c, s')" "wf_core s'" "frame_eq ?s2 s'"
      "tq s' = tq ?s2" "c = (entry ?s2 m r = None)"
      "if c then a = si_next ?s2 \<and> si_heap s' = (si_heap ?s2)(a \<mapsto> new_sta_info ?s2 m r nd)
       else entry ?s2 m r = Some a \<and> s' = ?s2" "no_empty_sta s'" by blast
  have ni: "new_sta_info ?s2 m r nd = new_sta_info s m r nd" by (simp add: new_sta_info_def t)
  have "frame_eq s s'" using fr s'(3) by (rule frame_eq_trans)
  with s' s1 e2 ni wf_core_fresh [OF core] show ?thesis
    by (auto simp: wf_state_def split: if_splits)
qed

lemma grows_heap: "only_grows r s s' \<Longrightarrow> si_heap s a = Some si \<Longrightarrow> si_heap s' a = Some si"
  by (simp add: only_grows_def)

text \<open>The rest of the handler, on the entry.\<close>

lemma event_decide:
  assumes wf: "wf_state s" and si: "si_heap s a = Some si" and ty: "type \<noteq> EVENT_TYPE_MAX"
  shows "\<exists>ret t s' st.
    st = count_request (config s) (current_time s) (si_stats si ! event_index type) \<and>
    Option.bind (upd_stats a type (count_request (config s) (current_time s)) s) (usteer_check_request a type) =
      Some (ret, t) \<and>
    upd_stats a type (count_answer ret (current_time t)) t = Some s' \<and> wf_state s' \<and>
    current_time s' = current_time s \<and> config s' = config s \<and> tq s' = tq s \<and>
    si_heap s' a = Some (si\<lparr>si_stats := (si_stats si)[event_index type := count_answer ret (current_time s) st]\<rparr>)"
proof -
  have core: "wf_core s" using wf by (simp add: wf_state_def)
  let ?i = "event_index type" and ?st = "count_request (config s) (current_time s) (si_stats si ! event_index type)"
  from upd_stats_step [OF core si ty] obtain s1 where
    s1: "upd_stats a type (count_request (config s) (current_time s)) s = Some s1" "entry_step a s s1"
      "si_heap s1 = (si_heap s)(a \<mapsto> si\<lparr>si_stats := (si_stats si)[?i := ?st]\<rparr>)" by blast
  let ?si = "si\<lparr>si_stats := (si_stats si)[?i := ?st]\<rparr>"
  have wf1: "wf_state s1" using entry_step_wf(1) [OF s1(2) wf] .
  then have core1: "wf_core s1" by (simp add: wf_state_def)
  have si1: "si_heap s1 a = Some ?si" using s1(3) by simp
  from wf_core_entry [OF core1 si1] obtain nd where nd: "get_node s1 (si_node ?si) = Some nd" by metis
  from candidate_total [OF wf1 si1] obtain b u where u: "find_better_candidate a s1 = Some (b, u)"
    "wf_state u" "only_grows (si_node ?si) s1 u" by blast
  have "\<exists>ret t. usteer_check_request a type s1 = Some (ret, t) \<and> wf_state t \<and> only_grows (si_node ?si) s1 t"
    using u wf1 si1 nd get_stats_total [OF core1 si1 ty]
    by (auto simp: usteer_check_request_def Let_def)
  then obtain ret t where t: "usteer_check_request a type s1 = Some (ret, t)" "wf_state t"
    "only_grows (si_node ?si) s1 t" by blast
  have core_t: "wf_core t" using t(2) by (simp add: wf_state_def)
  have si_t: "si_heap t a = Some ?si" using grows_heap [OF t(3) si1] .
  from upd_stats_step [OF core_t si_t ty] obtain s' where
    s': "upd_stats a type (count_answer ret (current_time t)) t = Some s'" "entry_step a t s'"
      "si_heap s' = (si_heap t)(a \<mapsto> ?si\<lparr>si_stats :=
         (si_stats ?si)[?i := count_answer ret (current_time t) (si_stats ?si ! ?i)]\<rparr>)" by blast
  have "length (si_stats si) = 4" using core si by (simp add: wf_core_def si_ok_def)
  then have len: "?i < length (si_stats si)" using ty by (cases type) simp_all
  have fr: "current_time t = current_time s" "config t = config s" "tq t = tq s"
    using t(3) entry_step_frame [OF s1(2)] by (simp_all add: only_grows_def frame_eq_def)
  have "si_heap s' a = Some (si\<lparr>si_stats := (si_stats si)[?i := count_answer ret (current_time s) ?st]\<rparr>)"
    using s'(3) len fr by simp
  with s1(1) t(1) s'(1) entry_step_wf(1) [OF s'(2) t(2)] entry_step_frame [OF s'(2)] fr
  show ?thesis by auto
qed

text \<open>The whole handler, as one statement about its entry.\<close>

lemma event_total:
  fixes addr :: mac
  assumes ins: "avl_dups_tree ins" and wf: "wf_state s" and nd: "get_node s r = Some nd"
    and pos: "0 < sint (local_sta_timeout (config s))" and ty: "type \<noteq> EVENT_TYPE_MAX"
  defines "si0 \<equiv> (case entry s addr r of None \<Rightarrow> new_sta_info s addr r nd | Some a \<Rightarrow> the (si_heap s a))"
  shows "\<exists>ret s' a si. usteer_handle_sta_event ins ether_ntoa now r addr type freq signal s = Some (ret, s') \<and>
    wf_state s' \<and> entry s' addr r = Some a \<and> si_heap s' a = Some si \<and>
    (entry s addr r = None \<or> entry s addr r = Some a) \<and>
    si_seen si = current_time s \<and> si_roam_scan_done si = current_time s \<and>
    si_stats si = (si_stats si0)[event_index type := count_answer ret (current_time s)
      (count_request (config s) (current_time s) (si_stats si0 ! event_index type))]"
proof -
  from event_entry [OF wf nd, of addr freq] obtain a c s1 where
    s1: "usteer_sta_info_get addr r True (upd_sta addr (seen_band freq) (snd (usteer_sta_get addr True s))) =
        Some (Some a, c, s1)" "wf_state s1" "frame_eq s s1" "tq s1 = tq s" "c = (entry s addr r = None)"
      "if c then si_heap s a = None \<and> si_heap s1 = (si_heap s)(a \<mapsto> new_sta_info s addr r nd)
       else entry s addr r = Some a \<and> si_heap s1 = si_heap s" by blast
  have core: "wf_core s" using wf by (simp add: wf_state_def)
  have new: "si_sta (new_sta_info s addr r nd) = addr" "si_node (new_sta_info s addr r nd) = r"
    by (simp_all add: new_sta_info_def calloc_sta_info_def Let_def)
  have si: "si_heap s1 a = Some si0" "si_sta si0 = addr" "si_node si0 = r"
    using s1(5,6) new entry_iff [OF core, of addr r a] by (auto simp: si0_def split: if_splits)
  have cfg: "config s1 = config s" "current_time s1 = current_time s" using s1(3) by (simp_all add: frame_eq_def)
  have pos1: "0 < sint (local_sta_timeout (config s1))" using pos cfg by simp
  from avl_dups_tree.update_total [OF ins s1(2) si(1) pos1, of now signal False] obtain s2 si2 where
    s2: "usteer_sta_info_update ins now a signal False s1 = Some s2" "wf_state s2" "frame_eq s1 s2"
      "si_heap s2 = (si_heap s1)(a \<mapsto> si2)" "si_stats si2 = si_stats si0" "si_seen si2 = current_time s"
      "si_sta si2 = addr" "si_node si2 = r" using si cfg by force
  let ?f = "\<lambda>si. si\<lparr>si_roam_scan_done := current_time s2\<rparr>"
  have h2: "si_heap s2 a = Some si2" using s2(4) by simp
  obtain s3 where s3: "upd_si a ?f s2 = Some s3" using h2 by (simp add: upd_si_def)
  with entry_step_upd_si [OF h2, of ?f] have e3: "entry_step a s2 s3" "si_heap s3 a = Some (?f si2)"
    by (auto simp: same_entry_def)
  have wf3: "wf_state s3" using entry_step_wf(1) [OF e3(1) s2(2)] .
  have cfg3: "config s3 = config s" "current_time s3 = current_time s" "current_time s2 = current_time s"
    using entry_step_frame [OF e3(1)] s2(3) cfg by (simp_all add: frame_eq_def)
  from event_decide [OF wf3 e3(2) ty] obtain ret t s4 where
    s4: "Option.bind (upd_stats a type (count_request (config s3) (current_time s3)) s3) (usteer_check_request a type) =
        Some (ret, t)"
      "upd_stats a type (count_answer ret (current_time t)) t = Some s4" "wf_state s4"
      "si_heap s4 a = Some ((?f si2)\<lparr>si_stats := (si_stats si2)[event_index type := count_answer ret (current_time s)
         (count_request (config s) (current_time s) (si_stats si2 ! event_index type))]\<rparr>)" using cfg3 by auto
  let ?si = "(?f si2)\<lparr>si_stats := (si_stats si2)[event_index type := count_answer ret (current_time s)
         (count_request (config s) (current_time s) (si_stats si2 ! event_index type))]\<rparr>"
  have core4: "wf_core s4" using s4(3) by (simp add: wf_state_def)
  from send_update_total [OF core4 s4(4), of ether_ntoa] obtain s5 where
    s5: "usteer_send_sta_update ether_ntoa a s4 = Some s5" "only_sends s4 s5" by blast
  let ?s' = "if c then s5 else s4"
  have fin: "wf_state ?s'" "si_heap ?s' a = Some ?si"
    using s4(3,4) only_sends_wf(2) [OF s5(2)] only_sends_frame(1) [OF s5(2)] by auto
  then have "wf_core ?s'" by (simp add: wf_state_def)
  from entry_iff [OF this, of addr r a] fin(2) s2(7,8) have "entry ?s' addr r = Some a" by simp
  moreover have "usteer_handle_sta_event ins ether_ntoa now r addr type freq signal s = Some (ret, ?s')"
    using s1(1) s2(1) s3 s4(1,2) s5(1) by (auto simp: usteer_handle_sta_event_def bind_eq_Some_conv)
  ultimately show ?thesis
    using fin s1(5,6) s2(5,6) cfg3 by (intro exI [of _ ret] exI [of _ ?s'] exI [of _ a] exI [of _ ?si]) auto
qed

lemma block_diff_elapsed:
  fixes blocked t :: u32 and now :: u64
  assumes "0 < unat (ucast now - blocked :: u32)" "unat (ucast now - blocked :: u32) + unat t < 2 ^ 32"
  shows "t < block_diff blocked now"
proof -
  let ?d = "uint now - uint blocked"
  have e: "uint (ucast now - blocked :: u32) = ?d mod 2 ^ 32"
    by (simp add: uint_word_ariths unsigned_ucast_eq take_bit_eq_mod mod_simps)
  have "uint (ucast blocked :: u64) = uint blocked"
    using uint_lt2p [of blocked] by (simp add: unsigned_ucast_eq take_bit_int_eq_self)
  then have "uint (block_diff blocked now) = (- ?d) mod 2 ^ 64 mod 2 ^ 32"
    by (simp add: block_diff_def uint_word_ariths unsigned_ucast_eq take_bit_eq_mod)
  then have b: "uint (block_diff blocked now) = (- ?d) mod 2 ^ 32"
    by (simp add: mod_mod_cancel)
  have "0 < uint (ucast now - blocked :: u32)" using assms(1) by (simp only: uint_nat of_nat_0_less_iff)
  then have "0 < ?d mod 2 ^ 32" unfolding e .
  then have b': "uint (block_diff blocked now) = 2 ^ 32 - ?d mod 2 ^ 32"
    using b zmod_zminus1_eq_if [of ?d "2 ^ 32"] by simp
  have "int (unat (ucast now - blocked :: u32)) + int (unat t) < 2 ^ 32"
    using assms(2) unfolding of_nat_add [symmetric] by (simp only: zless_nat_eq_int_zless [symmetric]) simp
  then have "?d mod 2 ^ 32 + uint t < 2 ^ 32" unfolding uint_nat [symmetric] e .
  with b' show ?thesis by (simp add: word_less_def)
qed

lemma counted:
  "requests (count_answer ret now (count_request cfg now st)) = requests st + 1"
  "blocked_total (count_answer ret now (count_request cfg now st)) = blocked_total st + (if ret then 0 else 1)"
  "if ret then blocked_cur (count_answer ret now (count_request cfg now st)) = 0
   else blocked_cur (count_answer ret now (count_request cfg now st)) \<in> {1, blocked_cur st + 1} \<and>
     blocked_last_time (count_answer ret now (count_request cfg now st)) = ucast now"
  by (auto simp: count_answer_def count_request_def Let_def)

section \<open>Properties\<close>

text \<open>
  C10. Handling a request of a client at a known node (probe, association or authentication) is
  defined on every well-formed state with a positive station timeout, and keeps it well formed:
  no freed entry is followed. Afterwards the client has an entry at the node, the one it had
  if it had one, last seen now; the request is counted once under its type, the total of refused requests
  is advanced exactly when the answer is no, with the time, and the current streak then starts or goes
  on; it is reset when the answer is yes.
\<close>

theorem sta_event_handled:
  fixes addr :: mac
  assumes "avl_dups_tree ins" "wf_state s" "get_node s r = Some nd"
    and "0 < sint (local_sta_timeout (config s))" "type \<noteq> EVENT_TYPE_MAX"
  defines "si0 \<equiv> (case entry s addr r of None \<Rightarrow> new_sta_info s addr r nd | Some a \<Rightarrow> the (si_heap s a))"
    and "i \<equiv> event_index type"
  shows "\<exists>ret s' a si. usteer_handle_sta_event ins ether_ntoa now r addr type freq signal s = Some (ret, s') \<and>
    wf_state s' \<and> entry s' addr r = Some a \<and> si_heap s' a = Some si \<and>
    (entry s addr r = None \<or> entry s addr r = Some a) \<and>
    si_seen si = current_time s \<and> si_roam_scan_done si = current_time s \<and>
    (\<forall>j. j \<noteq> i \<longrightarrow> si_stats si ! j = si_stats si0 ! j) \<and>
    requests (si_stats si ! i) = requests (si_stats si0 ! i) + 1 \<and>
    blocked_total (si_stats si ! i) = blocked_total (si_stats si0 ! i) + (if ret then 0 else 1) \<and>
    (if ret then blocked_cur (si_stats si ! i) = 0
     else blocked_cur (si_stats si ! i) \<in> {1, blocked_cur (si_stats si0 ! i) + 1} \<and>
       blocked_last_time (si_stats si ! i) = ucast (current_time s))"
proof -
  from event_total [OF assms(1-5), where addr = addr and ether_ntoa = ether_ntoa and now = now and freq = freq and signal = signal,
      folded si0_def i_def] obtain ret s' a si where
    e: "usteer_handle_sta_event ins ether_ntoa now r addr type freq signal s = Some (ret, s')" "wf_state s'"
      "entry s' addr r = Some a" "si_heap s' a = Some si" "entry s addr r = None \<or> entry s addr r = Some a"
      "si_seen si = current_time s" "si_roam_scan_done si = current_time s" and
    st: "si_stats si = (si_stats si0)[i := count_answer ret (current_time s)
      (count_request (config s) (current_time s) (si_stats si0 ! i))]" by blast
  have "length (si_stats si) = 4" using e(2,4) by (auto simp: wf_state_def elim: wf_core_entry)
  then have "i < length (si_stats si0)" unfolding i_def st using assms(5) by (cases type) simp_all
  then have "si_stats si ! i = count_answer ret (current_time s) (count_request (config s) (current_time s) (si_stats si0 ! i))"
    using st by simp
  moreover have "\<forall>j. j \<noteq> i \<longrightarrow> si_stats si ! j = si_stats si0 ! j" using st by simp
  ultimately show ?thesis using e counted [of ret "current_time s" "config s" "si_stats si0 ! i"] by auto
qed

theorem sta_event_handled_witness:
  "\<exists>ret s'. usteer_handle_sta_event ordered_insert mac_addr_fmt 100000 (NLocal ''a'') client EVENT_TYPE_PROBE
      2412 (- 70) network = Some (ret, s') \<and> wf_state s' \<and> entry s' client (NLocal ''a'') = Some 0"
proof -
  have "0 < sint (local_sta_timeout (config network))" by (simp add: network_def usteer_init_defaults_def)
  from sta_event_handled [OF ordered.avl_dups_tree_axioms network_wf network_nodes(1) this,
      of EVENT_TYPE_PROBE mac_addr_fmt 100000 client 2412 "- 70"] show ?thesis
    by (auto simp: network_entry)
qed

text \<open>
  C35. The streak of refused requests never gets longer than one: the difference to the last refusal
  is taken the wrong way round, so as soon as any time has passed since it (and less than the
  range of the 32-bit clock minus the block timeout) the streak counts as timed out. With a
  limit of two or more retries a client is therefore refused for as long as the policy prefers
  another node.
\<close>

theorem blocked_streak_resets:
  assumes "avl_dups_tree ins" "wf_state s" "get_node s r = Some nd"
    and "0 < sint (local_sta_timeout (config s))" "type \<noteq> EVENT_TYPE_MAX"
    and "entry s addr r = Some a" "si_heap s a = Some si0"
    and "0 < unat (ucast (current_time s) - blocked_last_time (si_stats si0 ! event_index type) :: u32)"
    and "unat (ucast (current_time s) - blocked_last_time (si_stats si0 ! event_index type) :: u32) +
      unat (sta_block_timeout (config s)) < 2 ^ 32"
  shows "\<exists>ret s' si. usteer_handle_sta_event ins ether_ntoa now r addr type freq signal s = Some (ret, s') \<and>
    si_heap s' a = Some si \<and> blocked_cur (si_stats si ! event_index type) = (if ret then 0 else 1)"
proof -
  have core: "wf_core s" using assms(2) by (simp add: wf_state_def)
  have "length (si_stats si0) = 4" using core assms(7) by (simp add: wf_core_def si_ok_def)
  then have len: "event_index type < length (si_stats si0)" using assms(5) by (cases type) simp_all
  from event_total [OF assms(1-5), of ether_ntoa now addr freq signal] assms(6,7) obtain ret s' si where
    s': "usteer_handle_sta_event ins ether_ntoa now r addr type freq signal s = Some (ret, s')"
      "si_heap s' a = Some si"
      "si_stats si = (si_stats si0)[event_index type := count_answer ret (current_time s)
        (count_request (config s) (current_time s) (si_stats si0 ! event_index type))]" by auto
  have "blocked_cur (count_request (config s) (current_time s) (si_stats si0 ! event_index type)) = 0"
    using block_diff_elapsed [OF assms(8,9)] by (simp add: count_request_def Let_def)
  then have "blocked_cur (si_stats si ! event_index type) = (if ret then 0 else 1)"
    using s'(3) len by (simp add: count_answer_def)
  with s' show ?thesis by blast
qed

theorem blocked_streak_resets_witness:
  "\<exists>ret s' si. usteer_handle_sta_event ordered_insert mac_addr_fmt 100000 (NLocal ''a'') client EVENT_TYPE_PROBE
      2412 (- 70) (network\<lparr>si_heap := (si_heap network)(0 \<mapsto> client_at_a\<lparr>si_stats :=
        replicate 4 (zero_stats\<lparr>blocked_cur := 4, blocked_last_time := 99990\<rparr>)\<rparr>)\<rparr>) = Some (ret, s') \<and>
     si_heap s' 0 = Some si \<and> blocked_cur (si_stats si ! 0) = (if ret then 0 else 1)"
proof -
  let ?si = "client_at_a\<lparr>si_stats := replicate 4 (zero_stats\<lparr>blocked_cur := 4, blocked_last_time := 99990\<rparr>)\<rparr>"
  let ?s = "network\<lparr>si_heap := (si_heap network)(0 \<mapsto> ?si)\<rparr>"
  have at: "length (si_stats client_at_a) = 4" "si_sta client_at_a = client" "si_node client_at_a = NLocal ''a''"
    by (simp_all add: client_at_a_def calloc_sta_info_def)
  have wf: "wf_state ?s" using wf_state_heap_upd [OF network_wf network_heap(1), of ?si]
    by (simp add: same_entry_def at)
  then have core: "wf_core ?s" by (simp add: wf_state_def)
  have e: "entry ?s client (NLocal ''a'') = Some 0" by (simp add: entry_iff [OF core] at)
  have nd: "get_node ?s (NLocal ''a'') = Some (ap_node [0] 1 2412 10)"
    using network_nodes(1) by (simp only: get_node_cong)
  have h: "si_heap ?s 0 = Some ?si" by simp
  have c: "0 < sint (local_sta_timeout (config ?s))" by (simp add: network_def usteer_init_defaults_def)
  have d: "ucast (current_time ?s) - blocked_last_time (si_stats ?si ! event_index EVENT_TYPE_PROBE) = (10 :: u32)"
    "sta_block_timeout (config ?s) = 30000"
    by (simp_all add: network_def usteer_init_defaults_def)
  from blocked_streak_resets [OF ordered.avl_dups_tree_axioms wf nd c _ e h, of EVENT_TYPE_PROBE
      mac_addr_fmt 100000 2412 "- 70"] show ?thesis unfolding d by simp
qed

end
