(* ===== verification/Parse.thy ===== *)
theory Parse
  imports Remote_Send
begin

text \<open>
  parse.c and node.c: reading the messages of other instances.

  The attributes of a received message are values of an arbitrary type; the functions of libubox
  that read them are the record \<open>libblob\<close>, an argument of every reader. What the
  code relies on, that reading gives back what the builder was told, is the locale \<open>blob_codec\<close>;
  it only speaks of messages that the builder can hold (\<open>encodable\<close>). A payload used as a C string
  is readable only when it is there and has an end (\<open>blob_string\<close>).
\<close>

section \<open>Model\<close>

subsection \<open>The reader (libubox)\<close>

datatype blob_attr_type =
  BLOB_ATTR_UNSPEC | BLOB_ATTR_NESTED | BLOB_ATTR_BINARY | BLOB_ATTR_STRING | BLOB_ATTR_INT8 | BLOB_ATTR_INT32

datatype blobmsg_type =
  BLOBMSG_TYPE_UNSPEC | BLOBMSG_TYPE_ARRAY | BLOBMSG_TYPE_TABLE | BLOBMSG_TYPE_STRING
| BLOBMSG_TYPE_INT64 | BLOBMSG_TYPE_INT32 | BLOBMSG_TYPE_INT16 | BLOBMSG_TYPE_INT8 | BLOBMSG_TYPE_DOUBLE

text \<open>
  \<open>blob_parse\<close> gives the attribute table for a policy; \<open>blob_data\<close> is the payload, of \<^verbatim>\<open>blob_len\<close>
  bytes; \<open>blob_inner\<close> the payload seen as an attribute; \<open>blob_copy\<close> the \<^verbatim>\<open>blob_pad_len\<close> bytes of the
  attribute itself.
\<close>

record 'b libblob =
  blob_parse :: "'b \<Rightarrow> blob_attr_type list \<Rightarrow> nat \<Rightarrow> 'b option"
  blob_get_int32 :: "'b \<Rightarrow> u32"
  blob_get_int8 :: "'b \<Rightarrow> u8"
  blob_data :: "'b \<Rightarrow> u8 list"
  blob_string :: "'b \<Rightarrow> string option"
  blob_inner :: "'b \<Rightarrow> 'b"
  blob_copy :: "'b \<Rightarrow> blob"
  blob_attrs :: "'b \<Rightarrow> 'b list"
  blobmsg_attrs :: "'b \<Rightarrow> 'b list"
  blobmsg_check_attr :: "'b \<Rightarrow> bool"
  blobmsg_type_of :: "'b \<Rightarrow> blobmsg_type"

definition blob_len :: "'b libblob \<Rightarrow> 'b \<Rightarrow> nat" where
  "blob_len B x = length (blob_data B x)"

definition blob_pad_len :: "'b libblob \<Rightarrow> 'b \<Rightarrow> nat" where
  "blob_pad_len B x = length (blob_copy B x)"

subsection \<open>Parsed messages (remote.h)\<close>

record 'b apmsg =
  apmsg_id :: u32
  apmsg_seq :: u32
  apmsg_nodes :: 'b

text \<open>The strings point into the message; \<^term>\<open>None\<close> is a pointer that must not be followed.\<close>

record 'b apmsg_node =
  apn_name :: "string option"
  apn_ssid :: "string option"
  apn_bssid :: "string option"
  apn_freq :: s32
  apn_n_assoc :: s32
  apn_max_assoc :: s32
  apn_noise :: s32
  apn_load :: s32
  apn_stations :: 'b
  apn_rrm_nr :: "'b option"
  apn_script_data :: "'b option"

record apmsg_sta =
  aps_addr :: mac
  aps_connected :: bool
  aps_signal :: s32
  aps_timeout :: s32
  aps_seen :: s32

subsection \<open>The parsers (parse.c)\<close>

definition apmsg_policy :: "blob_attr_type list" where
  "apmsg_policy = [BLOB_ATTR_INT32, BLOB_ATTR_INT32, BLOB_ATTR_NESTED]"

text \<open>A result of \<^term>\<open>None\<close> is the return value \<^verbatim>\<open>false\<close>.\<close>

definition parse_apmsg :: "'b libblob \<Rightarrow> 'b \<Rightarrow> 'b apmsg option" where
  "parse_apmsg B data =
     (let tb = blob_parse B data apmsg_policy
      in case (tb APMSG_ID, tb APMSG_SEQ, tb APMSG_NODES) of
           (Some ident, Some seq, Some nodes) \<Rightarrow>
             Some \<lparr>apmsg_id = blob_get_int32 B ident, apmsg_seq = blob_get_int32 B seq, apmsg_nodes = nodes\<rparr>
         | _ \<Rightarrow> None)"

fun get_int32 :: "'b libblob \<Rightarrow> 'b option \<Rightarrow> u32" where
  "get_int32 B None = 0"
| "get_int32 B (Some attr) = blob_get_int32 B attr"

definition apmsg_node_policy :: "blob_attr_type list" where
  "apmsg_node_policy =
     [BLOB_ATTR_STRING, BLOB_ATTR_INT32, BLOB_ATTR_INT32, BLOB_ATTR_NESTED, BLOB_ATTR_INT32, BLOB_ATTR_INT32,
      BLOB_ATTR_UNSPEC, BLOB_ATTR_UNSPEC, BLOB_ATTR_INT32, BLOB_ATTR_NESTED, BLOB_ATTR_NESTED]"

text \<open>
  The neighbor report: its elements are looked at until one is neither a valid attribute nor of
  type string, which rejects the report; then the report itself has to be an array.
\<close>

definition parse_rrm_nr :: "'b libblob \<Rightarrow> 'b option \<Rightarrow> 'b option" where
  "parse_rrm_nr B cur =
     (case cur of
        None \<Rightarrow> None
      | Some cur \<Rightarrow>
          if 4 \<le> blob_len B cur \<and> blob_pad_len B (blob_inner B cur) \<le> blob_len B cur
          then
            (let rrm_nr = blob_inner B cur
             in if (\<forall>x \<in> set (blobmsg_attrs B rrm_nr).
                      blobmsg_check_attr B x \<or> blobmsg_type_of B x = BLOBMSG_TYPE_STRING) \<and>
                   blobmsg_type_of B rrm_nr = BLOBMSG_TYPE_ARRAY
                then Some rrm_nr else None)
          else None)"

definition parse_apmsg_node :: "'b libblob \<Rightarrow> 'b \<Rightarrow> 'b apmsg_node option" where
  "parse_apmsg_node B data =
     (let tb = blob_parse B data apmsg_node_policy
      in case (tb APMSG_NODE_NAME, tb APMSG_NODE_FREQ, tb APMSG_NODE_N_ASSOC, tb APMSG_NODE_STATIONS,
               tb APMSG_NODE_SSID) of
           (Some name, Some freq, Some n_assoc, Some stas, Some ssid) \<Rightarrow>
             Some \<lparr>apn_name = blob_string B name,
                   apn_ssid = blob_string B ssid,
                   apn_bssid = Option.bind (tb APMSG_NODE_BSSID) (blob_string B),
                   apn_freq = blob_get_int32 B freq,
                   apn_n_assoc = blob_get_int32 B n_assoc,
                   apn_max_assoc = get_int32 B (tb APMSG_NODE_MAX_ASSOC),
                   apn_noise = get_int32 B (tb APMSG_NODE_NOISE),
                   apn_load = get_int32 B (tb APMSG_NODE_LOAD),
                   apn_stations = stas,
                   apn_rrm_nr = parse_rrm_nr B (tb APMSG_NODE_RRM_NR),
                   apn_script_data = tb APMSG_NODE_SCRIPT_DATA\<rparr>
         | _ \<Rightarrow> None)"

definition apmsg_sta_policy :: "blob_attr_type list" where
  "apmsg_sta_policy =
     [BLOB_ATTR_BINARY, BLOB_ATTR_INT32, BLOB_ATTR_INT32, BLOB_ATTR_INT32, BLOB_ATTR_INT8]"

fun mac_of_bytes :: "u8 list \<Rightarrow> mac option" where
  "mac_of_bytes [a, b, c, d, e, f] = Some (MAC a b c d e f)"
| "mac_of_bytes _ = None"

definition parse_apmsg_sta :: "'b libblob \<Rightarrow> 'b \<Rightarrow> apmsg_sta option" where
  "parse_apmsg_sta B data =
     (let tb = blob_parse B data apmsg_sta_policy
      in case (tb APMSG_STA_ADDR, tb APMSG_STA_SIGNAL, tb APMSG_STA_SEEN, tb APMSG_STA_TIMEOUT,
               tb APMSG_STA_CONNECTED) of
           (Some addr, Some signal, Some seen, Some timeout, Some conn) \<Rightarrow>
             (case mac_of_bytes (blob_data B addr) of
                None \<Rightarrow> None
              | Some m \<Rightarrow>
                  Some \<lparr>aps_addr = m,
                        aps_connected = (blob_get_int8 B conn \<noteq> 0),
                        aps_signal = blob_get_int32 B signal,
                        aps_timeout = blob_get_int32 B timeout,
                        aps_seen = blob_get_int32 B seen\<rparr>)
         | _ \<Rightarrow> None)"

subsection \<open>Stored attributes (node.c)\<close>

text \<open>
  The destination buffer is resized when the lengths differ, then overwritten; a copy past the end
  of the buffer is undefined. What \<^verbatim>\<open>realloc\<close> adds has no specified content; zeros stand for it.
\<close>

definition realloc :: "u8 list \<Rightarrow> nat \<Rightarrow> u8 list" where
  "realloc d n = take n d @ replicate (n - length d) 0"

definition memcpy :: "u8 list \<Rightarrow> u8 list \<Rightarrow> u8 list option" where
  "memcpy d src = (if length src \<le> length d then Some (src @ drop (length src) d) else None)"

definition usteer_node_set_blob :: "'b libblob \<Rightarrow> blob option \<Rightarrow> 'b option \<Rightarrow> blob option option" where
  "usteer_node_set_blob B dest val =
     (case val of
        None \<Rightarrow> Some None
      | Some v \<Rightarrow>
          (let len = (case dest of None \<Rightarrow> 0 | Some d \<Rightarrow> length d);
               new_len = blob_pad_len B v;
               buffer = (case dest of None \<Rightarrow> [] | Some d \<Rightarrow> d);
               buffer = (if new_len \<noteq> len then realloc buffer new_len else buffer)
           in map_option Some (memcpy buffer (blob_copy B v))))"

text \<open>The copy always fits.\<close>

lemma set_blob_eq: "usteer_node_set_blob B dest val = Some (map_option (blob_copy B) val)"
  by (auto simp: usteer_node_set_blob_def blob_pad_len_def memcpy_def realloc_def Let_def split: option.splits)

section \<open>Interface: reading what was built\<close>

fun item_id :: "blob_item \<Rightarrow> nat" where
  "item_id (Put i _) = i"
| "item_id (Put_string i _) = i"
| "item_id (Put_int8 i _) = i"
| "item_id (Put_int32 i _) = i"
| "item_id (Put_blob i _) = i"
| "item_id (Put_array_field _) = 1"
| "item_id (Nest i _) = i"

fun item_fits :: "blob_attr_type \<Rightarrow> blob_item \<Rightarrow> bool" where
  "item_fits BLOB_ATTR_UNSPEC _ = True"
| "item_fits BLOB_ATTR_BINARY (Put _ _) = True"
| "item_fits BLOB_ATTR_STRING (Put_string _ _) = True"
| "item_fits BLOB_ATTR_INT8 (Put_int8 _ _) = True"
| "item_fits BLOB_ATTR_INT32 (Put_int32 _ _) = True"
| "item_fits BLOB_ATTR_NESTED (Nest _ _) = True"
| "item_fits BLOB_ATTR_NESTED (Put_blob _ _) = True"
| "item_fits _ _ = False"

text \<open>The attributes of a node record, as \<^term>\<open>usteer_send_node\<close> builds them.\<close>

definition node_items ::
    "(mac \<Rightarrow> string) \<Rightarrow> string \<Rightarrow> usteer_node \<Rightarrow> blob_item list \<Rightarrow> blob_item list" where
  "node_items ether_ntoa name node stas =
     [Put_string APMSG_NODE_NAME name, Put_string APMSG_NODE_SSID (node_ssid node),
      Put_string APMSG_NODE_BSSID (ether_ntoa (node_bssid node)),
      Put_int32 APMSG_NODE_FREQ (node_freq node), Put_int32 APMSG_NODE_NOISE (node_noise node),
      Put_int32 APMSG_NODE_LOAD (node_load node), Put_int32 APMSG_NODE_N_ASSOC (node_n_assoc node),
      Put_int32 APMSG_NODE_MAX_ASSOC (node_max_assoc node)] @
     (case node_rrm_nr node of None \<Rightarrow> [] | Some nr \<Rightarrow> [Nest APMSG_NODE_RRM_NR [Put_array_field nr]]) @
     (case node_script_data node of None \<Rightarrow> [] | Some d \<Rightarrow> [Put_blob APMSG_NODE_SCRIPT_DATA d]) @
     [Nest APMSG_NODE_STATIONS stas]"

text \<open>Attributes that fit a policy.\<close>

definition fitting :: "blob_attr_type list \<Rightarrow> blob_item list \<Rightarrow> bool" where
  "fitting policy items \<longleftrightarrow> distinct (map item_id items) \<and>
     (\<forall>x \<in> set items. item_id x < length policy \<and> item_fits (policy ! item_id x) x)"

lemma send_node_items:
  assumes "usteer_send_node ether_ntoa r only s = Some x"
  obtains node name stas where "get_node s r = Some node" "usteer_node_name s r = Some name"
    "x = Nest 0 (node_items ether_ntoa name node stas)"
    "if remote_disabled (config s) then stas = []
     else send_sta_infos s (case only of Some a \<Rightarrow> [a] | None \<Rightarrow> node_sta_info node) = Some stas"
  using assms by (auto simp: usteer_send_node_def node_items_def bind_eq_Some_conv split: if_splits)

locale blob_codec =
  fixes B :: "'b libblob" and enc :: "blob_item \<Rightarrow> 'b" and encodable :: "blob_item \<Rightarrow> bool"
  assumes encodable_nest: "encodable (Nest i items) \<Longrightarrow> x \<in> set items \<Longrightarrow> encodable x"
    and parse_built: "encodable (Nest i items) \<Longrightarrow> distinct (map item_id items) \<Longrightarrow> x \<in> set items \<Longrightarrow>
      item_id x < length policy \<Longrightarrow> item_fits (policy ! item_id x) x \<Longrightarrow>
      blob_parse B (enc (Nest i items)) policy (item_id x) = Some (enc x)"
    and parse_absent: "encodable (Nest i items) \<Longrightarrow> n \<notin> item_id ` set items \<Longrightarrow>
      blob_parse B (enc (Nest i items)) policy n = None"
    and attrs_built: "encodable (Nest i items) \<Longrightarrow> blob_attrs B (enc (Nest i items)) = map enc items"
    and int32_built: "encodable (Put_int32 i v) \<Longrightarrow> blob_get_int32 B (enc (Put_int32 i v)) = v"
    and int8_built: "encodable (Put_int8 i b) \<Longrightarrow> blob_get_int8 B (enc (Put_int8 i b)) = b"
    and data_built: "encodable (Put i bs) \<Longrightarrow> blob_data B (enc (Put i bs)) = bs"
    and string_built: "encodable (Put_string i str) \<Longrightarrow> CHR 0x00 \<notin> set str \<Longrightarrow>
      blob_string B (enc (Put_string i str)) = Some str"
begin

text \<open>The attribute table of a message whose attributes fit the policy.\<close>

lemma parse_fitting:
  assumes en: "encodable (Nest i items)" and fit: "fitting policy items"
  shows "blob_parse B (enc (Nest i items)) policy n = map_option enc (List.find (\<lambda>x. item_id x = n) items)"
proof (cases "List.find (\<lambda>x. item_id x = n) items")
  case None
  then have "n \<notin> item_id ` set items" by (auto simp: find_None_iff)
  with parse_absent [OF en this] None show ?thesis by simp
next
  case (Some x)
  then have "x \<in> set items" "item_id x = n" using find_Some_mem by fastforce+
  with parse_built [OF en _ this(1), of policy] fit Some show ?thesis by (auto simp: fitting_def)
qed

text \<open>A station record is read back as it was sent.\<close>

lemma sta_roundtrip:
  assumes "encodable (usteer_send_sta_info s si)"
  shows "parse_apmsg_sta B (enc (usteer_send_sta_info s si)) =
    (let seen = (ucast (current_time s - si_seen si) :: s32) in
     Some \<lparr>aps_addr = si_sta si, aps_connected = (si_connected si \<noteq> 0), aps_signal = si_signal si,
       aps_timeout = local_sta_timeout (config s) - seen, aps_seen = seen\<rparr>)"
proof -
  define seen where "seen = (ucast (current_time s - si_seen si) :: s32)"
  define conn :: u8 where "conn = (if si_connected si \<noteq> 0 then 1 else 0)"
  define tmo where "tmo = local_sta_timeout (config s) - seen"
  define items where "items =
    [Put APMSG_STA_ADDR (mac_bytes (si_sta si)), Put_int8 APMSG_STA_CONNECTED conn,
     Put_int32 APMSG_STA_SIGNAL (si_signal si), Put_int32 APMSG_STA_SEEN seen, Put_int32 APMSG_STA_TIMEOUT tmo]"
  have built: "usteer_send_sta_info s si = Nest 0 items"
    by (simp add: usteer_send_sta_info_def Let_def seen_def conn_def tmo_def items_def)
  have "fitting apmsg_sta_policy items" by (simp add: fitting_def items_def apmsg_defs apmsg_sta_policy_def)
  note tb = parse_fitting [OF assms [unfolded built] this]
  have en: "encodable x" if "x \<in> set items" for x using encodable_nest [OF assms [unfolded built] that] .
  obtain a b c d e f where m: "si_sta si = MAC a b c d e f" by (cases "si_sta si")
  have "(conn \<noteq> 0) = (si_connected si \<noteq> 0)" by (simp add: conn_def)
  moreover have "blob_data B (enc (Put APMSG_STA_ADDR (mac_bytes (si_sta si)))) = mac_bytes (si_sta si)"
    by (rule data_built, rule en) (simp add: items_def)
  moreover have "blob_get_int8 B (enc (Put_int8 APMSG_STA_CONNECTED conn)) = conn"
    by (rule int8_built, rule en) (simp add: items_def)
  moreover have "blob_get_int32 B (enc (Put_int32 k v)) = v" if "Put_int32 k v \<in> set items" for k v
    by (rule int32_built, rule en, rule that)
  ultimately show ?thesis
    unfolding built parse_apmsg_sta_def tb
    by (simp add: items_def apmsg_defs m flip: seen_def tmo_def)
qed

text \<open>So is the head of a message.\<close>

lemma apmsg_roundtrip:
  assumes "encodable (Nest 0 [Put_int32 APMSG_ID i, Put_int32 APMSG_SEQ q, Nest APMSG_NODES nodes])"
  shows "parse_apmsg B (enc (Nest 0 [Put_int32 APMSG_ID i, Put_int32 APMSG_SEQ q, Nest APMSG_NODES nodes])) =
    Some \<lparr>apmsg_id = i, apmsg_seq = q, apmsg_nodes = enc (Nest APMSG_NODES nodes)\<rparr>"
proof -
  let ?items = "[Put_int32 APMSG_ID i, Put_int32 APMSG_SEQ q, Nest APMSG_NODES nodes]"
  have "fitting apmsg_policy ?items" by (simp add: fitting_def apmsg_defs apmsg_policy_def)
  note tb = parse_fitting [OF assms this]
  have "blob_get_int32 B (enc (Put_int32 k v)) = v" if "Put_int32 k v \<in> set ?items" for k v
    by (rule int32_built, rule encodable_nest [OF assms that])
  then show ?thesis unfolding parse_apmsg_def tb by (simp add: apmsg_defs)
qed

text \<open>And the record of a node.\<close>

lemma node_roundtrip:
  fixes name :: string and node :: usteer_node
  assumes en: "encodable (Nest 0 (node_items ether_ntoa name node stas))"
    and str: "CHR 0x00 \<notin> set name" "CHR 0x00 \<notin> set (node_ssid node)"
      "CHR 0x00 \<notin> set (ether_ntoa (node_bssid node))"
  shows "\<exists>rrm. parse_apmsg_node B (enc (Nest 0 (node_items ether_ntoa name node stas))) = Some
    \<lparr>apn_name = Some name, apn_ssid = Some (node_ssid node), apn_bssid = Some (ether_ntoa (node_bssid node)),
     apn_freq = node_freq node, apn_n_assoc = node_n_assoc node, apn_max_assoc = node_max_assoc node,
     apn_noise = node_noise node, apn_load = node_load node,
     apn_stations = enc (Nest APMSG_NODE_STATIONS stas),
     apn_rrm_nr = rrm,
     apn_script_data = map_option (\<lambda>d. enc (Put_blob APMSG_NODE_SCRIPT_DATA d)) (node_script_data node)\<rparr> \<and>
    (node_rrm_nr node = None \<longrightarrow> rrm = None)"
proof -
  let ?items = "node_items ether_ntoa name node stas"
  have "fitting apmsg_node_policy ?items"
    by (simp add: fitting_def node_items_def apmsg_defs apmsg_node_policy_def split: option.splits)
  note tb = parse_fitting [OF en this]
  have i32: "blob_get_int32 B (enc (Put_int32 k v)) = v" if "Put_int32 k v \<in> set ?items" for k v
    by (rule int32_built, rule encodable_nest [OF en that])
  have st: "blob_string B (enc (Put_string k v)) = Some v"
    if "Put_string k v \<in> set ?items" "CHR 0x00 \<notin> set v" for k v
    using that(2) by (rule string_built [OF encodable_nest [OF en that(1)]])
  let ?rrm = "parse_rrm_nr B (map_option (\<lambda>nr. enc (Nest APMSG_NODE_RRM_NR [Put_array_field nr])) (node_rrm_nr node))"
  have "parse_apmsg_node B (enc (Nest 0 ?items)) = Some
    \<lparr>apn_name = Some name, apn_ssid = Some (node_ssid node), apn_bssid = Some (ether_ntoa (node_bssid node)),
     apn_freq = node_freq node, apn_n_assoc = node_n_assoc node, apn_max_assoc = node_max_assoc node,
     apn_noise = node_noise node, apn_load = node_load node,
     apn_stations = enc (Nest APMSG_NODE_STATIONS stas),
     apn_rrm_nr = ?rrm,
     apn_script_data = map_option (\<lambda>d. enc (Put_blob APMSG_NODE_SCRIPT_DATA d)) (node_script_data node)\<rparr>"
    using i32 st str unfolding parse_apmsg_node_def tb
    by (simp add: node_items_def apmsg_defs split: option.splits)
  then show ?thesis by (intro exI [of _ ?rrm]) (simp add: parse_rrm_nr_def)
qed

end

section \<open>The message as the reader sees it\<close>

text \<open>
  The messages of the model are the calls of the builder themselves; reading them directly, with
  \<open>pad\<close> for the bytes of an attribute, is a reader in the sense of the interface. Of several
  attributes with one number the last that fits the policy is taken.
\<close>

fun item_children :: "blob_item \<Rightarrow> blob_item list" where
  "item_children (Nest _ items) = items"
| "item_children _ = []"

fun item_int32 :: "blob_item \<Rightarrow> u32" where
  "item_int32 (Put_int32 _ v) = v"
| "item_int32 _ = 0"

fun item_int8 :: "blob_item \<Rightarrow> u8" where
  "item_int8 (Put_int8 _ v) = v"
| "item_int8 _ = 0"

fun item_data :: "blob_item \<Rightarrow> u8 list" where
  "item_data (Put _ bs) = bs"
| "item_data _ = []"

fun item_string :: "blob_item \<Rightarrow> string option" where
  "item_string (Put_string _ str) = Some str"
| "item_string _ = None"

definition item_reader :: "(blob_item \<Rightarrow> blob) \<Rightarrow> blob_item libblob" where
  "item_reader pad = \<lparr>
     blob_parse = (\<lambda>x policy n. if n < length policy
        then List.find (\<lambda>y. item_id y = n \<and> item_fits (policy ! n) y) (rev (item_children x)) else None),
     blob_get_int32 = item_int32, blob_get_int8 = item_int8, blob_data = item_data,
     blob_string = item_string, blob_inner = hd \<circ> item_children, blob_copy = pad,
     blob_attrs = item_children, blobmsg_attrs = item_children,
     blobmsg_check_attr = (\<lambda>_. True), blobmsg_type_of = (\<lambda>_. BLOBMSG_TYPE_ARRAY)\<rparr>"

interpretation items: blob_codec "item_reader pad" "\<lambda>x. x" "\<lambda>_. True"
proof unfold_locales
  fix i n :: nat and items x and policy :: "blob_attr_type list"
  show "blob_parse (item_reader pad) (Nest i items) policy (item_id x) = Some x"
    if ids: "distinct (map item_id items)" and x: "x \<in> set items" "item_id x < length policy"
      "item_fits (policy ! item_id x) x"
  proof -
    have "y = x" if "y \<in> set items" "item_id y = item_id x" for y
      using ids x(1) that by (auto simp: distinct_map inj_on_def)
    moreover obtain y where y:
      "List.find (\<lambda>y. item_id y = item_id x \<and> item_fits (policy ! item_id x) y) (rev items) = Some y"
      using x by (cases "List.find (\<lambda>y. item_id y = item_id x \<and> item_fits (policy ! item_id x) y) (rev items)")
        (auto simp: find_None_iff)
    moreover have "y \<in> set items \<and> item_id y = item_id x"
      using find_Some_mem [OF y] by simp
    ultimately have "List.find (\<lambda>y. item_id y = item_id x \<and> item_fits (policy ! item_id x) y) (rev items) = Some x"
      by simp
    with x show ?thesis by (simp add: item_reader_def)
  qed
  show "blob_parse (item_reader pad) (Nest i items) policy n = None" if "n \<notin> item_id ` set items"
    using that by (auto simp: item_reader_def find_None_iff)
qed (auto simp: item_reader_def)

end
