(* ===== verification/Ssid.thy ===== *)
theory Ssid
  imports Stations
begin

text \<open>
  The list of the SSIDs the daemon takes care of (the end of the configuration part of ubus.c).
  A stored SSID is a buffer of 33 bytes filled by \<^verbatim>\<open>strncpy\<close> and compared by \<^verbatim>\<open>strncmp\<close> over its
  size; strings here have no null characters.
\<close>

section \<open>Model\<close>

definition ssid_buffer :: "string \<Rightarrow> string" where
  "ssid_buffer ssid = take 33 ssid"

text \<open>The loop with its local \<^verbatim>\<open>valid\<close>.\<close>

fun valid_ssid_loop :: "bool \<Rightarrow> string list \<Rightarrow> string \<Rightarrow> bool" where
  "valid_ssid_loop valid [] ssid = valid"
| "valid_ssid_loop valid (u # us) ssid =
     (if take 33 u = take 33 ssid then True else valid_ssid_loop False us ssid)"

definition usteer_is_valid_ssid :: "usteer_state \<Rightarrow> string \<Rightarrow> bool" where
  "usteer_is_valid_ssid s ssid =
     (case config_ssid_list s of None \<Rightarrow> True | Some us \<Rightarrow> valid_ssid_loop True us ssid)"

text \<open>The list that \<^verbatim>\<open>config_set_ssid\<close> builds: each new element is put in front.\<close>

definition build_ssid_list :: "string list \<Rightarrow> string list" where
  "build_ssid_list names = foldl (\<lambda>us ssid. ssid_buffer ssid # us) [] names"

section \<open>Lemmas\<close>

lemma valid_ssid_loop_iff:
  "valid_ssid_loop v us ssid \<longleftrightarrow> (\<exists>u \<in> set us. take 33 u = take 33 ssid) \<or> us = [] \<and> v"
  by (induction v us ssid rule: valid_ssid_loop.induct) auto

lemma build_ssid_list_eq: "build_ssid_list names = rev (map ssid_buffer names)"
proof -
  have "foldl (\<lambda>us ssid. ssid_buffer ssid # us) acc names = rev (map ssid_buffer names) @ acc" for acc
    by (induction names arbitrary: acc) auto
  then show ?thesis by (simp add: build_ssid_list_def)
qed

section \<open>Properties\<close>

text \<open>
  After a list of SSIDs of at most 33 bytes has been configured, exactly the SSIDs of the list
  are accepted; an empty list, or none, accepts every SSID.
\<close>

lemma valid_ssid_iff_listed:
  assumes "\<forall>x \<in> set names. length x \<le> 33" "length ssid \<le> 33"
  shows "(usteer_is_valid_ssid (s\<lparr>config_ssid_list := Some (build_ssid_list names)\<rparr>) ssid \<longleftrightarrow>
      names = [] \<or> ssid \<in> set names) \<and>
    usteer_is_valid_ssid (s\<lparr>config_ssid_list := None\<rparr>) ssid"
  using assms
  by (auto simp: usteer_is_valid_ssid_def build_ssid_list_eq valid_ssid_loop_iff ssid_buffer_def)

end
