(* ===== verification/Remote_Recv.thy ===== *)
theory Remote_Recv
  imports Parse Ssid
begin

text \<open>
  The receiving half of remote.c: the messages of other instances become remote nodes and entries
  of stations at them.

  Parameters: the reader of libubox (\<open>B\<close>), the lookup and insertion of the libubox tree the remote
  nodes are kept in (\<open>rfind\<close>, \<open>rins\<close>, with the contract \<open>remote_tree\<close>), the timer insertion of the
  timeout queue, the readings of the clock it takes (one per packet, node and station, \<open>now\<close>), and
  the address conversions \<open>ether_aton\<close> and \<open>inet_ntop\<close> of the C library.
\<close>

section \<open>Model\<close>

type_synonym remote_list = "(nat \<times> usteer_remote_node) list"
type_synonym remote_find = "u64 \<Rightarrow> remote_list \<Rightarrow> nat option"
type_synonym remote_insert = "nat \<times> usteer_remote_node \<Rightarrow> remote_list \<Rightarrow> remote_list"

text \<open>The comparator returns the low 32 bits of the difference of the keys, as an \<^verbatim>\<open>int\<close>.\<close>

definition remote_node_cmp :: "u64 \<Rightarrow> u64 \<Rightarrow> s32" where
  "remote_node_cmp v1 v2 = ucast (v2 - v1)"

subsection \<open>Stations\<close>

definition interface_add_station ::
    "'b libblob \<Rightarrow> tree_insert \<Rightarrow> u32 \<Rightarrow> nat \<Rightarrow> 'b \<Rightarrow> usteer_state \<Rightarrow> usteer_state option" where
  "interface_add_station B ins now k data s =
     (case parse_apmsg_sta B data of
        None \<Rightarrow> Some s
      | Some msg \<Rightarrow>
          if sint (aps_timeout msg) \<le> 0 then Some s
          else do {
            (a, create, s) \<leftarrow> sta_info_obtain (aps_addr msg) (NRemote k) s;
            s \<leftarrow> upd_si a (\<lambda>si. si\<lparr>si_connected := (if aps_connected msg then 1 else 0),
                                si_signal := aps_signal msg,
                                si_seen := current_time s - scast (aps_seen msg)\<rparr>) s;
            usteer_sta_info_update_timeout ins now a (aps_timeout msg) s
          })"

subsection \<open>Nodes\<close>

text \<open>
  The search goes through the nodes from the one the lookup found on, as long as they belong to the
  instance. (Past the last element \<^verbatim>\<open>avl_next_element\<close> yields the head of the tree, not a node.)
\<close>

fun get_node_scan :: "u64 \<Rightarrow> string \<Rightarrow> remote_list \<Rightarrow> nat option" where
  "get_node_scan i name [] = None"
| "get_node_scan i name ((a, rn) # xs) =
     (if rn_key rn = i then (if rn_name rn = name then Some a else get_node_scan i name xs) else None)"

definition new_remote_node :: "string \<Rightarrow> u64 \<Rightarrow> string \<Rightarrow> usteer_remote_node" where
  "new_remote_node addr i name =
     \<lparr>rn_key = i, rn_name = name, rn_full_name = addr @ ''#'' @ name,
      rn_node = calloc_node NODE_TYPE_REMOTE, rn_iface = [], rn_check = 0\<rparr>"

definition interface_get_node ::
    "remote_find \<Rightarrow> remote_insert \<Rightarrow> string \<Rightarrow> u64 \<Rightarrow> string \<Rightarrow> usteer_state \<Rightarrow> nat \<times> usteer_state" where
  "interface_get_node rfind rins addr i name s =
     (case (case rfind i (remote_nodes s) of
              None \<Rightarrow> None
            | Some a \<Rightarrow> get_node_scan i name (dropWhile (\<lambda>x. fst x \<noteq> a) (remote_nodes s))) of
        Some a \<Rightarrow> (a, s)
      | None \<Rightarrow>
          (let a = rn_next s
           in (a, s\<lparr>remote_nodes := rins (a, new_remote_node addr i name) (remote_nodes s), rn_next := Suc a\<rparr>)))"

text \<open>
  \<^verbatim>\<open>snprintf\<close> into the buffer of 33 characters keeps 32 of them. The address string of the message is
  followed only after the other fields have been stored; \<^verbatim>\<open>ether_aton\<close> returns a null pointer on a
  string that is not an address, and the copy follows it.
\<close>

definition set_remote_node ::
    "'b libblob \<Rightarrow> string \<Rightarrow> 'b apmsg_node \<Rightarrow> string \<Rightarrow> usteer_remote_node \<Rightarrow> usteer_remote_node option" where
  "set_remote_node B iface msg ssid rn = do {
     let node = rn_node rn;
     rrm \<leftarrow> usteer_node_set_blob B (node_rrm_nr node) (apn_rrm_nr msg);
     script \<leftarrow> usteer_node_set_blob B (node_script_data node) (apn_script_data msg);
     Some (rn\<lparr>rn_check := 0, rn_iface := iface,
              rn_node := node\<lparr>node_freq := apn_freq msg, node_n_assoc := apn_n_assoc msg,
                node_max_assoc := apn_max_assoc msg, node_noise := apn_noise msg, node_load := apn_load msg,
                node_ssid := take 32 ssid, node_rrm_nr := rrm, node_script_data := script\<rparr>\<rparr>)
   }"

definition interface_add_node ::
    "'b libblob \<Rightarrow> remote_find \<Rightarrow> remote_insert \<Rightarrow> tree_insert \<Rightarrow> (string \<Rightarrow> mac option) \<Rightarrow> (nat \<Rightarrow> u32) \<Rightarrow>
     string \<Rightarrow> string \<Rightarrow> u64 \<Rightarrow> 'b \<Rightarrow> usteer_state \<Rightarrow> usteer_state option" where
  "interface_add_node B rfind rins ins ether_aton now iface addr i data s =
     (case parse_apmsg_node B data of
        None \<Rightarrow> Some s
      | Some msg \<Rightarrow> do {
          ssid \<leftarrow> apn_ssid msg;
          (if \<not> usteer_is_valid_ssid s ssid then Some s
           else do {
             name \<leftarrow> apn_name msg;
             let (k, s) = interface_get_node rfind rins addr i name s;
             rn \<leftarrow> get_remote s k;
             rn \<leftarrow> set_remote_node B iface msg ssid rn;
             str \<leftarrow> apn_bssid msg;
             bssid \<leftarrow> ether_aton str;
             let s = upd_remote k (\<lambda>_. rn\<lparr>rn_node := (rn_node rn)\<lparr>node_bssid := bssid\<rparr>\<rparr>) s;
             for_each (\<lambda>(j, x). interface_add_station B ins (now j) k x)
               (enumerate 0 (blob_attrs B (apn_stations msg))) s
           })
        })"

subsection \<open>Messages\<close>

definition interface_recv_msg ::
    "'b libblob \<Rightarrow> remote_find \<Rightarrow> remote_insert \<Rightarrow> tree_insert \<Rightarrow> (string \<Rightarrow> mac option) \<Rightarrow> (nat \<Rightarrow> nat \<Rightarrow> u32) \<Rightarrow>
     string \<Rightarrow> string \<Rightarrow> 'b \<Rightarrow> nat \<Rightarrow> usteer_state \<Rightarrow> usteer_state option" where
  "interface_recv_msg B rfind rins ins ether_aton now iface addr_str data len s =
     (if blob_pad_len B data \<noteq> len then Some s
      else
        (case parse_apmsg B data of
           None \<Rightarrow> Some s
         | Some msg \<Rightarrow>
             if apmsg_id msg = local_id s then Some s
             else for_each (\<lambda>(j, x).
                      interface_add_node B rfind rins ins ether_aton (now j) iface addr_str (ucast (apmsg_id msg)) x)
                    (enumerate 0 (blob_attrs B (apmsg_nodes msg))) s))"

definition interface_find_by_ifindex :: "usteer_state \<Rightarrow> u32 \<Rightarrow> string option" where
  "interface_find_by_ifindex s index =
     map_option fst (List.find (\<lambda>(_, ifindex). ifindex = index) (interfaces s))"

datatype errno = EAGAIN | EINTR | E_OTHER

text \<open>What a call of \<^verbatim>\<open>recvmsg\<close> gives: an error, or the interface, the sender and the message.\<close>

datatype 'b recv_result = Recv_error errno | Recv_packet u32 "u8 list" 'b nat

text \<open>The loop reads until an error other than an interruption; with no result left it still waits.\<close>

fun recv_loop ::
    "'b libblob \<Rightarrow> remote_find \<Rightarrow> remote_insert \<Rightarrow> tree_insert \<Rightarrow> (string \<Rightarrow> mac option) \<Rightarrow> (u8 list \<Rightarrow> string) \<Rightarrow>
     (nat \<Rightarrow> nat \<Rightarrow> nat \<Rightarrow> u32) \<Rightarrow> 'b recv_result list \<Rightarrow> usteer_state \<Rightarrow> usteer_state option" where
  "recv_loop B rfind rins ins ether_aton inet_ntop now [] s = None"
| "recv_loop B rfind rins ins ether_aton inet_ntop now (Recv_error EAGAIN # rs) s = Some s"
| "recv_loop B rfind rins ins ether_aton inet_ntop now (Recv_error EINTR # rs) s =
     recv_loop B rfind rins ins ether_aton inet_ntop (\<lambda>n. now (Suc n)) rs s"
| "recv_loop B rfind rins ins ether_aton inet_ntop now (Recv_error E_OTHER # rs) s =
     Some (emit Uloop_fd_delete (s\<lparr>remote_fd := (remote_fd s)\<lparr>fd_registered := False\<rparr>\<rparr>))"
| "recv_loop B rfind rins ins ether_aton inet_ntop now (Recv_packet scope addr data len # rs) s =
     (case interface_find_by_ifindex s scope of
        None \<Rightarrow> recv_loop B rfind rins ins ether_aton inet_ntop (\<lambda>n. now (Suc n)) rs s
      | Some iface \<Rightarrow>
          Option.bind (interface_recv_msg B rfind rins ins ether_aton (now 0) iface (inet_ntop addr) data len s)
            (recv_loop B rfind rins ins ether_aton inet_ntop (\<lambda>n. now (Suc n)) rs))"

definition interface_recv ::
    "'b libblob \<Rightarrow> remote_find \<Rightarrow> remote_insert \<Rightarrow> tree_insert \<Rightarrow> (string \<Rightarrow> mac option) \<Rightarrow> (u8 list \<Rightarrow> string) \<Rightarrow>
     (nat \<Rightarrow> nat \<Rightarrow> nat \<Rightarrow> u32) \<Rightarrow> 'b recv_result list \<Rightarrow> usteer_state \<Rightarrow> usteer_state option" where
  "interface_recv B rfind rins ins ether_aton inet_ntop now rs s =
     (if \<not> remote_disabled (config s) then recv_loop B rfind rins ins ether_aton inet_ntop now rs s else Some s)"

section \<open>Interface: the tree of remote nodes\<close>

abbreviation node_key :: "nat \<times> usteer_remote_node \<Rightarrow> u64" where
  "node_key x \<equiv> rn_key (snd x)"

text \<open>
  A tree keeps its order when the comparator is a total order on the keys in it. This one is so
  only on identifiers that lie in one half of the circle of 32-bit numbers.
\<close>

definition ids_ordered :: "u64 set \<Rightarrow> bool" where
  "ids_ordered K \<longleftrightarrow>
     (\<forall>a \<in> K. \<forall>b \<in> K. sint (remote_node_cmp a b) \<le> 0 \<longrightarrow> sint (remote_node_cmp b a) \<le> 0 \<longrightarrow> a = b) \<and>
     (\<forall>a \<in> K. \<forall>b \<in> K. sint (remote_node_cmp a b) \<le> 0 \<or> sint (remote_node_cmp b a) \<le> 0) \<and>
     (\<forall>a \<in> K. \<forall>b \<in> K. \<forall>c \<in> K. sint (remote_node_cmp a b) \<le> 0 \<longrightarrow> sint (remote_node_cmp b c) \<le> 0 \<longrightarrow>
        sint (remote_node_cmp a c) \<le> 0)"

definition node_before :: "nat \<times> usteer_remote_node \<Rightarrow> nat \<times> usteer_remote_node \<Rightarrow> bool" where
  "node_before x y \<longleftrightarrow> sint (remote_node_cmp (node_key x) (node_key y)) \<le> 0"

definition remote_sorted :: "remote_list \<Rightarrow> bool" where
  "remote_sorted xs \<longleftrightarrow> sorted_wrt node_before xs \<and> ids_ordered (node_key ` set xs)"

text \<open>
  In an ordered tree a lookup finds the first of the nodes with the key, and an insertion adds
  the node and keeps the order.
\<close>

locale remote_tree =
  fixes rfind :: remote_find and rins :: remote_insert
  assumes find_None: "remote_sorted xs \<Longrightarrow> rfind i xs = None \<longleftrightarrow> i \<notin> node_key ` set xs"
    and find_Some: "remote_sorted xs \<Longrightarrow> rfind i xs = Some a \<Longrightarrow>
      \<exists>ys rn zs. xs = ys @ (a, rn) # zs \<and> rn_key rn = i \<and> i \<notin> node_key ` set ys"
    and ins_set: "set (rins x xs) = insert x (set xs)"
    and ins_distinct: "fst x \<notin> fst ` set xs \<Longrightarrow> distinct (map fst xs) \<Longrightarrow> distinct (map fst (rins x xs))"
    and ins_sorted: "remote_sorted xs \<Longrightarrow> ids_ordered (insert (node_key x) (node_key ` set xs)) \<Longrightarrow>
      remote_sorted (rins x xs)"

lemma ids_antisym:
  "ids_ordered K \<Longrightarrow> a \<in> K \<Longrightarrow> b \<in> K \<Longrightarrow> sint (remote_node_cmp a b) \<le> 0 \<Longrightarrow> sint (remote_node_cmp b a) \<le> 0 \<Longrightarrow> a = b"
  unfolding ids_ordered_def by blast

lemma ids_ordered_mono: "ids_ordered K \<Longrightarrow> L \<subseteq> K \<Longrightarrow> ids_ordered L"
  unfolding ids_ordered_def by blast

text \<open>The nodes of one instance are adjacent.\<close>

lemma sorted_tail_key:
  assumes "remote_sorted (x # zs)" "y \<in> set (x # zs)" "z \<in> set (x # zs)" "node_before y z"
    and "node_key y \<noteq> node_key x"
  shows "node_key z \<noteq> node_key x"
proof
  assume eq: "node_key z = node_key x"
  have "y \<in> set zs" using assms(2,5) by auto
  with assms(1) have le: "sint (remote_node_cmp (node_key x) (node_key y)) \<le> 0"
    by (simp add: remote_sorted_def node_before_def)
  have ge: "sint (remote_node_cmp (node_key y) (node_key x)) \<le> 0"
    using assms(4) eq by (simp add: node_before_def)
  have "node_key x \<in> node_key ` set (x # zs)" "node_key y \<in> node_key ` set (x # zs)"
    using assms(2) by (auto intro: imageI)
  with ids_antisym [OF _ this le ge] assms(1,5) show False by (simp add: remote_sorted_def)
qed

lemma scan_eq:
  assumes "sorted_wrt node_before xs" "\<And>y z. y \<in> set xs \<Longrightarrow> z \<in> set xs \<Longrightarrow> node_before y z \<Longrightarrow>
    node_key y \<noteq> i \<Longrightarrow> node_key z \<noteq> i"
  shows "get_node_scan i name xs =
    map_option fst (List.find (\<lambda>x. node_key x = i \<and> rn_name (snd x) = name) xs)"
  using assms
proof (induction xs)
  case (Cons x xs)
  obtain a rn where x: "x = (a, rn)" by (cases x)
  from Cons.prems have IH: "get_node_scan i name xs =
      map_option fst (List.find (\<lambda>x. node_key x = i \<and> rn_name (snd x) = name) xs)"
    by (intro Cons.IH) auto
  have "List.find (\<lambda>x. node_key x = i \<and> rn_name (snd x) = name) xs = None" if "rn_key rn \<noteq> i"
    unfolding find_None_iff using Cons.prems(1) Cons.prems(2) [of x] that x by fastforce
  with IH x show ?case by auto
qed simp

text \<open>The lookup of the code finds the node of an instance with a name, whenever there is one.\<close>

definition remote_lookup :: "usteer_state \<Rightarrow> u64 \<Rightarrow> string \<Rightarrow> nat option" where
  "remote_lookup s i name =
     map_option fst (List.find (\<lambda>x. node_key x = i \<and> rn_name (snd x) = name) (remote_nodes s))"

context remote_tree
begin

lemma lookup_eq:
  assumes sorted: "remote_sorted (remote_nodes s)" and dist: "distinct (map fst (remote_nodes s))"
  shows "(case rfind i (remote_nodes s) of None \<Rightarrow> None
    | Some a \<Rightarrow> get_node_scan i name (dropWhile (\<lambda>x. fst x \<noteq> a) (remote_nodes s))) = remote_lookup s i name"
proof (cases "rfind i (remote_nodes s)")
  case None
  with find_None [OF sorted] have "i \<notin> node_key ` set (remote_nodes s)" by simp
  then have "List.find (\<lambda>x. node_key x = i \<and> rn_name (snd x) = name) (remote_nodes s) = None"
    unfolding find_None_iff by blast
  with None show ?thesis by (simp add: remote_lookup_def)
next
  case (Some a)
  from find_Some [OF sorted Some] obtain ys rn zs where
    xs: "remote_nodes s = ys @ (a, rn) # zs" "rn_key rn = i" "i \<notin> node_key ` set ys" by blast
  have "a \<notin> fst ` set ys" using dist xs(1) by auto
  then have "dropWhile (\<lambda>x. fst x \<noteq> a) (ys @ (a, rn) # zs) = (a, rn) # zs"
    by (subst dropWhile_append2) auto
  then have drop: "dropWhile (\<lambda>x. fst x \<noteq> a) (remote_nodes s) = (a, rn) # zs" using xs(1) by simp
  have srt: "remote_sorted ((a, rn) # zs)"
    using sorted xs(1) unfolding remote_sorted_def
    by (auto simp: sorted_wrt_append elim: ids_ordered_mono)
  have "get_node_scan i name ((a, rn) # zs) =
      map_option fst (List.find (\<lambda>x. node_key x = i \<and> rn_name (snd x) = name) ((a, rn) # zs))"
  proof (rule scan_eq)
    show "sorted_wrt node_before ((a, rn) # zs)" using srt by (simp add: remote_sorted_def)
    show "node_key z \<noteq> i" if "y \<in> set ((a, rn) # zs)" "z \<in> set ((a, rn) # zs)" "node_before y z" "node_key y \<noteq> i" for y z
      using sorted_tail_key [OF srt that(1,2,3)] that(4) xs(2) by simp
  qed
  moreover have "List.find (\<lambda>x. node_key x = i \<and> rn_name (snd x) = name) (remote_nodes s) =
      List.find (\<lambda>x. node_key x = i \<and> rn_name (snd x) = name) ((a, rn) # zs)"
    unfolding xs(1) by (rule find_append_skip) (use xs(3) in blast)
  ultimately show ?thesis using Some drop by (simp add: remote_lookup_def)
qed

text \<open>Getting a node: it is found, or added to the tree; the state stays well formed.\<close>

lemma get_node_total:
  assumes wf: "wf_state s" and sorted: "remote_sorted (remote_nodes s)"
    and ids: "ids_ordered (insert i (node_key ` set (remote_nodes s)))"
  shows "\<exists>k s' rn. interface_get_node rfind rins addr i name s = (k, s') \<and> wf_state s' \<and>
    get_remote s' = (get_remote s)(k \<mapsto> rn) \<and> rn_key rn = i \<and> rn_name rn = name \<and>
    remote_sorted (remote_nodes s') \<and> node_key ` set (remote_nodes s') = insert i (node_key ` set (remote_nodes s)) \<and>
    (if remote_lookup s i name = None
     then get_remote s k = None \<and> rn = new_remote_node addr i name \<and>
       s' = s\<lparr>remote_nodes := rins (k, rn) (remote_nodes s), rn_next := Suc k\<rparr>
     else remote_lookup s i name = Some k \<and> s' = s)"
proof -
  have keys: "keys_ok s" using wf by (simp add: wf_state_def wf_core_def)
  then have dist: "distinct (map fst (remote_nodes s))" by (simp add: keys_ok_def)
  note lk = lookup_eq [OF sorted dist]
  show ?thesis
  proof (cases "remote_lookup s i name")
    case None
    let ?k = "rn_next s" and ?rn = "new_remote_node addr i name"
    let ?xs = "rins (?k, ?rn) (remote_nodes s)"
    have fresh: "?k \<notin> fst ` set (remote_nodes s)" using keys by (auto simp: keys_ok_def)
    then have "distinct (map fst ?xs)" using ins_distinct [of "(?k, ?rn)"] dist by simp
    moreover have "node_sta_info (rn_node ?rn) = []" by (simp add: new_remote_node_def calloc_node_def)
    ultimately have "wf_state (s\<lparr>remote_nodes := ?xs, rn_next := Suc ?k\<rparr>)"
      "get_remote (s\<lparr>remote_nodes := ?xs, rn_next := Suc ?k\<rparr>) = (get_remote s)(?k \<mapsto> ?rn)"
      using wf_add_remote [OF wf, of ?rn ?xs] ins_set by auto
    moreover have "rn_key ?rn = i" "rn_name ?rn = name" by (simp_all add: new_remote_node_def)
    moreover have "remote_sorted ?xs" using ins_sorted [OF sorted, of "(?k, ?rn)"] ids \<open>rn_key ?rn = i\<close> by simp
    moreover have "get_remote s ?k = None" using fresh by (simp add: get_remote_def map_of_eq_None_iff)
    moreover have "interface_get_node rfind rins addr i name s = (?k, s\<lparr>remote_nodes := ?xs, rn_next := Suc ?k\<rparr>)"
      using None by (simp add: interface_get_node_def lk Let_def)
    ultimately show ?thesis using None ins_set by simp
  next
    case (Some k)
    then obtain rn where rn: "(k, rn) \<in> set (remote_nodes s)" "rn_key rn = i" "rn_name rn = name"
      by (auto simp: remote_lookup_def dest!: find_Some_mem)
    then have "get_remote s k = Some rn" using dist by (simp add: get_remote_def map_of_eq_Some_iff)
    moreover have "i \<in> node_key ` set (remote_nodes s)" using rn by (force intro: image_eqI [of _ _ "(k, rn)"])
    moreover have "interface_get_node rfind rins addr i name s = (k, s)"
      using Some by (simp add: interface_get_node_def lk)
    ultimately show ?thesis using wf sorted rn Some
      by (intro exI [of _ k] exI [of _ s] exI [of _ rn]) (auto simp: fun_upd_idem insert_absorb)
  qed
qed

end

section \<open>What station records do to remote nodes\<close>

text \<open>The attributes of a remote node, without its list of entries.\<close>

definition rn_attrs :: "usteer_remote_node \<Rightarrow> usteer_remote_node" where
  "rn_attrs rn = rn\<lparr>rn_node := (rn_node rn)\<lparr>node_sta_info := []\<rparr>\<rparr>"

definition remote_view :: "usteer_state \<Rightarrow> nat \<Rightarrow> usteer_remote_node option" where
  "remote_view s k = map_option rn_attrs (get_remote s k)"

text \<open>The entry of a station at a node, with its content.\<close>

definition entry_si :: "usteer_state \<Rightarrow> mac \<Rightarrow> node_ref \<Rightarrow> sta_info option" where
  "entry_si s m r = Option.bind (entry s m r) (si_heap s)"

definition recv_frame :: "usteer_state \<Rightarrow> usteer_state \<Rightarrow> bool" where
  "recv_frame s s' \<longleftrightarrow> config s' = config s \<and> current_time s' = current_time s \<and>
     config_ssid_list s' = config_ssid_list s \<and> local_id s' = local_id s \<and> interfaces s' = interfaces s \<and>
     remote_view s' = remote_view s \<and> map node_key (remote_nodes s') = map node_key (remote_nodes s)"

lemma recv_frame_refl [simp]: "recv_frame s s"
  by (simp add: recv_frame_def)

lemma recv_frame_trans [trans]: "recv_frame s t \<Longrightarrow> recv_frame t u \<Longrightarrow> recv_frame s u"
  by (simp add: recv_frame_def)

lemma recv_frame_upd [simp]:
  "recv_frame s (s\<lparr>si_heap := h\<rparr>)" "recv_frame s (s\<lparr>tq := q\<rparr>)" "recv_frame s (s\<lparr>si_next := n\<rparr>)"
  "recv_frame s (s\<lparr>stations := st\<rparr>)" "recv_frame s (upd_sta m f s)"
  by (simp_all add: recv_frame_def remote_view_def get_remote_def fun_eq_iff upd_sta_def)

lemma recv_frame_node:
  assumes "\<And>nd. (f nd)\<lparr>node_sta_info := []\<rparr> = nd\<lparr>node_sta_info := []\<rparr>"
  shows "recv_frame s (upd_node r f s)"
proof (cases r)
  case (NRemote k)
  have "map_option rn_attrs (map_option (\<lambda>rn. rn\<lparr>rn_node := f (rn_node rn)\<rparr>) x) = map_option rn_attrs x" for x
    using assms by (cases x) (simp_all add: rn_attrs_def)
  moreover have "map node_key (dict_modify k (\<lambda>rn. rn\<lparr>rn_node := g rn\<rparr>) xs) = map node_key xs" for g xs
    by (induction xs) (auto simp: dict_modify_def)
  ultimately show ?thesis using NRemote
    by (auto simp: recv_frame_def remote_view_def get_remote_def fun_eq_iff)
qed (simp add: recv_frame_def remote_view_def get_remote_def fun_eq_iff)

lemma recv_frame_create [simp]:
  "recv_frame t (upd_node r (\<lambda>nd. nd\<lparr>node_sta_info := a # node_sta_info nd\<rparr>) (upd_sta m g (t\<lparr>si_heap := h, si_next := n\<rparr>)))"
proof -
  have "recv_frame t (t\<lparr>si_heap := h, si_next := n\<rparr>)"
    by (simp add: recv_frame_def remote_view_def get_remote_def fun_eq_iff)
  also have "recv_frame (t\<lparr>si_heap := h, si_next := n\<rparr>) (upd_sta m g (t\<lparr>si_heap := h, si_next := n\<rparr>))" by simp
  finally show ?thesis by (rule recv_frame_trans) (rule recv_frame_node, simp)
qed

lemma recv_frame_obtain:
  assumes "sta_info_obtain m r s = Some (a, c, s')"
  shows "recv_frame s s'"
proof -
  define t where "t = snd (usteer_sta_get m True s)"
  have t: "recv_frame s t" "usteer_sta_info_get m r True t = Some (Some a, c, s')"
    using assms by (auto simp: t_def sta_info_obtain_def usteer_sta_get_def split: option.splits)
  have "recv_frame t s'"
    using t(2) by (auto simp: usteer_sta_info_get_def bind_eq_Some_conv Let_def split: option.splits)
  with t(1) show ?thesis by (rule recv_frame_trans)
qed

text \<open>A station record: ignored, or the entry of the station at the node takes over its values.\<close>

lemma entry_si_upd:
  assumes core: "wf_core s" "wf_core s'" and e: "entry s' = (entry s)(m := (entry s m)(r \<mapsto> a))"
    and h: "si_heap s' = (si_heap s)(a \<mapsto> si)"
  shows "entry_si s' m' r' = (if m' = m \<and> r' = r then Some si else entry_si s m' r')"
proof (cases "m' = m \<and> r' = r")
  case False
  have "entry s' m' r' \<noteq> Some a" if "\<not> (m' = m \<and> r' = r)"
  proof
    assume "entry s' m' r' = Some a"
    moreover have "entry s' m r = Some a" using e by simp
    ultimately show False using that entry_iff [OF core(2)] by fastforce
  qed
  with False have "entry s' m' r' = entry s m' r'" "entry s' m' r' \<noteq> Some a" using e by auto
  with False h show ?thesis by (cases "entry s m' r'") (auto simp: entry_si_def)
qed (use e h in \<open>simp add: entry_si_def\<close>)

definition sta_recorded :: "apmsg_sta \<Rightarrow> usteer_state \<Rightarrow> sta_info \<Rightarrow> bool" where
  "sta_recorded msg s si \<longleftrightarrow> si_connected si = (if aps_connected msg then 1 else 0) \<and>
     si_signal si = aps_signal msg \<and> si_seen si = current_time s - scast (aps_seen msg)"

lemma add_station_total:
  assumes ins: "avl_dups_tree ins" and wf: "wf_state s" and live: "get_remote s k \<noteq> None"
  shows "\<exists>s'. interface_add_station B ins now k data s = Some s' \<and> wf_state s' \<and> recv_frame s s' \<and>
    (case parse_apmsg_sta B data of None \<Rightarrow> s' = s
     | Some msg \<Rightarrow> if sint (aps_timeout msg) \<le> 0 then s' = s
       else \<exists>si. sta_recorded msg s si \<and>
         entry_si s' = (entry_si s)(aps_addr msg := (entry_si s (aps_addr msg))(NRemote k \<mapsto> si)))"
proof (cases "\<exists>msg. parse_apmsg_sta B data = Some msg \<and> \<not> sint (aps_timeout msg) \<le> 0")
  case False
  then show ?thesis using wf by (auto simp: interface_add_station_def split: option.splits)
next
  case True
  then obtain msg where msg: "parse_apmsg_sta B data = Some msg" "\<not> sint (aps_timeout msg) \<le> 0" by blast
  let ?m = "aps_addr msg" and ?r = "NRemote k"
  from live have "node_live s ?r" by (simp add: node_live_def node_view_def)
  from sta_entries.acquire_total [OF wf this, of ?m] obtain a c s1 where
    s1: "sta_info_obtain ?m ?r s = Some (a, c, s1)" "wf_state s1" "entry s1 = (entry s)(?m := (entry s ?m)(?r \<mapsto> a))"
    by blast
  have core: "wf_core s" "wf_core s1" using wf s1(2) by (simp_all add: wf_state_def)
  have heap1: "si_heap s1 b = si_heap s b" if "b \<noteq> a" for b
  proof -
    from live obtain nd where "get_node s ?r = Some nd" by (cases "get_remote s k") auto
    from obtain_total [OF wf this, of ?m] s1(1) that show ?thesis by (auto split: if_splits)
  qed
  have "entry s1 ?m ?r = Some a" using s1(3) by simp
  then obtain si where si: "si_heap s1 a = Some si" using entry_iff [OF core(2)] by blast
  let ?si = "si\<lparr>si_connected := (if aps_connected msg then 1 else 0), si_signal := aps_signal msg,
      si_seen := current_time s1 - scast (aps_seen msg)\<rparr>"
  let ?s2 = "s1\<lparr>si_heap := (si_heap s1)(a \<mapsto> ?si)\<rparr>"
  have wf2: "wf_state ?s2" by (rule wf_state_heap_upd [OF s1(2) si]) (simp add: same_entry_def)
  from avl_dups_tree.update_timeout_total [OF ins wf2, of a ?si now "aps_timeout msg"] msg(2) obtain s' where
    s': "usteer_sta_info_update_timeout ins now a (aps_timeout msg) ?s2 = Some s'" "wf_state s'"
      "si_heap s' = si_heap ?s2" by (auto split: if_splits)
  have "\<exists>q. s' = ?s2\<lparr>tq := q\<rparr>"
    using s'(1) msg(2) by (auto simp: usteer_sta_info_update_timeout_def split: if_splits)
  then have fr: "recv_frame ?s2 s'" by auto
  have "recv_frame s ?s2" using recv_frame_obtain [OF s1(1)] by (rule recv_frame_trans) simp
  with fr have frame: "recv_frame s s'" by (rule recv_frame_trans [rotated])
  have core': "wf_core s'" using s'(2) by (simp add: wf_state_def)
  have "entry s' = entry s1"
    by (rule entry_cong [OF core(2) core']) (auto simp: s'(3) si)
  with s1(3) have e': "entry s' = (entry s)(?m := (entry s ?m)(?r \<mapsto> a))" by simp
  have h': "si_heap s' = (si_heap s)(a \<mapsto> ?si)" unfolding s'(3) using heap1 by auto
  have "current_time s1 = current_time s" using recv_frame_obtain [OF s1(1)] by (simp add: recv_frame_def)
  then have rec: "sta_recorded msg s ?si" by (simp add: sta_recorded_def)
  have run: "interface_add_station B ins now k data s = Some s'"
    using msg s1(1) si s'(1) by (simp add: interface_add_station_def upd_si_def)
  have "entry_si s' = (entry_si s)(?m := (entry_si s ?m)(?r \<mapsto> ?si))"
    using entry_si_upd [OF core(1) core' e' h'] by (auto simp: fun_eq_iff)
  with run s'(2) frame rec msg show ?thesis by auto
qed

text \<open>The records of a message that are taken over.\<close>

definition sta_records :: "'b libblob \<Rightarrow> 'b list \<Rightarrow> apmsg_sta list" where
  "sta_records B xs = filter (\<lambda>m. 0 < sint (aps_timeout m)) (List.map_filter (parse_apmsg_sta B) xs)"

lemma sta_records_simps [simp]:
  "sta_records B [] = []"
  "sta_records B (x # xs) = (case parse_apmsg_sta B x of None \<Rightarrow> sta_records B xs
     | Some m \<Rightarrow> if sint (aps_timeout m) \<le> 0 then sta_records B xs else m # sta_records B xs)"
  by (auto simp: sta_records_def map_filter_simps split: option.splits)

lemma recv_frame_live: "recv_frame s s' \<Longrightarrow> get_remote s k \<noteq> None \<Longrightarrow> get_remote s' k \<noteq> None"
  using remote_view_def [of s k] remote_view_def [of s' k] by (cases "get_remote s' k") (auto simp: recv_frame_def)

lemma add_stations_total:
  assumes ins: "avl_dups_tree ins" and "wf_state s" and "get_remote s k \<noteq> None"
  shows "\<exists>s'. for_each (\<lambda>(j, x). interface_add_station B ins (now j) k x) (enumerate n xs) s = Some s' \<and>
    wf_state s' \<and> recv_frame s s' \<and>
    (\<forall>m r. r \<noteq> NRemote k \<or> m \<notin> aps_addr ` set (sta_records B xs) \<longrightarrow> entry_si s' m r = entry_si s m r) \<and>
    (distinct (map aps_addr (sta_records B xs)) \<longrightarrow> (\<forall>msg \<in> set (sta_records B xs).
       \<exists>si. entry_si s' (aps_addr msg) (NRemote k) = Some si \<and> sta_recorded msg s si))"
  using assms(2,3)
proof (induction xs arbitrary: s n)
  case Nil
  then show ?case by simp
next
  case (Cons x xs)
  from add_station_total [OF ins Cons.prems, of B "now n" x] obtain t where
    t: "interface_add_station B ins (now n) k x s = Some t" "wf_state t" "recv_frame s t"
      "case parse_apmsg_sta B x of None \<Rightarrow> t = s
       | Some msg \<Rightarrow> if sint (aps_timeout msg) \<le> 0 then t = s
         else \<exists>si. sta_recorded msg s si \<and>
           entry_si t = (entry_si s)(aps_addr msg := (entry_si s (aps_addr msg))(NRemote k \<mapsto> si))" by blast
  have time: "sta_recorded m t = sta_recorded m s" for m
    using t(3) by (simp add: sta_recorded_def recv_frame_def fun_eq_iff)
  from Cons.IH [OF t(2) recv_frame_live [OF t(3) Cons.prems(2)], of "Suc n"] obtain s' where
    s': "for_each (\<lambda>(j, x). interface_add_station B ins (now j) k x) (enumerate (Suc n) xs) t = Some s'"
      "wf_state s'" "recv_frame t s'"
      "\<forall>m r. r \<noteq> NRemote k \<or> m \<notin> aps_addr ` set (sta_records B xs) \<longrightarrow> entry_si s' m r = entry_si t m r"
      "distinct (map aps_addr (sta_records B xs)) \<longrightarrow> (\<forall>msg \<in> set (sta_records B xs).
         \<exists>si. entry_si s' (aps_addr msg) (NRemote k) = Some si \<and> sta_recorded msg s si)" unfolding time by blast
  have run: "for_each (\<lambda>(j, x). interface_add_station B ins (now j) k x) (enumerate n (x # xs)) s = Some s'"
    using t(1) s'(1) by simp
  have frame: "recv_frame s s'" using t(3) s'(3) by (rule recv_frame_trans)
  show ?case
  proof (cases "\<exists>msg. parse_apmsg_sta B x = Some msg \<and> \<not> sint (aps_timeout msg) \<le> 0")
    case False
    then have "t = s" "sta_records B (x # xs) = sta_records B xs" using t(4) by (auto split: option.splits)
    with run s'(2,4,5) frame show ?thesis by (intro exI [of _ s']) simp
  next
    case True
    then obtain msg si where
      msg: "sta_records B (x # xs) = msg # sta_records B xs" and si: "sta_recorded msg s si"
        "entry_si t = (entry_si s)(aps_addr msg := (entry_si s (aps_addr msg))(NRemote k \<mapsto> si))"
      using t(4) by (auto split: option.splits)
    have "entry_si s' m r = entry_si s m r"
      if "r \<noteq> NRemote k \<or> m \<notin> aps_addr ` set (sta_records B (x # xs))" for m r
      using s'(4) that unfolding msg by (auto simp: si(2))
    moreover have "\<exists>si. entry_si s' (aps_addr m) (NRemote k) = Some si \<and> sta_recorded m s si"
      if "distinct (map aps_addr (sta_records B (x # xs)))" "m \<in> set (sta_records B (x # xs))" for m
      using s'(4,5) that si unfolding msg by auto
    ultimately show ?thesis using run s'(2) frame by blast
  qed
qed

section \<open>What node records do\<close>

lemma wf_set_remote:
  assumes wf: "wf_state s" and rn: "get_remote s k = Some rn"
    and same: "node_sta_info (rn_node rn') = node_sta_info (rn_node rn)"
  shows "wf_state (upd_remote k (\<lambda>_. rn') s)"
proof -
  let ?s = "upd_remote k (\<lambda>_. rn') s"
  have "wf_state ?s = wf_state s"
  proof (rule wf_cong)
    show "node_view ?s = node_view s"
    proof
      fix r show "node_view ?s r = node_view s r"
        using rn same by (cases r) (auto simp: node_view_def upd_remote_def get_local_def get_remote_def)
    qed
    have "map fst (remote_nodes ?s) = map fst (remote_nodes s)" by (simp add: upd_remote_def)
    then show "keys_ok ?s = keys_ok s" unfolding keys_ok_def by (simp add: upd_remote_def)
  qed (simp_all add: upd_remote_def sta_view_def get_sta_def fun_eq_iff)
  with wf show ?thesis by simp
qed

lemma entry_si_cong:
  "si_heap s' = si_heap s \<Longrightarrow> stations s' = stations s \<Longrightarrow> entry_si s' = entry_si s"
  unfolding entry_si_def entry_def get_sta_def by (intro ext) (simp cong: option.case_cong)

lemma entry_si_remote [simp]:
  "entry_si (upd_remote k f s) = entry_si s"
  "entry_si (s\<lparr>remote_nodes := xs, rn_next := n\<rparr>) = entry_si s"
  by (rule entry_si_cong; simp add: upd_remote_def)+

lemma keys_set_remote:
  assumes "distinct (map fst xs)" "map_of xs k = Some rn" "rn_key rn' = rn_key rn"
  shows "map node_key (dict_modify k (\<lambda>_. rn') xs) = map node_key xs"
proof -
  have "rn_key v = rn_key rn" if "(k, v) \<in> set xs" for v
    using map_of_is_SomeI [OF assms(1) that] assms(2) by simp
  with assms(3) show ?thesis by (auto simp: dict_modify_def)
qed

lemma sorted_keys_cong: "map node_key xs = map node_key ys \<Longrightarrow> remote_sorted xs = remote_sorted ys"
proof -
  assume eq: "map node_key xs = map node_key ys"
  have "sorted_wrt node_before zs = sorted_wrt (\<lambda>a b. sint (remote_node_cmp a b) \<le> 0) (map node_key zs)" for zs
    by (simp add: sorted_wrt_map node_before_def [abs_def])
  moreover have "node_key ` set xs = node_key ` set ys" using arg_cong [OF eq, of set] by simp
  ultimately show ?thesis using eq by (simp add: remote_sorted_def)
qed

text \<open>What holds before and after every node record of an instance.\<close>

definition remote_unique :: "usteer_state \<Rightarrow> bool" where
  "remote_unique s \<longleftrightarrow> (\<forall>k k' rn rn'. remote_view s k = Some rn \<longrightarrow> remote_view s k' = Some rn' \<longrightarrow>
     rn_key rn' = rn_key rn \<longrightarrow> rn_name rn' = rn_name rn \<longrightarrow> k' = k)"

definition recv_ok :: "u64 \<Rightarrow> usteer_state \<Rightarrow> bool" where
  "recv_ok i s \<longleftrightarrow> wf_state s \<and> remote_sorted (remote_nodes s) \<and>
     ids_ordered (insert i (node_key ` set (remote_nodes s))) \<and> remote_unique s"

definition recv_const :: "usteer_state \<Rightarrow> usteer_state \<Rightarrow> bool" where
  "recv_const s s' \<longleftrightarrow> config s' = config s \<and> current_time s' = current_time s \<and>
     config_ssid_list s' = config_ssid_list s \<and> local_id s' = local_id s \<and> interfaces s' = interfaces s"

lemma lookup_None:
  assumes "distinct (map fst (remote_nodes s))" "remote_lookup s i name = None" "remote_view s k = Some rn"
  shows "rn_key rn \<noteq> i \<or> rn_name rn \<noteq> name"
proof -
  from assms(3) obtain x where x: "get_remote s k = Some x" "rn = rn_attrs x" by (auto simp: remote_view_def)
  then have "(k, x) \<in> set (remote_nodes s)" by (simp add: get_remote_def map_of_SomeD)
  moreover from assms(2) have "\<not> (node_key y = i \<and> rn_name (snd y) = name)" if "y \<in> set (remote_nodes s)" for y
    using that unfolding remote_lookup_def map_option_is_None find_None_iff by blast
  ultimately show ?thesis using x(2) by (fastforce simp: rn_attrs_def)
qed

text \<open>
  What a node record leaves behind: a node with the record's attributes, and for every station
  record an entry (when no station occurs twice).
\<close>

definition node_mirrored ::
    "'b libblob \<Rightarrow> (string \<Rightarrow> mac option) \<Rightarrow> u64 \<Rightarrow> 'b apmsg_node \<Rightarrow> usteer_state \<Rightarrow> nat \<Rightarrow> bool" where
  "node_mirrored B aton i msg s k \<longleftrightarrow>
     (\<exists>rn. remote_view s k = Some rn \<and> rn_key rn = i \<and> Some (rn_name rn) = apn_name msg \<and> rn_check rn = 0 \<and>
        Some (node_ssid (rn_node rn)) = map_option (take 32) (apn_ssid msg) \<and>
        Some (node_bssid (rn_node rn)) = Option.bind (apn_bssid msg) aton \<and>
        node_freq (rn_node rn) = apn_freq msg \<and> node_n_assoc (rn_node rn) = apn_n_assoc msg \<and>
        node_max_assoc (rn_node rn) = apn_max_assoc msg \<and> node_noise (rn_node rn) = apn_noise msg \<and>
        node_load (rn_node rn) = apn_load msg \<and>
        node_rrm_nr (rn_node rn) = map_option (blob_copy B) (apn_rrm_nr msg) \<and>
        node_script_data (rn_node rn) = map_option (blob_copy B) (apn_script_data msg)) \<and>
     (distinct (map aps_addr (sta_records B (blob_attrs B (apn_stations msg)))) \<longrightarrow>
        (\<forall>m \<in> set (sta_records B (blob_attrs B (apn_stations msg))).
           \<exists>si. entry_si s (aps_addr m) (NRemote k) = Some si \<and> sta_recorded m s si))"

lemma upd_remote_view:
  "get_remote s k \<noteq> None \<Longrightarrow> remote_view (upd_remote k (\<lambda>_. rn) s) = (remote_view s)(k \<mapsto> rn_attrs rn)"
  by (auto simp: remote_view_def upd_remote_def get_remote_def fun_eq_iff)

definition node_readable :: "'b libblob \<Rightarrow> (string \<Rightarrow> mac option) \<Rightarrow> 'b \<Rightarrow> bool" where
  "node_readable B aton data \<longleftrightarrow> (\<exists>msg. parse_apmsg_node B data = Some msg \<and> apn_ssid msg \<noteq> None \<and>
     apn_name msg \<noteq> None \<and> Option.bind (apn_bssid msg) aton \<noteq> None)"

definition msg_name :: "'b libblob \<Rightarrow> 'b \<Rightarrow> string option" where
  "msg_name B data = Option.bind (parse_apmsg_node B data) apn_name"

definition same_remote :: "nat \<Rightarrow> usteer_state \<Rightarrow> usteer_state \<Rightarrow> bool" where
  "same_remote k s s' \<longleftrightarrow> remote_view s' k = remote_view s k \<and>
     (\<forall>m. entry_si s' m (NRemote k) = entry_si s m (NRemote k))"

lemma mirrored_same:
  "same_remote k s s' \<Longrightarrow> recv_const s s' \<Longrightarrow> node_mirrored B aton i msg s k \<Longrightarrow> node_mirrored B aton i msg s' k"
  unfolding node_mirrored_def same_remote_def recv_const_def sta_recorded_def by simp

lemma valid_ssid_const: "recv_const s s' \<Longrightarrow> usteer_is_valid_ssid s' = usteer_is_valid_ssid s"
  by (simp add: recv_const_def usteer_is_valid_ssid_def fun_eq_iff)

lemma recv_const_trans: "recv_const s t \<Longrightarrow> recv_const t u \<Longrightarrow> recv_const s u"
  by (simp add: recv_const_def)

text \<open>The attributes of a record, as the code stores them in a node.\<close>

definition recorded_node ::
    "'b libblob \<Rightarrow> string \<Rightarrow> 'b apmsg_node \<Rightarrow> string \<Rightarrow> mac \<Rightarrow> usteer_remote_node \<Rightarrow> usteer_remote_node" where
  "recorded_node B iface msg ssid bssid rn = rn\<lparr>rn_check := 0, rn_iface := iface,
     rn_node := (rn_node rn)\<lparr>node_freq := apn_freq msg, node_n_assoc := apn_n_assoc msg,
       node_max_assoc := apn_max_assoc msg, node_noise := apn_noise msg, node_load := apn_load msg,
       node_ssid := take 32 ssid, node_rrm_nr := map_option (blob_copy B) (apn_rrm_nr msg),
       node_script_data := map_option (blob_copy B) (apn_script_data msg), node_bssid := bssid\<rparr>\<rparr>"

text \<open>A node of an instance and a name that no other node has keeps the names unique.\<close>

lemma unique_upd:
  assumes "remote_unique s" "remote_view s' = (remote_view s)(k \<mapsto> rn)"
    and "\<And>k' y. remote_view s k' = Some y \<Longrightarrow> k' \<noteq> k \<Longrightarrow> rn_key y \<noteq> rn_key rn \<or> rn_name y \<noteq> rn_name rn"
  shows "remote_unique s'"
  unfolding remote_unique_def assms(2)
proof (intro allI impI)
  fix a b x y
  assume *: "((remote_view s)(k \<mapsto> rn)) a = Some x" "((remote_view s)(k \<mapsto> rn)) b = Some y"
    "rn_key y = rn_key x" "rn_name y = rn_name x"
  consider "a = k" "b = k" | "a = k" "b \<noteq> k" | "a \<noteq> k" "b = k" | "a \<noteq> k" "b \<noteq> k" by blast
  then show "b = a"
  proof cases
    case 4
    with * assms(1) show ?thesis unfolding remote_unique_def by (metis fun_upd_other)
  qed (use * assms(3) [of a x] assms(3) [of b y] in simp_all)
qed

lemma other_node:
  assumes "distinct (map fst (remote_nodes s))" "remote_unique s"
    and "remote_lookup s i name = None \<or> remote_lookup s i name = Some k \<and> get_remote s k = Some rn \<and> rn_key rn = i \<and> rn_name rn = name"
    and "remote_view s k' = Some y" "k' \<noteq> k"
  shows "rn_key y \<noteq> i \<or> rn_name y \<noteq> name"
proof (cases "remote_lookup s i name")
  case None
  then show ?thesis using lookup_None [OF assms(1) _ assms(4)] by blast
next
  case (Some k0)
  with assms(3) have "remote_view s k = Some (rn_attrs rn)" "rn_key rn = i" "rn_name rn = name" by (auto simp: remote_view_def)
  with assms(2,4,5) show ?thesis unfolding remote_unique_def by (fastforce simp: rn_attrs_def)
qed

text \<open>Storing the attributes of a record and its stations in a node that is there.\<close>

lemma record_stored:
  fixes B :: "'b libblob" and msg :: "'b apmsg_node" and iface ssid :: string and bssid :: mac
  assumes ins: "avl_dups_tree ins" and wf: "wf_state s" and k: "get_remote s k = Some rn"
  defines "rn1 \<equiv> recorded_node B iface msg ssid bssid rn" and "sts \<equiv> blob_attrs B (apn_stations msg)"
  shows "\<exists>s'. for_each (\<lambda>(j, x). interface_add_station B ins (now j) k x) (enumerate 0 sts) (upd_remote k (\<lambda>_. rn1) s) = Some s' \<and>
    wf_state s' \<and> recv_const s s' \<and> remote_view s' = (remote_view s)(k \<mapsto> rn_attrs rn1) \<and>
    map node_key (remote_nodes s') = map node_key (remote_nodes s) \<and>
    (\<forall>m r. r \<noteq> NRemote k \<longrightarrow> entry_si s' m r = entry_si s m r) \<and>
    (distinct (map aps_addr (sta_records B sts)) \<longrightarrow> (\<forall>msg \<in> set (sta_records B sts).
       \<exists>si. entry_si s' (aps_addr msg) (NRemote k) = Some si \<and> sta_recorded msg s' si))"
proof -
  let ?s2 = "upd_remote k (\<lambda>_. rn1) s"
  have wf2: "wf_state ?s2" by (rule wf_set_remote [OF wf k]) (simp add: rn1_def recorded_node_def)
  have k2: "get_remote ?s2 k \<noteq> None" using k by (simp add: get_remote_def upd_remote_def)
  have dist: "distinct (map fst (remote_nodes s))" using wf by (simp add: wf_state_def wf_core_def keys_ok_def)
  have keys2: "map node_key (remote_nodes ?s2) = map node_key (remote_nodes s)"
    using keys_set_remote [OF dist, of k rn rn1] k by (simp add: upd_remote_def get_remote_def rn1_def recorded_node_def)
  have view2: "remote_view ?s2 = (remote_view s)(k \<mapsto> rn_attrs rn1)" using upd_remote_view [of s k rn1] k by simp
  from add_stations_total [OF ins wf2 k2, of B now 0 sts] obtain s' where
    s': "for_each (\<lambda>(j, x). interface_add_station B ins (now j) k x) (enumerate 0 sts) ?s2 = Some s'"
      "wf_state s'" "recv_frame ?s2 s'"
      "\<forall>m r. r \<noteq> NRemote k \<or> m \<notin> aps_addr ` set (sta_records B sts) \<longrightarrow> entry_si s' m r = entry_si ?s2 m r"
      "distinct (map aps_addr (sta_records B sts)) \<longrightarrow> (\<forall>msg \<in> set (sta_records B sts).
         \<exists>si. entry_si s' (aps_addr msg) (NRemote k) = Some si \<and> sta_recorded msg ?s2 si)" by blast
  have c: "recv_const s s'" using s'(3) by (simp add: recv_const_def recv_frame_def upd_remote_def)
  have "sta_recorded m ?s2 = sta_recorded m s'" for m
    using c by (simp add: sta_recorded_def recv_const_def upd_remote_def fun_eq_iff)
  with s' c view2 keys2 show ?thesis by (auto simp: recv_frame_def)
qed

context remote_tree
begin

lemma add_node_total:
  assumes ins: "avl_dups_tree ins" and ok: "recv_ok i s"
    and msg: "parse_apmsg_node B data = Some msg" "apn_ssid msg = Some ssid" "apn_name msg = Some name"
      "apn_bssid msg = Some str" "aton str = Some bssid" "usteer_is_valid_ssid s ssid"
  shows "\<exists>s' k rn. interface_add_node B rfind rins ins aton now iface addr i data s = Some s' \<and> recv_ok i s' \<and>
    recv_const s s' \<and> remote_view s' = (remote_view s)(k \<mapsto> rn) \<and> rn_key rn = i \<and> rn_name rn = name \<and>
    (\<forall>m r. r \<noteq> NRemote k \<longrightarrow> entry_si s' m r = entry_si s m r) \<and> node_mirrored B aton i msg s' k \<and>
    (\<forall>y. remote_view s k = Some y \<longrightarrow> rn_key y = i \<and> rn_name y = name)"
proof -
  have wf: "wf_state s" and srt: "remote_sorted (remote_nodes s)" and uniq: "remote_unique s"
    and ids: "ids_ordered (insert i (node_key ` set (remote_nodes s)))" using ok by (auto simp: recv_ok_def)
  have dist: "distinct (map fst (remote_nodes s))" using wf by (simp add: wf_state_def wf_core_def keys_ok_def)
  from get_node_total [OF wf srt ids, of addr name] obtain k s1 rn where
    s1: "interface_get_node rfind rins addr i name s = (k, s1)" "wf_state s1"
      "get_remote s1 = (get_remote s)(k \<mapsto> rn)" "rn_key rn = i" "rn_name rn = name"
      "remote_sorted (remote_nodes s1)" "node_key ` set (remote_nodes s1) = insert i (node_key ` set (remote_nodes s))"
      and branch: "if remote_lookup s i name = None
       then get_remote s k = None \<and> rn = new_remote_node addr i name \<and>
         s1 = s\<lparr>remote_nodes := rins (k, rn) (remote_nodes s), rn_next := Suc k\<rparr>
       else remote_lookup s i name = Some k \<and> s1 = s" by blast
  have e1: "entry_si s1 = entry_si s" and c1: "recv_const s s1"
    using branch by (auto simp: recv_const_def split: if_splits)
  let ?rn = "recorded_node B iface msg ssid bssid rn"
  have k1: "get_remote s1 k = Some rn" using s1(3) by simp
  from record_stored [OF ins s1(2) k1, where B = B and msg = msg and iface = iface and ssid = ssid and bssid = bssid and now = now]
  obtain s' where
    s': "for_each (\<lambda>(j, x). interface_add_station B ins (now j) k x) (enumerate 0 (blob_attrs B (apn_stations msg)))
        (upd_remote k (\<lambda>_. ?rn) s1) = Some s'"
      "wf_state s'" "recv_const s1 s'" "remote_view s' = (remote_view s1)(k \<mapsto> rn_attrs ?rn)"
      "map node_key (remote_nodes s') = map node_key (remote_nodes s1)"
      "\<forall>m r. r \<noteq> NRemote k \<longrightarrow> entry_si s' m r = entry_si s1 m r"
      "distinct (map aps_addr (sta_records B (blob_attrs B (apn_stations msg)))) \<longrightarrow>
        (\<forall>m \<in> set (sta_records B (blob_attrs B (apn_stations msg))).
          \<exists>si. entry_si s' (aps_addr m) (NRemote k) = Some si \<and> sta_recorded m s' si)" by blast
  have run: "interface_add_node B rfind rins ins aton now iface addr i data s = Some s'"
    using msg s1(1) k1 s'(1)
    by (simp add: interface_add_node_def set_remote_node_def set_blob_eq recorded_node_def Let_def)
  have view: "remote_view s' = (remote_view s)(k \<mapsto> rn_attrs ?rn)"
    using s'(4) s1(3) by (auto simp: remote_view_def fun_eq_iff)
  have rn1: "rn_key (rn_attrs ?rn) = i" "rn_name (rn_attrs ?rn) = name"
    using s1(4,5) by (simp_all add: rn_attrs_def recorded_node_def)
  have "remote_lookup s i name = None \<or>
      remote_lookup s i name = Some k \<and> get_remote s k = Some rn \<and> rn_key rn = i \<and> rn_name rn = name"
    using branch k1 s1(4,5) by (auto split: if_splits)
  with unique_upd [OF uniq view] other_node [OF dist uniq] rn1 have "remote_unique s'" by metis
  moreover have "node_key ` set (remote_nodes s') = node_key ` set (remote_nodes s1)"
    using arg_cong [OF s'(5), of set] by simp
  ultimately have "recv_ok i s'"
    using s'(2) s1(6,7) ids sorted_keys_cong [OF s'(5)] by (simp add: recv_ok_def)
  moreover have "node_mirrored B aton i msg s' k"
    using s'(7) view rn1 msg unfolding node_mirrored_def by (auto simp: rn_attrs_def recorded_node_def)
  moreover have "rn_key y = i \<and> rn_name y = name" if "remote_view s k = Some y" for y
    using that branch k1 s1(4,5) by (auto simp: remote_view_def rn_attrs_def split: if_splits)
  ultimately show ?thesis using run view rn1 recv_const_trans [OF c1 s'(3)] s'(6) e1 by auto
qed

text \<open>One record: taken over or, for a foreign SSID, ignored.\<close>

lemma add_node_step:
  assumes ins: "avl_dups_tree ins" and ok: "recv_ok i s" and rd: "node_readable B aton x"
  shows "\<exists>s'. interface_add_node B rfind rins ins aton now iface addr i x s = Some s' \<and> recv_ok i s' \<and>
    recv_const s s' \<and>
    (\<forall>k rn. remote_view s k = Some rn \<longrightarrow> rn_key rn \<noteq> i \<or> Some (rn_name rn) \<noteq> msg_name B x \<longrightarrow> same_remote k s s') \<and>
    (\<forall>msg ssid. parse_apmsg_node B x = Some msg \<longrightarrow> apn_ssid msg = Some ssid \<longrightarrow> usteer_is_valid_ssid s ssid \<longrightarrow>
       (\<exists>k. node_mirrored B aton i msg s' k))"
proof -
  from rd obtain msg ssid name str bssid where msg: "parse_apmsg_node B x = Some msg" "apn_ssid msg = Some ssid"
    "apn_name msg = Some name" "apn_bssid msg = Some str" "aton str = Some bssid"
    by (auto simp: node_readable_def bind_eq_None_conv)
  show ?thesis
  proof (cases "usteer_is_valid_ssid s ssid")
    case False
    then show ?thesis using msg ok by (simp add: interface_add_node_def recv_const_def same_remote_def)
  next
    case True
    from add_node_total [where aton = aton, OF ins ok msg True, of now iface addr] obtain s' k rn where
      s': "interface_add_node B rfind rins ins aton now iface addr i x s = Some s'" "recv_ok i s'" "recv_const s s'"
        "remote_view s' = (remote_view s)(k \<mapsto> rn)" "rn_key rn = i" "rn_name rn = name"
        "\<forall>m r. r \<noteq> NRemote k \<longrightarrow> entry_si s' m r = entry_si s m r" "node_mirrored B aton i msg s' k"
        and old: "\<And>y. remote_view s k = Some y \<Longrightarrow> rn_key y = i \<and> rn_name y = name" by blast
    have "same_remote k' s s'" if "remote_view s k' = Some y" "rn_key y \<noteq> i \<or> Some (rn_name y) \<noteq> msg_name B x" for k' y
    proof -
      have "k' \<noteq> k" using old [of y] that msg by (auto simp: msg_name_def)
      with s'(4,7) show ?thesis by (simp add: same_remote_def)
    qed
    with s' msg show ?thesis by auto
  qed
qed

text \<open>
  A message with several nodes of one instance, each with its own name: every record is taken
  over, and the other nodes are left alone.
\<close>

lemma add_nodes_total:
  assumes ins: "avl_dups_tree ins" and "recv_ok i s" and "\<forall>x \<in> set xs. node_readable B aton x"
    and "distinct (map (msg_name B) xs)"
  shows "\<exists>s'. for_each (\<lambda>(j, x). interface_add_node B rfind rins ins aton (now j) iface addr i x) (enumerate n xs) s =
      Some s' \<and> recv_ok i s' \<and> recv_const s s' \<and>
    (\<forall>k rn. remote_view s k = Some rn \<longrightarrow> rn_key rn \<noteq> i \<or> Some (rn_name rn) \<notin> msg_name B ` set xs \<longrightarrow> same_remote k s s') \<and>
    (\<forall>x \<in> set xs. \<forall>msg ssid. parse_apmsg_node B x = Some msg \<longrightarrow> apn_ssid msg = Some ssid \<longrightarrow>
       usteer_is_valid_ssid s ssid \<longrightarrow> (\<exists>k. node_mirrored B aton i msg s' k))"
  using assms(2-4)
proof (induction xs arbitrary: s n)
  case Nil
  then show ?case by (simp add: recv_const_def same_remote_def)
next
  case (Cons x xs)
  from add_node_step [OF ins Cons.prems(1), of B aton x "now n" iface addr] Cons.prems(2) obtain t where
    t: "interface_add_node B rfind rins ins aton (now n) iface addr i x s = Some t" "recv_ok i t" "recv_const s t"
      "\<And>k rn. remote_view s k = Some rn \<Longrightarrow> rn_key rn \<noteq> i \<or> Some (rn_name rn) \<noteq> msg_name B x \<Longrightarrow> same_remote k s t"
      "\<And>msg ssid. parse_apmsg_node B x = Some msg \<Longrightarrow> apn_ssid msg = Some ssid \<Longrightarrow> usteer_is_valid_ssid s ssid \<Longrightarrow>
         \<exists>k. node_mirrored B aton i msg t k" by auto
  from Cons.IH [OF t(2), of "Suc n"] Cons.prems(2,3) obtain s' where
    s': "for_each (\<lambda>(j, x). interface_add_node B rfind rins ins aton (now j) iface addr i x) (enumerate (Suc n) xs) t = Some s'"
      "recv_ok i s'" "recv_const t s'"
      "\<And>k rn. remote_view t k = Some rn \<Longrightarrow> rn_key rn \<noteq> i \<or> Some (rn_name rn) \<notin> msg_name B ` set xs \<Longrightarrow> same_remote k t s'"
      "\<And>x msg ssid. x \<in> set xs \<Longrightarrow> parse_apmsg_node B x = Some msg \<Longrightarrow> apn_ssid msg = Some ssid \<Longrightarrow>
         usteer_is_valid_ssid s ssid \<Longrightarrow> \<exists>k. node_mirrored B aton i msg s' k"
    unfolding valid_ssid_const [OF t(3)] by auto
  have run: "for_each (\<lambda>(j, x). interface_add_node B rfind rins ins aton (now j) iface addr i x) (enumerate n (x # xs)) s = Some s'"
    using t(1) s'(1) by simp
  have same: "same_remote k s s'"
    if "remote_view s k = Some rn" "rn_key rn \<noteq> i \<or> Some (rn_name rn) \<notin> msg_name B ` set (x # xs)" for k rn
  proof -
    have st: "same_remote k s t" using t(4) [OF that(1)] that(2) by auto
    then have "remote_view t k = Some rn" using that(1) by (simp add: same_remote_def)
    from s'(4) [OF this] that(2) have "same_remote k t s'" by auto
    with st show ?thesis by (simp add: same_remote_def)
  qed
  have mirror: "\<exists>k. node_mirrored B aton i msg s' k"
    if "y \<in> set (x # xs)" "parse_apmsg_node B y = Some msg" "apn_ssid msg = Some ssid" "usteer_is_valid_ssid s ssid" for y msg ssid
  proof (cases "y \<in> set xs")
    case True
    then show ?thesis using s'(5) that by blast
  next
    case False
    then have y: "y = x" using that(1) by simp
    with t(5) that obtain k where k: "node_mirrored B aton i msg t k" by blast
    then obtain rn where rn: "remote_view t k = Some rn" "Some (rn_name rn) = apn_name msg" by (auto simp: node_mirrored_def)
    have "Some (rn_name rn) = msg_name B x" using rn(2) y that(2) by (simp add: msg_name_def)
    then have "Some (rn_name rn) \<notin> msg_name B ` set xs" using Cons.prems(3) by auto
    with s'(4) [OF rn(1)] have "same_remote k t s'" by blast
    from mirrored_same [OF this s'(3) k] show ?thesis by blast
  qed
  show ?case
    using run s'(2) recv_const_trans [OF t(3) s'(3)] same mirror by (intro exI [of _ s'] conjI) blast+
qed

end

section \<open>The tree as an ordered list\<close>

definition remote_find_list :: remote_find where
  "remote_find_list i xs = map_option fst (List.find (\<lambda>x. node_key x = i) xs)"

fun remote_insert_list :: remote_insert where
  "remote_insert_list x [] = [x]"
| "remote_insert_list x (y # ys) = (if node_before y x then y # remote_insert_list x ys else x # y # ys)"

lemma insert_list_set: "set (remote_insert_list x xs) = insert x (set xs)"
  by (induction xs) auto

lemma ids_total:
  "ids_ordered K \<Longrightarrow> a \<in> K \<Longrightarrow> b \<in> K \<Longrightarrow> \<not> sint (remote_node_cmp a b) \<le> 0 \<Longrightarrow> sint (remote_node_cmp b a) \<le> 0"
  unfolding ids_ordered_def by blast

lemma ids_trans:
  "ids_ordered K \<Longrightarrow> a \<in> K \<Longrightarrow> b \<in> K \<Longrightarrow> c \<in> K \<Longrightarrow> sint (remote_node_cmp a b) \<le> 0 \<Longrightarrow>
   sint (remote_node_cmp b c) \<le> 0 \<Longrightarrow> sint (remote_node_cmp a c) \<le> 0"
  unfolding ids_ordered_def by blast

lemma insert_list_sorted:
  assumes "ids_ordered (insert (node_key x) (node_key ` set xs))" "sorted_wrt node_before xs"
  shows "sorted_wrt node_before (remote_insert_list x xs)"
  using assms
proof (induction xs)
  case (Cons y ys)
  let ?K = "insert (node_key x) (node_key ` set (y # ys))"
  have "ids_ordered (insert (node_key x) (node_key ` set ys))" by (rule ids_ordered_mono [OF Cons.prems(1)]) auto
  with Cons have IH: "sorted_wrt node_before (remote_insert_list x ys)" by simp
  show ?case
  proof (cases "node_before y x")
    case True
    with IH Cons.prems(2) show ?thesis by (simp add: insert_list_set)
  next
    case False
    have xy: "sint (remote_node_cmp (node_key x) (node_key y)) \<le> 0"
      using ids_total [OF Cons.prems(1)] False by (simp add: node_before_def)
    have "node_before x z" if "z \<in> set ys" for z
      unfolding node_before_def
    proof (rule ids_trans [OF Cons.prems(1) _ _ _ xy])
      show "sint (remote_node_cmp (node_key y) (node_key z)) \<le> 0"
        using Cons.prems(2) that by (simp add: node_before_def)
    qed (use that in auto)
    with xy False Cons.prems(2) show ?thesis by (simp add: node_before_def)
  qed
qed simp

interpretation remote_list: remote_tree remote_find_list remote_insert_list
proof unfold_locales
  fix xs :: remote_list and i a x
  show "remote_find_list i xs = None \<longleftrightarrow> i \<notin> node_key ` set xs"
    by (force simp: remote_find_list_def find_None_iff)
  show "\<exists>ys rn zs. xs = ys @ (a, rn) # zs \<and> rn_key rn = i \<and> i \<notin> node_key ` set ys" if "remote_find_list i xs = Some a"
    using that
  proof (induction xs)
    case (Cons y ys)
    then show ?case
    proof (cases "node_key y = i")
      case True
      with Cons.prems show ?thesis
        by (intro exI [of _ "[]"] exI [of _ "snd y"] exI [of _ ys]) (auto simp: remote_find_list_def)
    next
      case False
      with Cons obtain us rn zs where "ys = us @ (a, rn) # zs \<and> rn_key rn = i \<and> i \<notin> node_key ` set us"
        by (auto simp: remote_find_list_def)
      with False show ?thesis by (intro exI [of _ "y # us"] exI [of _ rn] exI [of _ zs]) auto
    qed
  qed (simp add: remote_find_list_def)
  show "set (remote_insert_list x xs) = insert x (set xs)" by (rule insert_list_set)
  show "distinct (map fst (remote_insert_list x xs))" if "fst x \<notin> fst ` set xs" "distinct (map fst xs)"
    using that by (induction xs) (auto simp: insert_list_set)
  show "remote_sorted (remote_insert_list x xs)"
    if "remote_sorted xs" "ids_ordered (insert (node_key x) (node_key ` set xs))"
    using that insert_list_sorted [of x xs] by (simp add: remote_sorted_def insert_list_set)
qed

section \<open>A concrete receiver\<close>

definition receiver :: usteer_state where
  "receiver = remote_network\<lparr>local_id := 2\<rparr>"

lemma wf_local_id [simp]: "wf_state (s\<lparr>local_id := i\<rparr>) = wf_state s"
proof (rule wf_cong)
  show "node_view (s\<lparr>local_id := i\<rparr>) = node_view s"
  proof
    fix r show "node_view (s\<lparr>local_id := i\<rparr>) r = node_view s r"
      by (cases r) (simp_all add: node_view_def get_local_def get_remote_def)
  qed
qed (simp_all add: sta_view_def get_sta_def keys_ok_def fun_eq_iff)

lemma receiver_ok: "recv_ok 1 receiver"
proof -
  have nodes: "remote_nodes receiver = [(0, remote_ap)]" by (simp add: receiver_def remote_network_def)
  have view: "remote_view receiver k = Some rn \<Longrightarrow> k = 0" for k rn
    by (auto simp: remote_view_def get_remote_def nodes split: if_splits)
  have "ids_ordered {1, 7}" by (simp add: ids_ordered_def remote_node_cmp_def)
  then have "ids_ordered (insert 1 (node_key ` set (remote_nodes receiver)))" "remote_sorted (remote_nodes receiver)"
    unfolding nodes by (auto simp: remote_sorted_def remote_ap_def elim: ids_ordered_mono)
  moreover have "remote_unique receiver" unfolding remote_unique_def using view by blast
  moreover have "wf_state receiver" using remote_network_wf by (simp add: receiver_def)
  ultimately show ?thesis by (simp add: recv_ok_def)
qed

lemma receiver_ids:
  "wf_state receiver" "remote_sorted (remote_nodes receiver)"
  "ids_ordered (insert 7 (node_key ` set (remote_nodes receiver)))"
  using receiver_ok by (auto simp: recv_ok_def receiver_def remote_network_def remote_ap_def elim: ids_ordered_mono)

text \<open>The comparator is not transitive on identifiers spread over the whole circle.\<close>

lemma remote_cmp_not_transitive:
  "sint (remote_node_cmp 0xC0000000 0x60000000) \<le> 0 \<and> sint (remote_node_cmp 0x60000000 0) \<le> 0 \<and>
   \<not> sint (remote_node_cmp 0xC0000000 0) \<le> 0"
  by (simp add: remote_node_cmp_def)

section \<open>Properties\<close>



text \<open>
  C37. A node record without an address, or with one that is not an address, makes the receiver
  follow a null pointer: the other fields are accepted, the address is used without a check.
\<close>

theorem node_record_without_bssid:
  assumes "parse_apmsg_node B data = Some msg" "apn_ssid msg = Some ssid" "apn_name msg = Some name"
    and "usteer_is_valid_ssid s ssid" "Option.bind (apn_bssid msg) aton = None"
  shows "interface_add_node B rfind rins ins aton now iface addr i data s = None"
proof -
  have "apn_bssid msg = None \<or> aton (the (apn_bssid msg)) = None" using assms(5) by (cases "apn_bssid msg") auto
  then show ?thesis using assms(1-4)
    by (auto simp: interface_add_node_def bind_eq_None_conv split: prod.splits)
qed

theorem node_record_without_bssid_witness:
  "interface_add_node (item_reader (\<lambda>_. [])) remote_find_list remote_insert_list ordered_insert (\<lambda>_. None)
     (\<lambda>_. 0) ''br-lan'' ''fe80::1'' 7
     (Nest 0 [Put_string APMSG_NODE_NAME ''ap'', Put_int32 APMSG_NODE_FREQ 2412, Put_int32 APMSG_NODE_N_ASSOC 0,
        Nest APMSG_NODE_STATIONS [], Put_string APMSG_NODE_SSID ''net'']) receiver = None"
proof -
  let ?data = "Nest 0 [Put_string APMSG_NODE_NAME ''ap'', Put_int32 APMSG_NODE_FREQ 2412, Put_int32 APMSG_NODE_N_ASSOC 0,
        Nest APMSG_NODE_STATIONS [], Put_string APMSG_NODE_SSID ''net'']"
  obtain msg where "parse_apmsg_node (item_reader (\<lambda>_. [])) ?data = Some msg" "apn_ssid msg = Some ''net''"
    "apn_name msg = Some ''ap''" "Option.bind (apn_bssid msg) (\<lambda>_. None :: mac option) = None"
    by (simp add: parse_apmsg_node_def item_reader_def apmsg_defs apmsg_node_policy_def Let_def)
  moreover have "usteer_is_valid_ssid receiver ''net''"
    by (simp add: usteer_is_valid_ssid_def receiver_def remote_network_def network_def)
  ultimately show ?thesis by (intro node_record_without_bssid)
qed

end
