(* ===== verification/Local_Node.thy ===== *)
theory Local_Node
  imports Kicking Sta_Event Remote_Recv
begin

text \<open>
  local_node.c: the nodes of the local hostapd instances. A node is registered when its object
  appears on ubus and freed when it disappears; a timer drives a cycle of three asynchronous
  requests (clients, setting the neighbor list, reading the own neighbor report) and the periodic
  check of the policy; events of hostapd are passed on to the event handlers.

  Messages of ubus are given by the attributes that the policies of the callbacks select. The node
  handlers (netifd.c, nl80211.c) are a list of records of optional functions, as in the code; what
  the callbacks rely on is the locale \<open>handler_contract\<close>, interpreted in theory Handlers.
  \<open>if_nametoindex\<close> and \<open>ether_aton\<close> are functions of the C library.
\<close>

section \<open>Model\<close>

subsection \<open>Node handlers (usteer.h)\<close>

record usteer_node_handler =
  h_init_node :: "(string \<Rightarrow> usteer_state \<Rightarrow> usteer_state option) option"
  h_free_node :: "(string \<Rightarrow> usteer_state \<Rightarrow> usteer_state option) option"
  h_update_node :: "(string \<Rightarrow> usteer_state \<Rightarrow> usteer_state option) option"
  h_update_sta :: "(string \<Rightarrow> nat \<Rightarrow> usteer_state \<Rightarrow> usteer_state option) option"

text \<open>The loop over the handlers that have the function.\<close>

definition call_handlers ::
    "(usteer_node_handler \<Rightarrow> ('a \<Rightarrow> usteer_state \<Rightarrow> usteer_state option) option) \<Rightarrow>
     usteer_node_handler list \<Rightarrow> 'a \<Rightarrow> usteer_state \<Rightarrow> usteer_state option" where
  "call_handlers sel hs x = for_each (\<lambda>h s. case sel h of None \<Rightarrow> Some s | Some f \<Rightarrow> f x s) hs"

definition call_update_sta ::
    "usteer_node_handler list \<Rightarrow> string \<Rightarrow> nat \<Rightarrow> usteer_state \<Rightarrow> usteer_state option" where
  "call_update_sta hs n a = for_each (\<lambda>h s. case h_update_sta h of None \<Rightarrow> Some s | Some f \<Rightarrow> f n a s) hs"

subsection \<open>Requests and removal\<close>

definition usteer_local_node_state_reset :: "string \<Rightarrow> usteer_state \<Rightarrow> usteer_state option" where
  "usteer_local_node_state_reset n s = do {
     l \<leftarrow> get_local s n;
     Some (if ln_req_state l = REQ_IDLE then s
           else upd_local n (\<lambda>l. l\<lparr>ln_req_state := REQ_IDLE\<rparr>) (emit (Ubus_abort (Node_req n)) s))
   }"

definition usteer_free_node :: "usteer_node_handler list \<Rightarrow> string \<Rightarrow> usteer_state \<Rightarrow> usteer_state option" where
  "usteer_free_node hs n s = do {
     s \<leftarrow> call_handlers h_free_node hs n s;
     s \<leftarrow> usteer_local_node_state_reset n s;
     s \<leftarrow> usteer_sta_node_cleanup (NLocal n) s;
     let s = upd_local n (\<lambda>l. l\<lparr>ln_req_timer := None, ln_update_timer := None\<rparr>) s;
     let s = s\<lparr>local_nodes := dict_delete n (local_nodes s)\<rparr>;
     Some (emit (Ubus_unregister n) s)
   }"

definition usteer_handle_remove :: "usteer_node_handler list \<Rightarrow> string \<Rightarrow> usteer_state \<Rightarrow> usteer_state option" where
  "usteer_handle_remove hs n s = usteer_free_node hs n s"

subsection \<open>Events of hostapd\<close>

definition event_types :: "string list" where
  "event_types = [''probe'', ''assoc'', ''auth'', ''beacon-report'']"

text \<open>The search for the name of the method.\<close>

definition event_type_of :: "string \<Rightarrow> usteer_event_type" where
  "event_type_of method =
     (case List.find (\<lambda>(name, _). name = method)
             (zip event_types [EVENT_TYPE_PROBE, EVENT_TYPE_ASSOC, EVENT_TYPE_AUTH, EVENT_TYPE_BEACON]) of
        None \<Rightarrow> EVENT_TYPE_MAX | Some (_, type) \<Rightarrow> type)"

record event_msg =
  ev_address :: "string option"
  ev_signal :: "u32 option"
  ev_freq :: "u32 option"
  ev_report :: beacon_rep_msg

definition UBUS_STATUS_INVALID_ARGUMENT :: nat where "UBUS_STATUS_INVALID_ARGUMENT = 2"

text \<open>
  \<open>clk\<close> is the reading of \<^verbatim>\<open>usteer_update_time\<close>. The result is the status returned to hostapd:
  17 (unable to handle a new station) refuses the request.
\<close>

definition usteer_handle_event ::
    "(string \<Rightarrow> mac option) \<Rightarrow> tree_insert \<Rightarrow> (mac \<Rightarrow> string) \<Rightarrow> u64 \<Rightarrow> u32 \<Rightarrow> string \<Rightarrow> string \<Rightarrow> event_msg \<Rightarrow>
     usteer_state \<Rightarrow> (nat \<times> usteer_state) option" where
  "usteer_handle_event ether_aton ins ether_ntoa clk now n method msg s =
     (let s = s\<lparr>current_time := clk\<rparr>;
          ev_type = event_type_of method
      in if ev_type = EVENT_TYPE_BEACON
         then map_option (\<lambda>s. (0, s)) (usteer_handle_event_beacon_report ether_aton n (ev_report msg) s)
         else
           (case (ev_address msg, ev_freq msg) of
              (Some addr_str, Some freq) \<Rightarrow>
                let signal = (case ev_signal msg of None \<Rightarrow> NO_SIGNAL | Some x \<Rightarrow> x)
                in case ether_aton addr_str of
                     None \<Rightarrow> Some (UBUS_STATUS_INVALID_ARGUMENT, s)
                   | Some addr \<Rightarrow> do {
                       (ret, s) \<leftarrow> usteer_handle_sta_event ins ether_ntoa now (NLocal n) addr ev_type freq signal s;
                       Some (if ret then 0 else 17, s)
                     }
            | _ \<Rightarrow> Some (UBUS_STATUS_INVALID_ARGUMENT, s)))"

subsection \<open>The list of clients\<close>

record client_msg =
  cm_assoc :: "u8 option"
  cm_bytes :: "(u64 option \<times> u64 option) option"

definition usteer_local_node_assoc_update :: "nat \<Rightarrow> client_msg \<Rightarrow> usteer_state \<Rightarrow> usteer_state option" where
  "usteer_local_node_assoc_update a data s = do {
     s \<leftarrow> (case cm_assoc data of
            Some x \<Rightarrow> if x \<noteq> 0 then upd_si a (\<lambda>si. si\<lparr>si_connected := 1\<rparr>) s else Some s
          | None \<Rightarrow> Some s);
     si \<leftarrow> si_heap s a;
     nd \<leftarrow> get_node s (si_node si);
     _ \<leftarrow> get_sta s (si_sta si);
     Some (upd_sta (si_sta si) (seen_band (node_freq nd)) s)
   }"

text \<open>\<open>kick_client_active_sec * 1000\<close> is computed in 32 bits and compared in 64 bits.\<close>

definition usteer_update_client_active_bytes :: "nat \<Rightarrow> client_msg \<Rightarrow> usteer_state \<Rightarrow> usteer_state option" where
  "usteer_update_client_active_bytes a data s = do {
     si \<leftarrow> si_heap s a;
     let ab = si_active_bytes si;
     let ctime = current_time s;
     (if ctime - ab_last_time ab < ucast (kick_client_active_sec (config s) * 1000) then Some s
      else
        (case cm_bytes data of
           Some (Some rx, Some tx) \<Rightarrow>
             upd_si a (\<lambda>si. si\<lparr>si_active_bytes :=
               \<lparr>ab_prev_rx = ab_cur_rx ab, ab_prev_tx = ab_cur_tx ab, ab_cur_rx = rx, ab_cur_tx = tx,
                ab_last_time = ctime\<rparr>\<rparr>) s
         | _ \<Rightarrow> Some s))
   }"

definition mark_connected :: "nat \<Rightarrow> usteer_state \<Rightarrow> usteer_state option" where
  "mark_connected a s = do {
     si \<leftarrow> si_heap s a;
     (if si_connected si \<noteq> 0 then upd_si a (\<lambda>si. si\<lparr>si_connected := 2\<rparr>) s else Some s)
   }"

definition client_update ::
    "(string \<Rightarrow> mac option) \<Rightarrow> usteer_node_handler list \<Rightarrow> (rat \<Rightarrow> rat) \<Rightarrow> string \<Rightarrow> string \<times> client_msg \<Rightarrow>
     s32 \<times> usteer_state \<Rightarrow> (s32 \<times> usteer_state) option" where
  "client_update ether_aton hs fl n cur st =
     (case (cur, st) of ((name, data), (n_assoc, s)) \<Rightarrow>
        (case ether_aton name of
           None \<Rightarrow> Some (n_assoc, s)
         | Some addr \<Rightarrow> do {
             (a, create, s) \<leftarrow> sta_info_obtain addr (NLocal n) s;
             s \<leftarrow> call_update_sta hs n a s;
             s \<leftarrow> usteer_local_node_assoc_update a data s;
             si \<leftarrow> si_heap s a;
             let n_assoc = (if si_connected si = 1 then n_assoc + 1 else n_assoc);
             s \<leftarrow> usteer_update_client_active_bytes a data s;
             s \<leftarrow> usteer_beacon_request_check fl a s;
             Some (n_assoc, s)
           }))"

text \<open>
  The second loop over the entries follows the list link of an entry after the body has run: an
  entry that the timeout update has freed must not be looked at again.
\<close>

definition sweep_disconnected :: "tree_insert \<Rightarrow> u32 \<Rightarrow> nat \<Rightarrow> usteer_state \<Rightarrow> usteer_state option" where
  "sweep_disconnected ins now a s = do {
     si \<leftarrow> si_heap s a;
     (if si_connected si \<noteq> 2 then Some s
      else do {
        s \<leftarrow> upd_si a (\<lambda>si. si\<lparr>si_connected := 0\<rparr>) s;
        s \<leftarrow> usteer_sta_info_update_timeout ins now a (local_sta_timeout (config s)) s;
        _ \<leftarrow> si_heap s a;
        Some s
      })
   }"

definition usteer_local_node_set_assoc ::
    "(string \<Rightarrow> mac option) \<Rightarrow> usteer_node_handler list \<Rightarrow> (rat \<Rightarrow> rat) \<Rightarrow> tree_insert \<Rightarrow> (nat \<Rightarrow> u32) \<Rightarrow> string \<Rightarrow>
     (string \<times> client_msg) list \<Rightarrow> usteer_state \<Rightarrow> usteer_state option" where
  "usteer_local_node_set_assoc ether_aton hs fl ins now n cl s = do {
     node \<leftarrow> get_node s (NLocal n);
     s \<leftarrow> for_each mark_connected (node_sta_info node) s;
     (n_assoc, s) \<leftarrow> for_each (client_update ether_aton hs fl n) cl (0, s);
     let s = upd_node (NLocal n) (\<lambda>nd. nd\<lparr>node_n_assoc := n_assoc\<rparr>) s;
     node \<leftarrow> get_node s (NLocal n);
     for_each (\<lambda>(j, a). sweep_disconnected ins (now j) a) (enumerate 0 (node_sta_info node)) s
   }"

definition usteer_local_node_list_cb ::
    "(string \<Rightarrow> mac option) \<Rightarrow> usteer_node_handler list \<Rightarrow> (rat \<Rightarrow> rat) \<Rightarrow> tree_insert \<Rightarrow> (nat \<Rightarrow> u32) \<Rightarrow> string \<Rightarrow>
     u32 option \<Rightarrow> (string \<times> client_msg) list option \<Rightarrow> usteer_state \<Rightarrow> usteer_state option" where
  "usteer_local_node_list_cb ether_aton hs fl ins now n freq clients s =
     (case (freq, clients) of
        (Some freq, Some clients) \<Rightarrow>
          usteer_local_node_set_assoc ether_aton hs fl ins now n clients
            (upd_node (NLocal n) (\<lambda>nd. nd\<lparr>node_freq := freq\<rparr>) s)
      | _ \<Rightarrow> Some s)"

subsection \<open>Neighbor reports\<close>

text \<open>\<open>ba0\<close> and \<open>ba1\<close> are the first two strings of the array.\<close>

definition usteer_local_node_rrm_nr_cb ::
    "'b libblob \<Rightarrow> (string \<Rightarrow> mac option) \<Rightarrow> usteer_node_handler list \<Rightarrow> string \<Rightarrow> 'b option \<Rightarrow> string option \<Rightarrow>
     string option \<Rightarrow> usteer_state \<Rightarrow> usteer_state option" where
  "usteer_local_node_rrm_nr_cb B ether_aton hs n tb ba0 ba1 s =
     (case tb of
        None \<Rightarrow> Some s
      | Some tb \<Rightarrow> do {
          node \<leftarrow> get_node s (NLocal n);
          rrm \<leftarrow> usteer_node_set_blob B (node_rrm_nr node) (Some tb);
          let s = upd_node (NLocal n) (\<lambda>nd. nd\<lparr>node_rrm_nr := rrm\<rparr>) s;
          s \<leftarrow> (case ba0 of
                 None \<Rightarrow> Some s
               | Some str \<Rightarrow> do {
                   bssid \<leftarrow> ether_aton str;
                   Some (upd_node (NLocal n) (\<lambda>nd. nd\<lparr>node_bssid := bssid\<rparr>) s)
                 });
          (case ba1 of
             None \<Rightarrow> Some s
           | Some ssid \<Rightarrow> if usteer_is_valid_ssid s ssid then Some s else usteer_free_node hs n s)
        })"

definition usteer_local_node_req_cb :: "string \<Rightarrow> usteer_state \<Rightarrow> usteer_state" where
  "usteer_local_node_req_cb n s = upd_local n (\<lambda>l. l\<lparr>ln_req_timer := Some 1\<rparr>) s"

definition usteer_add_rrm_data :: "string \<Rightarrow> usteer_node \<Rightarrow> node_ref \<times> usteer_node \<Rightarrow> (string \<times> blobmsg) list" where
  "usteer_add_rrm_data n own rnode =
     (case rnode of (r, node) \<Rightarrow>
        if r = NLocal n then []
        else
          (case node_rrm_nr node of
             None \<Rightarrow> []
           | Some nr \<Rightarrow> if node_ssid own \<noteq> node_ssid node then [] else [([], Add_field nr)]))"

definition all_nodes :: "usteer_state \<Rightarrow> (node_ref \<times> usteer_node) list" where
  "all_nodes s = map (\<lambda>(n, l). (NLocal n, ln_node l)) (local_nodes s) @
     map (\<lambda>(k, rn). (NRemote k, rn_node rn)) (remote_nodes s)"

definition usteer_local_node_prepare_rrm_set :: "string \<Rightarrow> usteer_state \<Rightarrow> (string \<times> blobmsg) list option" where
  "usteer_local_node_prepare_rrm_set n s = do {
     own \<leftarrow> get_node s (NLocal n);
     Some [(''list'', Add_array (concat (map (usteer_add_rrm_data n own) (all_nodes s))))]
   }"

subsection \<open>The cycle of requests\<close>

text \<open>\<^verbatim>\<open>req_state++\<close>; past the last state the cycle ends.\<close>

fun next_req_state :: "local_req_state \<Rightarrow> local_req_state option" where
  "next_req_state REQ_IDLE = Some REQ_CLIENTS"
| "next_req_state REQ_CLIENTS = Some REQ_RRM_SET_LIST"
| "next_req_state REQ_RRM_SET_LIST = Some REQ_RRM_GET_OWN"
| "next_req_state REQ_RRM_GET_OWN = None"

definition usteer_local_node_state_next :: "string \<Rightarrow> usteer_state \<Rightarrow> usteer_state option" where
  "usteer_local_node_state_next n s = do {
     l \<leftarrow> get_local s n;
     (case next_req_state (ln_req_state l) of
        None \<Rightarrow> Some (upd_local n (\<lambda>l. l\<lparr>ln_req_state := REQ_IDLE\<rparr>) s)
      | Some st \<Rightarrow> do {
          let s = upd_local n (\<lambda>l. l\<lparr>ln_req_state := st\<rparr>) s;
          (case st of
             REQ_CLIENTS \<Rightarrow> Some (emit (Ubus_invoke_async (ln_obj_id l) ''get_clients'' []) s)
           | REQ_RRM_SET_LIST \<Rightarrow> do {
               list \<leftarrow> usteer_local_node_prepare_rrm_set n s;
               Some (emit (Ubus_invoke_async (ln_obj_id l) ''rrm_nr_set'' list) s)
             }
           | REQ_RRM_GET_OWN \<Rightarrow> Some (emit (Ubus_invoke_async (ln_obj_id l) ''rrm_nr_get_own'' []) s)
           | REQ_IDLE \<Rightarrow> Some s)
        })
   }"

definition usteer_local_node_update ::
    "usteer_node_handler list \<Rightarrow> nr_parser \<Rightarrow> u64 \<Rightarrow> string \<Rightarrow> usteer_state \<Rightarrow> usteer_state option" where
  "usteer_local_node_update hs nr_fields clk n s = do {
     s \<leftarrow> call_handlers h_update_node hs n s;
     s \<leftarrow> usteer_local_node_state_reset n s;
     let s = upd_local n (\<lambda>l. l\<lparr>ln_req_timer := Some 1\<rparr>) s;
     s \<leftarrow> usteer_local_node_kick nr_fields clk n s;
     Some (upd_local n (\<lambda>l. l\<lparr>ln_update_timer := Some (local_sta_update (config s))\<rparr>) s)
   }"

subsection \<open>Registration\<close>

definition calloc_local_node :: usteer_local_node where
  "calloc_local_node = \<lparr>
     ln_node = calloc_node NODE_TYPE_LOCAL, ln_update_timer = None, ln_iface = [], ln_ifindex = 0, ln_wiphy = 0,
     ln_req_timer = None, ln_req_state = REQ_IDLE, ln_obj_id = 0, ln_load_ewma = 0, ln_load_thr_count = 0,
     ln_time = 0, ln_time_busy = 0, ln_nl80211_present = False, ln_nl80211_timer = None,
     ln_netifd_req_pending = False, ln_netifd_status_complete = False \<rparr>"

definition usteer_get_node :: "string \<Rightarrow> usteer_state \<Rightarrow> usteer_state" where
  "usteer_get_node name s =
     (case get_local s name of
        Some _ \<Rightarrow> s
      | None \<Rightarrow>
          (emit (Ubus_register name) s)\<lparr>local_nodes :=
             dict_insert name (calloc_local_node\<lparr>ln_update_timer := Some 1\<rparr>) (local_nodes s)\<rparr>)"

definition usteer_node_run_update_script :: "usteer_local_node \<Rightarrow> usteer_state \<Rightarrow> usteer_state" where
  "usteer_node_run_update_script l s =
     (case node_up_script s of
        None \<Rightarrow> s
      | Some script \<Rightarrow> emit (System (script @ '' '' @ [CHR 0x27] @ ln_iface l @ [CHR 0x27])) s)"

definition usteer_register_node ::
    "usteer_node_handler list \<Rightarrow> (string \<Rightarrow> u32) \<Rightarrow> string \<times> u32 \<Rightarrow> usteer_state \<Rightarrow> usteer_state option" where
  "usteer_register_node hs if_nametoindex obj s =
     (case obj of (name, i) \<Rightarrow>
        if take 8 name \<noteq> ''hostapd.'' then Some s
        else do {
          let iface = drop 8 name;
          let s = usteer_get_node name s;
          let s = upd_local name (\<lambda>l. l\<lparr>ln_obj_id := i, ln_iface := iface, ln_ifindex := if_nametoindex iface\<rparr>) s;
          let s = emit (Ubus_invoke i ''notify_response'' [(''notify_response'', Add_u32 1)]) s;
          let s = emit (Ubus_invoke i ''bss_mgmt_enable''
                    [(''neighbor_report'', Add_u8 1), (''beacon_report'', Add_u8 1), (''bss_transition'', Add_u8 1)]) s;
          let s = emit (Ubus_subscribe name i) s;
          s \<leftarrow> call_handlers h_init_node hs name s;
          l \<leftarrow> get_local s name;
          Some (usteer_node_run_update_script l s)
        })"

text \<open>The event \<^verbatim>\<open>ubus.object.add\<close> and the objects that exist already.\<close>

definition usteer_event_handler ::
    "usteer_node_handler list \<Rightarrow> (string \<Rightarrow> u32) \<Rightarrow> u32 option \<Rightarrow> string option \<Rightarrow> usteer_state \<Rightarrow> usteer_state option" where
  "usteer_event_handler hs if_nametoindex ident path s =
     (case (ident, path) of
        (Some i, Some p) \<Rightarrow> usteer_register_node hs if_nametoindex (p, i) s
      | _ \<Rightarrow> Some s)"

definition usteer_register_events :: "usteer_state \<Rightarrow> usteer_state" where
  "usteer_register_events s = emit (Ubus_register_events ''ubus.object.add'') s"

definition node_list_cb ::
    "usteer_node_handler list \<Rightarrow> (string \<Rightarrow> u32) \<Rightarrow> string \<times> u32 \<Rightarrow> usteer_state \<Rightarrow> usteer_state option" where
  "node_list_cb hs if_nametoindex obj s = usteer_register_node hs if_nametoindex obj s"

text \<open>\<open>objs\<close> are the objects that the lookup of \<^verbatim>\<open>hostapd.*\<close> reports.\<close>

definition usteer_local_nodes_init ::
    "usteer_node_handler list \<Rightarrow> (string \<Rightarrow> u32) \<Rightarrow> (string \<times> u32) list \<Rightarrow> usteer_state \<Rightarrow> usteer_state option" where
  "usteer_local_nodes_init hs if_nametoindex objs s =
     (let s = usteer_register_events s;
          s = emit (Ubus_lookup ''hostapd.*'') s
      in for_each (node_list_cb hs if_nametoindex) objs s)"

definition config_set_node_up_script :: "string \<Rightarrow> usteer_state \<Rightarrow> usteer_state" where
  "config_set_node_up_script val s =
     (if node_up_script s = Some val then s
      else if val = [] then s\<lparr>node_up_script := None\<rparr>
      else fold (\<lambda>(_, l). usteer_node_run_update_script l) (local_nodes s) (s\<lparr>node_up_script := Some val\<rparr>))"

definition config_get_node_up_script :: "usteer_state \<Rightarrow> (string \<times> blobmsg) list" where
  "config_get_node_up_script s =
     (case node_up_script s of None \<Rightarrow> [] | Some x \<Rightarrow> [(''node_up_script'', Add_string x)])"

section \<open>Interface: the node handlers\<close>

text \<open>
  A handler of a node changes fields of the local node (not its list of entries) and sends
  messages; the handler of an entry updates the entry in place, not its connection state.
\<close>

definition handler_step :: "string \<Rightarrow> usteer_state \<Rightarrow> usteer_state \<Rightarrow> bool" where
  "handler_step n s s' \<longleftrightarrow> (\<exists>f msgs. s' = (upd_local n f s)\<lparr>out := out s @ msgs\<rparr> \<and>
     (\<forall>l. node_sta_info (ln_node (f l)) = node_sta_info (ln_node l)))"

definition entry_update :: "nat \<Rightarrow> usteer_state \<Rightarrow> usteer_state \<Rightarrow> bool" where
  "entry_update a s s' \<longleftrightarrow> (\<exists>si si' q. si_heap s a = Some si \<and> same_entry a si si' \<and> si_connected si' = si_connected si \<and>
     s' = s\<lparr>si_heap := (si_heap s)(a \<mapsto> si'), tq := q\<rparr>)"

definition timeouts_positive :: "usteer_state \<Rightarrow> bool" where
  "timeouts_positive s \<longleftrightarrow> 0 < sint (local_sta_timeout (config s))"

locale handler_contract =
  fixes hs :: "usteer_node_handler list"
  assumes init_node: "h \<in> set hs \<Longrightarrow> h_init_node h = Some f \<Longrightarrow> get_local s n \<noteq> None \<Longrightarrow>
      \<exists>s'. f n s = Some s' \<and> handler_step n s s'"
    and free_node: "h \<in> set hs \<Longrightarrow> h_free_node h = Some f \<Longrightarrow> get_local s n \<noteq> None \<Longrightarrow>
      \<exists>s'. f n s = Some s' \<and> handler_step n s s'"
    and update_node: "h \<in> set hs \<Longrightarrow> h_update_node h = Some f \<Longrightarrow> get_local s n \<noteq> None \<Longrightarrow>
      \<exists>s'. f n s = Some s' \<and> handler_step n s s'"
    and update_sta: "h \<in> set hs \<Longrightarrow> h_update_sta h = Some g \<Longrightarrow> wf_state s \<Longrightarrow> timeouts_positive s \<Longrightarrow>
      get_local s n \<noteq> None \<Longrightarrow> si_heap s a \<noteq> None \<Longrightarrow> \<exists>s'. g n a s = Some s' \<and> wf_state s' \<and> entry_update a s s'"

lemma handler_step_refl: "handler_step n s s"
  unfolding handler_step_def
  by (intro exI [of _ "\<lambda>l. l"] exI [of _ "[]"]) (simp add: upd_local_def dict_modify_def case_prod_unfold)

lemma upd_local_comp: "upd_local n g (upd_local n f s) = upd_local n (g \<circ> f) s"
  by (simp add: upd_local_def dict_modify_def case_prod_unfold comp_def)

lemma upd_local_out: "upd_local n f (s\<lparr>out := ou\<rparr>) = (upd_local n f s)\<lparr>out := ou\<rparr>"
  by (simp add: upd_local_def)

lemma out_upd_local [simp]: "out (upd_local n f s) = out s"
  by (simp add: upd_local_def)

lemma handler_step_trans:
  assumes "handler_step n s t" "handler_step n t u"
  shows "handler_step n s u"
proof -
  from assms obtain f g m1 m2 where
    t: "t = (upd_local n f s)\<lparr>out := out s @ m1\<rparr>" and u: "u = (upd_local n g t)\<lparr>out := out t @ m2\<rparr>"
    and keep: "\<forall>l. node_sta_info (ln_node (f l)) = node_sta_info (ln_node l)"
      "\<forall>l. node_sta_info (ln_node (g l)) = node_sta_info (ln_node l)"
    unfolding handler_step_def by blast
  have "u = (upd_local n (g \<circ> f) s)\<lparr>out := out s @ (m1 @ m2)\<rparr>"
    by (simp add: u t upd_local_out upd_local_comp)
  with keep show ?thesis unfolding handler_step_def by (intro exI [of _ "g \<circ> f"] exI [of _ "m1 @ m2"]) simp
qed

lemma handler_step_upd:
  "(\<And>l. node_sta_info (ln_node (f l)) = node_sta_info (ln_node l)) \<Longrightarrow> handler_step n s (upd_local n f s)"
  unfolding handler_step_def by (intro exI [of _ f] exI [of _ "[]"]) simp

lemma handler_step_emit: "handler_step n s (emit x s)"
  unfolding handler_step_def
  by (intro exI [of _ "\<lambda>l. l"] exI [of _ "[x]"]) (simp add: upd_local_def dict_modify_def case_prod_unfold emit_def)

lemma handler_step_views:
  assumes "handler_step n s s'"
  shows "node_view s' = node_view s" "sta_view s' = sta_view s" "keys_ok s' = keys_ok s"
    "si_heap s' = si_heap s" "si_next s' = si_next s" "tq s' = tq s" "stations s' = stations s"
    "config s' = config s" "current_time s' = current_time s" "remote_nodes s' = remote_nodes s"
    "map fst (local_nodes s') = map fst (local_nodes s)" "node_up_script s' = node_up_script s"
    "config_ssid_list s' = config_ssid_list s"
proof -
  from assms obtain f msgs where s': "s' = (upd_local n f s)\<lparr>out := out s @ msgs\<rparr>"
    and keep: "\<And>l. node_sta_info (ln_node (f l)) = node_sta_info (ln_node l)" unfolding handler_step_def by blast
  show "node_view s' = node_view s"
  proof
    fix r show "node_view s' r = node_view s r"
      using keep unfolding s'
      by (cases r) (auto simp: node_view_def get_remote_def upd_local_def get_local_def option.map_comp comp_def)
  qed
  show keys: "map fst (local_nodes s') = map fst (local_nodes s)" by (simp add: s' upd_local_def)
  show "keys_ok s' = keys_ok s" using keys by (simp add: keys_ok_def dict_ok_def s' upd_local_def)
  show "sta_view s' = sta_view s" "si_heap s' = si_heap s" "si_next s' = si_next s" "tq s' = tq s"
    "stations s' = stations s" "config s' = config s" "current_time s' = current_time s"
    "remote_nodes s' = remote_nodes s" "node_up_script s' = node_up_script s" "config_ssid_list s' = config_ssid_list s"
    by (simp_all add: s' upd_local_def sta_view_def get_sta_def fun_eq_iff)
qed

lemma handler_step_wf:
  assumes "handler_step n s s'"
  shows "wf_state s' = wf_state s" "wf_core s' = wf_core s"
  by (rule wf_cong wf_core_cong; rule handler_step_views [OF assms])+

lemma handler_step_live:
  assumes "handler_step n s s'"
  shows "get_local s' n' = None \<longleftrightarrow> get_local s n' = None"
  using handler_step_views(11) [OF assms] unfolding get_local_def map_of_eq_None_iff
  by (metis list.set_map)

lemma handler_step_alive: "handler_step n s s' \<Longrightarrow> get_local s n' \<noteq> None \<Longrightarrow> get_local s' n' \<noteq> None"
  by (simp only: handler_step_live not_False_eq_True)

context handler_contract
begin

lemma call_handlers_total:
  assumes "get_local s n \<noteq> None"
    and "\<And>h f s. h \<in> set hs \<Longrightarrow> sel h = Some f \<Longrightarrow> get_local s n \<noteq> None \<Longrightarrow> \<exists>s'. f n s = Some s' \<and> handler_step n s s'"
  shows "\<exists>s'. call_handlers sel hs n s = Some s' \<and> handler_step n s s'"
proof -
  let ?P = "\<lambda>t. handler_step n s t"
  have "\<exists>s'. call_handlers sel hs n s = Some s' \<and> ?P s'"
    unfolding call_handlers_def
  proof (rule for_each_total)
    show "?P s" by (rule handler_step_refl)
    fix h t assume h: "h \<in> set hs" and t: "?P t"
    then have live: "get_local t n \<noteq> None" using handler_step_live [OF t] assms(1) by simp
    show "\<exists>t'. (case sel h of None \<Rightarrow> Some t | Some f \<Rightarrow> f n t) = Some t' \<and> ?P t'"
    proof (cases "sel h")
      case (Some f)
      from assms(2) [OF h Some live] handler_step_trans [OF t] show ?thesis using Some by auto
    qed (use t in simp)
  qed
  then show ?thesis .
qed

lemma init_handlers:
  "get_local s n \<noteq> None \<Longrightarrow> \<exists>s'. call_handlers h_init_node hs n s = Some s' \<and> handler_step n s s'"
  by (rule call_handlers_total) (use init_node in blast)+

lemma free_handlers:
  "get_local s n \<noteq> None \<Longrightarrow> \<exists>s'. call_handlers h_free_node hs n s = Some s' \<and> handler_step n s s'"
  by (rule call_handlers_total) (use free_node in blast)+

lemma update_handlers:
  "get_local s n \<noteq> None \<Longrightarrow> \<exists>s'. call_handlers h_update_node hs n s = Some s' \<and> handler_step n s s'"
  by (rule call_handlers_total) (use update_node in blast)+

end

section \<open>Registration and removal\<close>

lemma wf_add_local:
  assumes wf: "wf_state s" and new: "node_sta_info (ln_node l) = []" and fresh: "get_local s n = None"
  shows "wf_state (s\<lparr>local_nodes := dict_insert n l (local_nodes s)\<rparr>)"
    and "get_local (s\<lparr>local_nodes := dict_insert n l (local_nodes s)\<rparr>) = (get_local s)(n \<mapsto> l)"
proof -
  let ?s = "s\<lparr>local_nodes := dict_insert n l (local_nodes s)\<rparr>"
  have ok: "sta_ok s" "node_ok s" "si_ok s" "si_unique s" "timers_ok s" "keys_ok s" "no_empty_sta s"
    using wf by (auto simp: wf_state_def wf_core_def)
  have key: "n \<notin> fst ` set (local_nodes s)" using fresh by (simp add: get_local_def map_of_eq_None_iff)
  then show get: "get_local ?s = (get_local s)(n \<mapsto> l)" by (simp add: get_local_def fun_eq_iff)
  have nv: "node_view ?s = (node_view s)(NLocal n \<mapsto> [])"
  proof
    fix r show "node_view ?s r = ((node_view s)(NLocal n \<mapsto> [])) r"
      using get new by (cases r) (auto simp: node_view_def get_remote_def)
  qed
  have none: "node_view s (NLocal n) = None" using fresh by (simp add: node_view_def)
  have no_si: "si_node si \<noteq> NLocal n" if "si_heap s b = Some si" for b si
    using ok(3) none that unfolding si_ok_def by fastforce
  have sv: "sta_view ?s = sta_view s" by (simp add: sta_view_def get_sta_def fun_eq_iff)
  have "keys_ok ?s" using ok(6) key by (simp add: keys_ok_def)
  moreover have "sta_ok ?s" using ok(1) by (simp add: sta_ok_def sv)
  moreover have "node_ok ?s" using ok(2) no_si unfolding node_ok_def nv by auto
  moreover have "si_ok ?s" using ok(3) unfolding si_ok_def nv sv by auto
  moreover have "si_unique ?s" using ok(4) by (simp add: si_unique_def)
  moreover have "timers_ok ?s" using ok(5) by (simp add: timers_ok_def)
  moreover have "no_empty_sta ?s" using ok(7) by (simp add: no_empty_sta_def sv)
  ultimately show "wf_state ?s" by (simp add: wf_state_def wf_core_def)
qed

lemma wf_remove_local:
  assumes wf: "wf_state s" and empty: "node_view s (NLocal n) = Some []"
  shows "wf_state (s\<lparr>local_nodes := dict_delete n (local_nodes s)\<rparr>)"
proof -
  let ?s = "s\<lparr>local_nodes := dict_delete n (local_nodes s)\<rparr>"
  have nv: "node_view ?s = (node_view s)(NLocal n := None)"
  proof
    fix r show "node_view ?s r = ((node_view s)(NLocal n := None)) r"
      by (cases r) (auto simp: node_view_def get_local_def get_remote_def)
  qed
  have ok: "sta_ok s" "node_ok s" "si_ok s" "si_unique s" "timers_ok s" "keys_ok s" "no_empty_sta s"
    using wf by (auto simp: wf_state_def wf_core_def)
  have none: "si_node si \<noteq> NLocal n" if "si_heap s b = Some si" for b si
    using ok(2) empty that unfolding node_ok_def by fastforce
  have sv: "sta_view ?s = sta_view s" by (simp add: sta_view_def get_sta_def fun_eq_iff)
  have "keys_ok ?s" using ok(6) by (simp add: keys_ok_def)
  moreover have "sta_ok ?s" using ok(1) by (simp add: sta_ok_def sv)
  moreover have "node_ok ?s" using ok(2) unfolding node_ok_def nv by auto
  moreover have "si_ok ?s" using ok(3) none unfolding si_ok_def nv sv by auto
  moreover have "si_unique ?s" using ok(4) by (simp add: si_unique_def)
  moreover have "timers_ok ?s" using ok(5) by (simp add: timers_ok_def)
  moreover have "no_empty_sta ?s" using ok(7) by (simp add: no_empty_sta_def sv)
  ultimately show ?thesis by (simp add: wf_state_def wf_core_def)
qed

lemma state_reset_total:
  assumes "get_local s n = Some l"
  shows "\<exists>s'. usteer_local_node_state_reset n s = Some s' \<and> handler_step n s s' \<and>
    map_option ln_req_state (get_local s' n) = Some REQ_IDLE"
proof -
  have "handler_step n s (upd_local n (\<lambda>l. l\<lparr>ln_req_state := REQ_IDLE\<rparr>) (emit x s))" for x
    by (rule handler_step_trans [OF handler_step_emit]) (rule handler_step_upd, simp)
  moreover have "get_local (emit x s) n = get_local s n" for x by (simp add: get_local_def)
  ultimately show ?thesis using assms handler_step_refl by (simp add: usteer_local_node_state_reset_def)
qed

lemma get_local_live: "get_local s n \<noteq> None \<longleftrightarrow> get_node s (NLocal n) \<noteq> None"
  by simp

context handler_contract
begin

lemma free_node_total:
  assumes wf: "wf_state s" and l: "get_local s n = Some l"
  shows "\<exists>s'. usteer_free_node hs n s = Some s' \<and> wf_state s' \<and> get_local s' n = None \<and>
    map fst (local_nodes s') = filter (\<lambda>k. k \<noteq> n) (map fst (local_nodes s)) \<and>
    (\<forall>b. si_heap s' b = (if b \<in> set (node_sta_info (ln_node l)) then None else si_heap s b)) \<and>
    config s' = config s \<and> current_time s' = current_time s"
proof -
  from free_handlers [of s n] l obtain s1 where
    s1: "call_handlers h_free_node hs n s = Some s1" "handler_step n s s1" by auto
  have "get_local s1 n \<noteq> None" using handler_step_live [OF s1(2)] l by simp
  then obtain l1 where "get_local s1 n = Some l1" by blast
  from state_reset_total [OF this] obtain s2 where
    s2: "usteer_local_node_state_reset n s1 = Some s2" "handler_step n s1 s2" by blast
  have step: "handler_step n s s2" using s1(2) s2(2) by (rule handler_step_trans)
  note v = handler_step_views [OF step]
  have wf2: "wf_state s2" using handler_step_wf(1) [OF step] wf by simp
  have "node_view s (NLocal n) = Some (node_sta_info (ln_node l))" using l by (simp add: node_view_def)
  then have "map_option node_sta_info (get_node s2 (NLocal n)) = Some (node_sta_info (ln_node l))"
    using fun_cong [OF v(1), of "NLocal n"] by (simp add: node_view_def del: get_node.simps)
  then obtain nd where nd: "get_node s2 (NLocal n) = Some nd" "node_sta_info nd = node_sta_info (ln_node l)"
    by (auto simp del: get_node.simps)
  from cleanup_total [OF wf2 nd(1)] obtain s3 where
    s3: "usteer_sta_node_cleanup (NLocal n) s2 = Some s3" "wf_state s3" "frame_eq s2 s3"
      "si_heap s3 = (\<lambda>b. if b \<in> set (node_sta_info nd) then None else si_heap s2 b)" by blast
  have core: "wf_core s2" "wf_core s3" using wf2 s3(2) by (simp_all add: wf_state_def)
  let ?f = "\<lambda>l. l\<lparr>ln_req_timer := None, ln_update_timer := None\<rparr>"
  let ?s4 = "upd_local n ?f s3"
  have step4: "handler_step n s3 ?s4" by (rule handler_step_upd) simp
  have wf4: "wf_state ?s4" using handler_step_wf(1) [OF step4] s3(2) by simp
  have keys3: "map fst (local_nodes s3) = map fst (local_nodes s2)" using s3(3) by (simp add: frame_eq_def)
  have "get_local s2 n \<noteq> None" using nd(1) by auto
  then have "get_local s3 n \<noteq> None"
    unfolding get_local_def map_of_eq_None_iff using keys3 by (metis list.set_map)
  then obtain nd3 where nd3: "get_node s3 (NLocal n) = Some nd3" by auto
  have "b \<notin> set (node_sta_info nd3)" for b
    using wf_core_node(2) [OF core(2) nd3, of b] wf_core_node(2) [OF core(1) nd(1), of b] s3(4)
    by (auto split: if_splits)
  then have "node_sta_info nd3 = []" by (cases "node_sta_info nd3") auto
  then have "node_view s3 (NLocal n) = Some []" using nd3 by (simp add: node_view_def del: get_node.simps)
  then have "node_view ?s4 (NLocal n) = Some []" using handler_step_views(1) [OF step4] by simp
  from wf_remove_local [OF wf4 this]
  have wf5: "wf_state (?s4\<lparr>local_nodes := dict_delete n (local_nodes ?s4)\<rparr>)" .
  let ?s' = "emit (Ubus_unregister n) (?s4\<lparr>local_nodes := dict_delete n (local_nodes ?s4)\<rparr>)"
  have "handler_step n (?s4\<lparr>local_nodes := dict_delete n (local_nodes ?s4)\<rparr>) ?s'" by (rule handler_step_emit)
  from handler_step_wf(1) [OF this] wf5 have "wf_state ?s'" by simp
  moreover have "usteer_free_node hs n s = Some ?s'"
    using s1(1) s2(1) s3(1) by (simp add: usteer_free_node_def Let_def)
  moreover have "map fst (dict_delete n xs) = filter (\<lambda>k. k \<noteq> n) (map fst xs)" for xs :: "(string \<times> usteer_local_node) list"
    by (induction xs) (auto simp: dict_delete_def)
  then have "map fst (local_nodes ?s') = filter (\<lambda>k. k \<noteq> n) (map fst (local_nodes s))"
    using keys3 v(11) handler_step_views(11) [OF step4] by simp
  moreover have "get_local ?s' n = None" by (simp add: get_local_def)
  ultimately show ?thesis
    using s3(3,4) nd(2) v(4,8,9) by (intro exI [of _ ?s']) (simp add: frame_eq_def upd_local_def)
qed

text \<open>Registering a node, for the first time or again.\<close>

lemma register_node_total:
  assumes wf: "wf_state s" and pre: "take 8 name = ''hostapd.''"
  shows "\<exists>s' reg msgs. usteer_register_node hs idx (name, i) s = Some s' \<and> wf_state s' \<and> get_local s' name \<noteq> None \<and>
    node_view s' = (if get_local s name = None then (node_view s)(NLocal name \<mapsto> []) else node_view s) \<and>
    si_heap s' = si_heap s \<and> stations s' = stations s \<and> config s' = config s \<and>
    out s' = out s @ reg @
      [Ubus_invoke i ''notify_response'' [(''notify_response'', Add_u32 1)],
       Ubus_invoke i ''bss_mgmt_enable''
         [(''neighbor_report'', Add_u8 1), (''beacon_report'', Add_u8 1), (''bss_transition'', Add_u8 1)],
       Ubus_subscribe name i] @ msgs \<and>
    reg = (if get_local s name = None then [Ubus_register name] else [])"
proof -
  let ?reg = "if get_local s name = None then [Ubus_register name] else []"
  let ?s1 = "usteer_get_node name s"
  have s1: "wf_state ?s1" "get_local ?s1 name \<noteq> None" "si_heap ?s1 = si_heap s" "stations ?s1 = stations s"
    "config ?s1 = config s" "out ?s1 = out s @ ?reg"
    "node_view ?s1 = (if get_local s name = None then (node_view s)(NLocal name \<mapsto> []) else node_view s)"
  proof -
    let ?l = "calloc_local_node\<lparr>ln_update_timer := Some 1\<rparr>"
    let ?e = "emit (Ubus_register name) s"
    have new: "node_sta_info (ln_node ?l) = []" by (simp add: calloc_local_node_def calloc_node_def)
    have e: "wf_state ?e" using handler_step_wf(1) [OF handler_step_emit] wf by blast
    have g: "get_local ?e = get_local s" by (simp add: get_local_def fun_eq_iff)
    have ln: "local_nodes ?e = local_nodes s" by simp
    note add = wf_add_local [OF e new, of name, unfolded g ln]
    show "wf_state ?s1" "get_local ?s1 name \<noteq> None" "si_heap ?s1 = si_heap s" "stations ?s1 = stations s"
      "config ?s1 = config s" "out ?s1 = out s @ ?reg"
      using wf add by (auto simp: usteer_get_node_def split: option.splits)
    show "node_view ?s1 = (if get_local s name = None then (node_view s)(NLocal name \<mapsto> []) else node_view s)"
    proof (cases "get_local s name")
      case None
      from add(2) [OF None] have gl: "get_local ?s1 = (get_local s)(name \<mapsto> ?l)"
        using None by (simp add: usteer_get_node_def get_local_def fun_eq_iff)
      show ?thesis
      proof
        fix r show "node_view ?s1 r = (if get_local s name = None then (node_view s)(NLocal name \<mapsto> []) else node_view s) r"
          using gl new None by (cases r) (auto simp: node_view_def get_remote_def usteer_get_node_def)
      qed
    qed (simp add: usteer_get_node_def)
  qed
  let ?f = "\<lambda>l. l\<lparr>ln_obj_id := i, ln_iface := drop 8 name, ln_ifindex := idx (drop 8 name)\<rparr>"
  let ?n1 = "Ubus_invoke i ''notify_response'' [(''notify_response'', Add_u32 1)]"
  let ?n2 = "Ubus_invoke i ''bss_mgmt_enable''
    [(''neighbor_report'', Add_u8 1), (''beacon_report'', Add_u8 1), (''bss_transition'', Add_u8 1)]"
  let ?s2 = "emit (Ubus_subscribe name i) (emit ?n2 (emit ?n1 (upd_local name ?f ?s1)))"
  have "handler_step name ?s1 (upd_local name ?f ?s1)" by (rule handler_step_upd) simp
  then have step: "handler_step name ?s1 ?s2" by (blast intro: handler_step_trans handler_step_emit)
  from step s1(2) have "get_local ?s2 name \<noteq> None" by (rule handler_step_alive)
  note alive = this
  from init_handlers [OF this] obtain s3 where
    s3: "call_handlers h_init_node hs name ?s2 = Some s3" "handler_step name ?s2 s3" by blast
  from s3(2) alive have "get_local s3 name \<noteq> None" by (rule handler_step_alive)
  then obtain l where l: "get_local s3 name = Some l" by blast
  let ?s' = "usteer_node_run_update_script l s3"
  have step': "handler_step name s3 ?s'"
    by (auto simp: usteer_node_run_update_script_def intro: handler_step_refl handler_step_emit split: option.splits)
  have all: "handler_step name ?s1 ?s'" using step s3(2) step' by (blast intro: handler_step_trans)
  have tail: "handler_step name ?s2 ?s'" using s3(2) step' by (rule handler_step_trans)
  then obtain msgs where "out ?s' = out ?s2 @ msgs" by (auto simp: handler_step_def)
  moreover have "out ?s2 = out s @ ?reg @ [?n1, ?n2, Ubus_subscribe name i]" using s1(6) by simp
  moreover have "usteer_register_node hs idx (name, i) s = Some ?s'"
    using pre s3(1) l by (simp add: usteer_register_node_def Let_def)
  ultimately show ?thesis
    using handler_step_views [OF all] handler_step_wf(1) [OF all] handler_step_live [OF all] s1
    by (intro exI [of _ ?s'] exI [of _ ?reg] exI [of _ msgs]) simp
qed

text \<open>The periodic update.\<close>

lemma node_update_total:
  assumes wf: "wf_state s" and l: "get_local s n = Some l"
    and cfg: "kick_client_active_sec (config s) \<noteq> 0" "local_sta_update (config s) \<noteq> 0"
  shows "\<exists>s'. usteer_local_node_update hs nrp clk n s = Some s' \<and> wf_state s'"
proof -
  from update_handlers [of s n] l obtain s1 where
    s1: "call_handlers h_update_node hs n s = Some s1" "handler_step n s s1" by auto
  have "get_local s1 n \<noteq> None" using handler_step_live [OF s1(2)] l by simp
  then obtain l1 where "get_local s1 n = Some l1" by blast
  from state_reset_total [OF this] obtain s2 where
    s2: "usteer_local_node_state_reset n s1 = Some s2" "handler_step n s1 s2" by blast
  let ?s3 = "upd_local n (\<lambda>l. l\<lparr>ln_req_timer := Some 1\<rparr>) s2"
  have "handler_step n s2 ?s3" by (rule handler_step_upd) simp
  with s1(2) s2(2) have step: "handler_step n s ?s3" by (blast intro: handler_step_trans)
  have wf3: "wf_state ?s3" using handler_step_wf(1) [OF step] wf by simp
  have "get_local ?s3 n \<noteq> None" by (rule handler_step_alive [OF step]) (simp add: l)
  then obtain l3 where l3: "get_local ?s3 n = Some l3" by blast
  have "kick_client_active_sec (config ?s3) \<noteq> 0" "local_sta_update (config ?s3) \<noteq> 0"
    using cfg handler_step_views(8) [OF step] by simp_all
  from node_kick_total [OF wf3 l3 this, of nrp clk] obtain s4 where
    s4: "usteer_local_node_kick nrp clk n ?s3 = Some s4" "wf_state s4" by blast
  let ?f = "\<lambda>l. l\<lparr>ln_update_timer := Some (local_sta_update (config s4))\<rparr>"
  have "handler_step n s4 (upd_local n ?f s4)" by (rule handler_step_upd) simp
  from handler_step_wf(1) [OF this] s4(2) have "wf_state (upd_local n ?f s4)" by simp
  with s1(1) s2(1) s4(1) show ?thesis by (simp add: usteer_local_node_update_def Let_def)
qed

end

end
