(* ===== verification/Client_List.thy ===== *)
theory Client_List
  imports Local_Node
begin

text \<open>
  The list of clients that hostapd reports for a node: which entries are connected afterwards
  (\<^verbatim>\<open>usteer_local_node_set_assoc\<close> of local_node.c).
\<close>

section \<open>Lemmas\<close>

subsection \<open>Steps that change the connection state of one entry\<close>

definition conn_view :: "usteer_state \<Rightarrow> mac \<Rightarrow> node_ref \<Rightarrow> (2 word) option" where
  "conn_view s m r = map_option si_connected (entry_si s m r)"

definition keeps :: "usteer_state \<Rightarrow> usteer_state \<Rightarrow> bool" where
  "keeps s s' \<longleftrightarrow> config s' = config s \<and> current_time s' = current_time s \<and>
     map fst (local_nodes s') = map fst (local_nodes s)"

lemma keeps_refl [simp]: "keeps s s" by (simp add: keeps_def)

lemma keeps_trans: "keeps s t \<Longrightarrow> keeps t u \<Longrightarrow> keeps s u" by (simp add: keeps_def)

lemma keeps_live: "keeps s s' \<Longrightarrow> get_local s n \<noteq> None \<Longrightarrow> get_local s' n \<noteq> None"
  unfolding keeps_def get_local_def map_of_eq_None_iff by (metis list.set_map)

definition conn_step :: "nat \<Rightarrow> (2 word \<Rightarrow> 2 word) \<Rightarrow> usteer_state \<Rightarrow> usteer_state \<Rightarrow> bool" where
  "conn_step a f s s' \<longleftrightarrow> wf_state s' \<and> keeps s s' \<and> (\<exists>si si'. si_heap s a = Some si \<and>
     si_heap s' = (si_heap s)(a \<mapsto> si') \<and> same_entry a si si' \<and> si_connected si' = f (si_connected si))"

lemma conn_step_refl: "wf_state s \<Longrightarrow> si_heap s a \<noteq> None \<Longrightarrow> conn_step a (\<lambda>c. c) s s"
  unfolding conn_step_def by (auto intro!: exI [of _ "the (si_heap s a)"] simp: fun_upd_idem)

lemma conn_step_trans:
  assumes "conn_step a f s t" "conn_step a g t u"
  shows "conn_step a (g \<circ> f) s u"
  using assms by (fastforce simp: conn_step_def intro: keeps_trans same_entry_trans)

lemma conn_step_alive: "conn_step a f s s' \<Longrightarrow> si_heap s b \<noteq> None \<Longrightarrow> si_heap s' b \<noteq> None"
  by (auto simp: conn_step_def)

lemma conn_step_entry:
  assumes "wf_state s" "conn_step a f s s'"
  shows "entry s' = entry s"
proof (rule entry_cong)
  show "wf_core s" "wf_core s'" using assms by (simp_all add: wf_state_def conn_step_def)
  show "map_option (\<lambda>si. (si_sta si, si_node si)) (si_heap s' b) = map_option (\<lambda>si. (si_sta si, si_node si)) (si_heap s b)" for b
  proof -
    from assms(2) obtain si si' where "si_heap s a = Some si" "si_heap s' = (si_heap s)(a \<mapsto> si')"
      "si_sta si' = si_sta si" "si_node si' = si_node si" by (auto simp: conn_step_def same_entry_def)
    then show ?thesis by simp
  qed
qed

lemma conn_step_view:
  assumes wf: "wf_state s" and st: "conn_step a f s s'" and e: "entry s m r = Some a"
  shows "conn_view s' = (conn_view s)(m := (conn_view s m)(r := map_option f (conn_view s m r)))"
proof -
  have core: "wf_core s" "wf_core s'" using wf st by (simp_all add: wf_state_def conn_step_def)
  have e': "entry s' = (entry s)(m := (entry s m)(r \<mapsto> a))" using conn_step_entry [OF wf st] e by (simp add: fun_upd_idem)
  from st obtain si si' where si: "si_heap s a = Some si" "si_heap s' = (si_heap s)(a \<mapsto> si')"
    "si_connected si' = f (si_connected si)" by (auto simp: conn_step_def)
  have "entry_si s m r = Some si" using e si by (simp add: entry_si_def)
  then show ?thesis using entry_si_upd [OF core e' si(2)] si(3) by (auto simp: conn_view_def fun_eq_iff)
qed

lemma conn_step_upd:
  assumes wf: "wf_state s" and si: "si_heap s a = Some si"
    and g: "same_entry a si (g si)" "si_connected (g si) = f (si_connected si)"
  shows "\<exists>s'. upd_si a g s = Some s' \<and> conn_step a f s s' \<and> local_nodes s' = local_nodes s"
  using si g wf_state_heap_upd [OF wf si g(1)]
  by (auto simp: upd_si_def conn_step_def keeps_def)

lemma conn_step_entry_update:
  assumes "wf_state s'" "entry_update a s s'"
  shows "conn_step a (\<lambda>c. c) s s'"
  using assms by (auto simp: entry_update_def conn_step_def keeps_def)

text \<open>A loop of such steps over different entries.\<close>

lemma conn_loop:
  fixes key :: "'x \<Rightarrow> nat"
  assumes "wf_state s" "Q s" "distinct (map key xs)" "\<forall>x \<in> set xs. si_heap s (key x) \<noteq> None"
    and step: "\<And>x t. x \<in> set xs \<Longrightarrow> wf_state t \<Longrightarrow> keeps s t \<Longrightarrow> Q t \<Longrightarrow> si_heap t (key x) \<noteq> None \<Longrightarrow>
      \<exists>t'. F x t = Some t' \<and> conn_step (key x) f t t' \<and> Q t'"
  shows "\<exists>s'. for_each F xs s = Some s' \<and> wf_state s' \<and> keeps s s' \<and> Q s' \<and> entry s' = entry s \<and>
    (\<forall>m r. conn_view s' m r = (if \<exists>x \<in> set xs. entry s m r = Some (key x) then map_option f (conn_view s m r)
       else conn_view s m r))"
  using assms
proof (induction xs arbitrary: s)
  case Nil
  then show ?case by simp
next
  case (Cons x xs)
  from Cons.prems(5) [of x s] Cons.prems(1,2,4) obtain t where
    t: "F x s = Some t" "conn_step (key x) f s t" "Q t" by auto
  have tw: "wf_state t" "keeps s t" using t(2) by (auto simp: conn_step_def)
  have et: "entry t = entry s" by (rule conn_step_entry [OF Cons.prems(1) t(2)])
  have vt: "conn_view t m r = (if entry s m r = Some (key x) then map_option f (conn_view s m r) else conn_view s m r)" for m r
  proof (cases "entry s m r = Some (key x)")
    case True
    then show ?thesis using conn_step_view [OF Cons.prems(1) t(2) True] by simp
  next
    case False
    from Cons.prems(1) have "wf_core s" by (simp add: wf_state_def)
    from t(2) obtain si' where "si_heap t = (si_heap s)(key x \<mapsto> si')" by (auto simp: conn_step_def)
    with False et show ?thesis
      by (cases "entry s m r") (auto simp: conn_view_def entry_si_def)
  qed
  have "\<exists>s'. for_each F xs t = Some s' \<and> wf_state s' \<and> keeps t s' \<and> Q s' \<and> entry s' = entry t \<and>
    (\<forall>m r. conn_view s' m r = (if \<exists>x \<in> set xs. entry t m r = Some (key x) then map_option f (conn_view t m r)
       else conn_view t m r))"
  proof (rule Cons.IH [OF tw(1) t(3)])
    show "distinct (map key xs)" using Cons.prems(3) by simp
    show "\<forall>x \<in> set xs. si_heap t (key x) \<noteq> None" using Cons.prems(4) conn_step_alive [OF t(2)] by simp
    show "\<exists>t'. F y u = Some t' \<and> conn_step (key y) f u t' \<and> Q t'"
      if "y \<in> set xs" "wf_state u" "keeps t u" "Q u" "si_heap u (key y) \<noteq> None" for y u
      using Cons.prems(5) [of y u] that keeps_trans [OF tw(2)] by simp
  qed
  then obtain s' where s': "for_each F xs t = Some s'" "wf_state s'" "keeps t s'" "Q s'" "entry s' = entry s"
    "\<And>m r. conn_view s' m r = (if \<exists>x \<in> set xs. entry s m r = Some (key x) then map_option f (conn_view t m r)
       else conn_view t m r)" unfolding et by blast
  have "key x \<notin> key ` set xs" using Cons.prems(3) by simp
  then have "conn_view s' m r = (if \<exists>y \<in> set (x # xs). entry s m r = Some (key y) then map_option f (conn_view s m r)
       else conn_view s m r)" for m r
    unfolding s'(6) vt by auto
  with t(1) s'(1-5) keeps_trans [OF tw(2) s'(3)] show ?case by auto
qed

subsection \<open>One client\<close>

definition reports_assoc :: "client_msg \<Rightarrow> bool" where
  "reports_assoc data \<longleftrightarrow> (\<exists>x. cm_assoc data = Some x \<and> x \<noteq> 0)"

lemma band_upd:
  "wf_state s \<Longrightarrow> wf_state (upd_sta m (seen_band f) s)" "keeps s (upd_sta m (seen_band f) s)"
proof -
  have band: "st_nodes (seen_band f st) = st_nodes st" "st_addr (seen_band f st) = st_addr st" for st
    by (simp_all add: seen_band_def)
  show "wf_state s \<Longrightarrow> wf_state (upd_sta m (seen_band f) s)"
    using wf_core_upd_sta(1) [of "seen_band f", OF band] sta_view_upd_sta [of "seen_band f", OF band]
    by (simp add: wf_state_def no_empty_sta_def)
qed (simp add: keeps_def)

lemma assoc_update_step:
  assumes wf: "wf_state s" and si: "si_heap s a = Some si"
  shows "\<exists>s'. usteer_local_node_assoc_update a data s = Some s' \<and>
    conn_step a (\<lambda>c. if reports_assoc data then 1 else c) s s'"
proof -
  have "\<exists>t. (case cm_assoc data of
      Some x \<Rightarrow> if x \<noteq> 0 then upd_si a (\<lambda>si. si\<lparr>si_connected := 1\<rparr>) s else Some s | None \<Rightarrow> Some s) = Some t \<and>
    conn_step a (\<lambda>c. if reports_assoc data then 1 else c) s t"
  proof (cases "reports_assoc data")
    case True
    from conn_step_upd [OF wf si, of "\<lambda>si. si\<lparr>si_connected := 1\<rparr>" "\<lambda>_. 1"] True show ?thesis
      by (auto simp: reports_assoc_def same_entry_def)
  next
    case False
    then show ?thesis using conn_step_refl [OF wf, of a] si by (auto simp: reports_assoc_def split: option.splits)
  qed
  then obtain t where t: "(case cm_assoc data of
      Some x \<Rightarrow> if x \<noteq> 0 then upd_si a (\<lambda>si. si\<lparr>si_connected := 1\<rparr>) s else Some s | None \<Rightarrow> Some s) = Some t"
    "conn_step a (\<lambda>c. if reports_assoc data then 1 else c) s t" by blast
  then obtain si' where si': "si_heap t a = Some si'" "wf_state t" by (auto simp: conn_step_def)
  then have core: "wf_core t" by (simp add: wf_state_def)
  from wf_core_entry [OF core si'(1)] obtain st nd where
    ref: "get_sta t (si_sta si') = Some st" "get_node t (si_node si') = Some nd" by metis
  let ?u = "upd_sta (si_sta si') (seen_band (node_freq nd)) t"
  have "conn_step a (\<lambda>c. c) t ?u"
    using band_upd(1) [OF si'(2)] band_upd(2) si' unfolding conn_step_def
    by (auto simp: fun_upd_idem intro!: exI [of _ si'])
  from conn_step_trans [OF t(2) this] t(1) si' ref show ?thesis
    by (auto simp: usteer_local_node_assoc_update_def comp_def)
qed

lemma active_bytes_step:
  assumes wf: "wf_state s" and si: "si_heap s a = Some si"
  shows "\<exists>s'. usteer_update_client_active_bytes a data s = Some s' \<and> conn_step a (\<lambda>c. c) s s'"
proof -
  have "\<exists>s'. upd_si a (\<lambda>si. si\<lparr>si_active_bytes := ab\<rparr>) s = Some s' \<and> conn_step a (\<lambda>c. c) s s'" for ab
    using conn_step_upd [OF wf si, of "\<lambda>si. si\<lparr>si_active_bytes := ab\<rparr>" "\<lambda>c. c"] by (auto simp: same_entry_def)
  moreover have "conn_step a (\<lambda>c. c) s s" using conn_step_refl [OF wf] si by simp
  ultimately show ?thesis using si
    by (simp add: usteer_update_client_active_bytes_def Let_def split: option.splits prod.splits)
qed

lemma request_check_conn:
  assumes wf: "wf_state s" and si: "si_heap s a = Some si" "si_node si = NLocal n"
  shows "\<exists>s'. usteer_beacon_request_check fl a s = Some s' \<and> conn_step a (\<lambda>c. c) s s'"
proof -
  have core: "wf_core s" using wf by (simp add: wf_state_def)
  from request_check_step [OF core si, of fl] obtain s' si' where
    s': "usteer_beacon_request_check fl a s = Some s'" "entry_step a s s'" "si_heap s' a = Some si'"
      "si_connected si' = si_connected si" by blast
  from s'(2) obtain x msgs where x: "same_entry a si x" "s' = s\<lparr>si_heap := (si_heap s)(a \<mapsto> x), out := out s @ msgs\<rparr>"
    using si(1) by (auto simp: entry_step_def)
  with s' entry_step_wf(1) [OF s'(2) wf] si(1) show ?thesis by (auto simp: conn_step_def keeps_def)
qed

context handler_contract
begin

lemma update_sta_step:
  assumes wf: "wf_state s" and pos: "timeouts_positive s" and live: "get_local s n \<noteq> None" "si_heap s a \<noteq> None"
  shows "\<exists>s'. call_update_sta hs n a s = Some s' \<and> conn_step a (\<lambda>c. c) s s'"
  unfolding call_update_sta_def
proof (rule for_each_total)
  show "conn_step a (\<lambda>c. c) s s" using conn_step_refl [OF wf live(2)] .
  fix h t assume h: "h \<in> set hs" and t: "conn_step a (\<lambda>c. c) s t"
  have tw: "wf_state t" "keeps s t" using t by (auto simp: conn_step_def)
  have post: "timeouts_positive t" using pos tw(2) by (simp add: timeouts_positive_def keeps_def)
  have lt: "get_local t n \<noteq> None" "si_heap t a \<noteq> None"
    using keeps_live [OF tw(2) live(1)] conn_step_alive [OF t live(2)] by auto
  show "\<exists>t'. (case h_update_sta h of None \<Rightarrow> Some t | Some f \<Rightarrow> f n a t) = Some t' \<and> conn_step a (\<lambda>c. c) s t'"
  proof (cases "h_update_sta h")
    case (Some g)
    from update_sta [OF h Some tw(1) post lt] obtain u where u: "g n a t = Some u" "wf_state u" "entry_update a t u" by blast
    from conn_step_trans [OF t conn_step_entry_update [OF u(2,3)]] Some u(1) show ?thesis by (simp add: comp_def)
  qed (use t in simp)
qed

text \<open>
  A record of a client: its entry exists afterwards, is connected if the record says so, and is
  otherwise left as it was (a new one is not connected).
\<close>

lemma client_update_step:
  fixes data :: client_msg
  assumes wf: "wf_state s" and pos: "timeouts_positive s" and live: "get_local s n \<noteq> None"
    and addr: "aton name = Some m"
  defines "c \<equiv> (if reports_assoc data then 1 else case conn_view s m (NLocal n) of None \<Rightarrow> 0 | Some c \<Rightarrow> c)"
  shows "\<exists>s'. client_update aton hs fl n (name, data) (k, s) = Some (if c = 1 then k + 1 else k, s') \<and>
    wf_state s' \<and> keeps s s' \<and> conn_view s' = (conn_view s)(m := (conn_view s m)(NLocal n \<mapsto> c))"
proof -
  let ?r = "NLocal n"
  from live obtain nd where nd: "get_node s ?r = Some nd" by auto
  from obtain_total [OF wf nd, of m] obtain a cr s1 where
    s1: "sta_info_obtain m ?r s = Some (a, cr, s1)" "wf_state s1" "frame_eq s s1" "cr = (entry s m ?r = None)"
      "if cr then si_heap s a = None \<and> si_heap s1 = (si_heap s)(a \<mapsto> new_sta_info s m ?r nd)
       else entry s m ?r = Some a \<and> s1 = s" by blast
  have core: "wf_core s" "wf_core s1" using wf s1(2) by (simp_all add: wf_state_def)
  have "node_live s ?r" using nd by (auto simp: node_live_def node_view_def)
  from sta_entries.acquire_total [OF wf this, of m] s1(1) have e1: "entry s1 = (entry s)(m := (entry s m)(?r \<mapsto> a))" by auto
  have k1: "keeps s s1" using s1(3) by (simp add: keeps_def frame_eq_def)
  let ?c0 = "case conn_view s m ?r of None \<Rightarrow> 0 | Some c \<Rightarrow> c"
  have new: "si_connected (new_sta_info s m ?r nd) = 0" "si_node (new_sta_info s m ?r nd) = ?r"
    by (simp_all add: new_sta_info_def calloc_sta_info_def Let_def)
  have em: "entry s1 m ?r = Some a" using e1 by simp
  then obtain si where si: "si_heap s1 a = Some si" "si_node si = ?r" using entry_iff [OF core(2)] by blast
  have c0: "si_connected si = ?c0"
    using s1(4,5) si new by (auto simp: conn_view_def entry_si_def split: if_splits)
  have h1: "si_heap s1 = (si_heap s)(a \<mapsto> si)"
    using s1(5) si by (auto simp: fun_upd_idem split: if_splits)
  have v1: "conn_view s1 = (conn_view s)(m := (conn_view s m)(?r \<mapsto> ?c0))"
    using entry_si_upd [OF core e1 h1] c0 by (auto simp: conn_view_def fun_eq_iff)
  have pos1: "timeouts_positive s1" using pos k1 by (simp add: timeouts_positive_def keeps_def)
  from update_sta_step [OF s1(2) pos1 keeps_live [OF k1 live], of a] si obtain s2 where
    s2: "call_update_sta hs n a s1 = Some s2" "conn_step a (\<lambda>c. c) s1 s2" by auto
  then obtain si2 where si2: "wf_state s2" "si_heap s2 a = Some si2" by (auto simp: conn_step_def)
  from assoc_update_step [OF si2, of data] obtain s3 where
    s3: "usteer_local_node_assoc_update a data s2 = Some s3" "conn_step a (\<lambda>c. if reports_assoc data then 1 else c) s2 s3" by blast
  have st3: "conn_step a (\<lambda>c. if reports_assoc data then 1 else c) s1 s3"
    using conn_step_trans [OF s2(2) s3(2)] by (simp add: comp_def)
  then obtain si3 where si3: "wf_state s3" "si_heap s3 a = Some si3" "si_connected si3 = c"
    using si c0 by (auto simp: conn_step_def c_def)
  from active_bytes_step [OF si3(1,2), of data] obtain s4 where
    s4: "usteer_update_client_active_bytes a data s3 = Some s4" "conn_step a (\<lambda>c. c) s3 s4" by blast
  have st4: "conn_step a (\<lambda>c. if reports_assoc data then 1 else c) s1 s4"
    using conn_step_trans [OF st3 s4(2)] by (simp add: comp_def)
  then obtain si4 where si4: "wf_state s4" "si_heap s4 a = Some si4" "si_node si4 = ?r"
    using si by (auto simp: conn_step_def same_entry_def)
  from request_check_conn [OF si4, of fl] obtain s5 where
    s5: "usteer_beacon_request_check fl a s4 = Some s5" "conn_step a (\<lambda>c. c) s4 s5" by blast
  have st5: "conn_step a (\<lambda>c. if reports_assoc data then 1 else c) s1 s5"
    using conn_step_trans [OF st4 s5(2)] by (simp add: comp_def)
  have "conn_view s1 m ?r = Some ?c0" using v1 by simp
  then have v5: "conn_view s5 = (conn_view s)(m := (conn_view s m)(?r \<mapsto> c))"
    unfolding conn_step_view [OF s1(2) st5 em] v1 by (auto simp: c_def)
  have run: "client_update aton hs fl n (name, data) (k, s) = Some (if c = 1 then k + 1 else k, s5)"
    using addr s1(1) s2(1) s3(1) si3 s4(1) s5(1) by (simp add: client_update_def Let_def)
  have "wf_state s5" "keeps s1 s5" using st5 by (auto simp: conn_step_def)
  with run v5 keeps_trans [OF k1] show ?thesis by blast
qed

end

subsection \<open>The whole list\<close>

definition listed :: "(string \<Rightarrow> mac option) \<Rightarrow> (string \<times> client_msg) list \<Rightarrow> mac list" where
  "listed aton cl = List.map_filter (\<lambda>(name, _). aton name) cl"

definition associated :: "(string \<Rightarrow> mac option) \<Rightarrow> (string \<times> client_msg) list \<Rightarrow> mac list" where
  "associated aton cl = listed aton (filter (\<lambda>(_, data). reports_assoc data) cl)"

lemma listed_simps [simp]:
  "listed aton [] = []"
  "listed aton ((name, data) # cl) = (case aton name of None \<Rightarrow> listed aton cl | Some m \<Rightarrow> m # listed aton cl)"
  by (auto simp: listed_def map_filter_simps split: option.splits)

lemma associated_simps [simp]:
  "associated aton [] = []"
  "associated aton ((name, data) # cl) = (case aton name of None \<Rightarrow> associated aton cl
     | Some m \<Rightarrow> if reports_assoc data then m # associated aton cl else associated aton cl)"
  by (auto simp: associated_def split: option.splits)

lemma associated_listed: "set (associated aton cl) \<subseteq> set (listed aton cl)"
proof (induction cl)
  case (Cons x cl)
  then show ?case by (cases x; cases "aton (fst x)"; cases "reports_assoc (snd x)") auto
qed simp

lemma client_update_skip: "aton name = None \<Longrightarrow> client_update aton hs fl n (name, data) (k, s) = Some (k, s)"
  by (simp add: client_update_def)

context handler_contract
begin

lemma client_loop:
  assumes "wf_state s" "timeouts_positive s" "get_local s n \<noteq> None" "distinct (listed aton cl)"
    and "\<forall>m \<in> set (listed aton cl). conn_view s m (NLocal n) \<noteq> Some 1"
  shows "\<exists>s'. for_each (client_update aton hs fl n) cl (k, s) = Some (k + of_nat (length (associated aton cl)), s') \<and>
    wf_state s' \<and> keeps s s' \<and>
    (\<forall>m r. conn_view s' m r = (if r = NLocal n \<and> m \<in> set (associated aton cl) then Some 1
       else if r = NLocal n \<and> m \<in> set (listed aton cl) \<and> conn_view s m r = None then Some 0 else conn_view s m r))"
  using assms
proof (induction cl arbitrary: s k)
  case Nil
  then show ?case by simp
next
  case (Cons x cl)
  obtain name data where x: "x = (name, data)" by (cases x)
  show ?case
  proof (cases "aton name")
    case None
    then have eqs: "listed aton (x # cl) = listed aton cl" "associated aton (x # cl) = associated aton cl"
      "for_each (client_update aton hs fl n) (x # cl) (k, s) = for_each (client_update aton hs fl n) cl (k, s)"
      by (simp_all add: x client_update_skip)
    from Cons.prems(4,5) show ?thesis unfolding eqs by (rule Cons.IH [OF Cons.prems(1-3)])
  next
    case (Some m)
    let ?r = "NLocal n"
    let ?c = "if reports_assoc data then 1 else case conn_view s m ?r of None \<Rightarrow> 0 | Some c \<Rightarrow> c"
    have not1: "conn_view s m ?r \<noteq> Some 1" using Cons.prems(5) x Some by simp
    then have c1: "?c = 1 \<longleftrightarrow> reports_assoc data" by (auto split: option.splits)
    let ?k = "if reports_assoc data then k + 1 else k"
    from client_update_step [where aton = aton and data = data and fl = fl and k = k, OF Cons.prems(1-3) Some] obtain t where
      t: "client_update aton hs fl n x (k, s) = Some (?k, t)" "wf_state t" "keeps s t"
        "conn_view t = (conn_view s)(m := (conn_view s m)(?r \<mapsto> ?c))" unfolding c1 x by blast
    have notin: "m \<notin> set (listed aton cl)" and d: "distinct (listed aton cl)" using Cons.prems(4) x Some by auto
    have post: "timeouts_positive t" using Cons.prems(2) t(3) by (simp add: timeouts_positive_def keeps_def)
    have "\<forall>m' \<in> set (listed aton cl). conn_view t m' ?r \<noteq> Some 1" using Cons.prems(5) x Some notin t(4) by auto
    from Cons.IH [OF t(2) post keeps_live [OF t(3) Cons.prems(3)] d this, of ?k] obtain s' where
      s': "for_each (client_update aton hs fl n) cl (?k, t) = Some (?k + of_nat (length (associated aton cl)), s')"
        "wf_state s'" "keeps t s'"
        "\<And>m r. conn_view s' m r = (if r = ?r \<and> m \<in> set (associated aton cl) then Some 1
           else if r = ?r \<and> m \<in> set (listed aton cl) \<and> conn_view t m r = None then Some 0 else conn_view t m r)" by blast
    have na: "m \<notin> set (associated aton cl)" using notin associated_listed by blast
    have "conn_view s' m' r = (if r = ?r \<and> m' \<in> set (associated aton (x # cl)) then Some 1
       else if r = ?r \<and> m' \<in> set (listed aton (x # cl)) \<and> conn_view s m' r = None then Some 0 else conn_view s m' r)" for m' r
      unfolding s'(4) t(4) using notin na not1 Some x by (auto split: option.splits)
    moreover have "?k + of_nat (length (associated aton cl)) = k + of_nat (length (associated aton (x # cl)))"
      using Some x by simp
    moreover have "for_each (client_update aton hs fl n) (x # cl) (k, s) =
        Some (?k + of_nat (length (associated aton cl)), s')" using t(1) s'(1) by simp
    ultimately show ?thesis using s'(2) keeps_trans [OF t(3) s'(3)] by auto
  qed
qed

end

lemma mark_step:
  assumes wf: "wf_state s" and si: "si_heap s a \<noteq> None"
  shows "\<exists>s'. mark_connected a s = Some s' \<and> conn_step a (\<lambda>c. if c \<noteq> 0 then 2 else c) s s'"
proof -
  from si obtain x where x: "si_heap s a = Some x" by blast
  show ?thesis
  proof (cases "si_connected x = 0")
    case True
    then show ?thesis using conn_step_refl [OF wf si] x by (auto simp: mark_connected_def conn_step_def)
  next
    case False
    with conn_step_upd [OF wf x, of "\<lambda>si. si\<lparr>si_connected := 2\<rparr>" "\<lambda>c. if c \<noteq> 0 then 2 else c"] x show ?thesis
      by (auto simp: mark_connected_def same_entry_def)
  qed
qed

lemma sweep_step:
  assumes ins: "avl_dups_tree ins" and wf: "wf_state s" and pos: "timeouts_positive s" and si: "si_heap s a \<noteq> None"
  shows "\<exists>s'. sweep_disconnected ins now a s = Some s' \<and> conn_step a (\<lambda>c. if c = 2 then 0 else c) s s' \<and>
    local_nodes s' = local_nodes s"
proof -
  from si obtain x where x: "si_heap s a = Some x" by blast
  show ?thesis
  proof (cases "si_connected x = 2")
    case False
    then show ?thesis using conn_step_refl [OF wf si] x by (auto simp: sweep_disconnected_def conn_step_def)
  next
    case True
    let ?f = "\<lambda>si. si\<lparr>si_connected := 0\<rparr>"
    from conn_step_upd [OF wf x, of ?f "\<lambda>c. if c = 2 then 0 else c"] True obtain t where
      t: "upd_si a ?f s = Some t" "conn_step a (\<lambda>c. if c = 2 then 0 else c) s t" "local_nodes t = local_nodes s"
      by (auto simp: same_entry_def)
    have xt: "si_heap t a = Some (?f x)" using t(1) x by (auto simp: upd_si_Some)
    have tw: "wf_state t" "keeps s t" using t(2) by (auto simp: conn_step_def)
    have cfg: "config t = config s" using tw(2) by (simp add: keeps_def)
    have post: "0 < sint (local_sta_timeout (config t))" using pos cfg by (simp add: timeouts_positive_def)
    from avl_dups_tree.update_timeout_total [OF ins tw(1) xt, of now "local_sta_timeout (config t)"] post obtain s' where
      s': "usteer_sta_info_update_timeout ins now a (local_sta_timeout (config t)) t = Some s'" "wf_state s'"
        "si_heap s' = si_heap t" by (auto split: if_splits)
    have "\<exists>q. s' = t\<lparr>tq := q\<rparr>"
      using s'(1) xt post by (auto simp: usteer_sta_info_update_timeout_def split: if_splits)
    then have fr: "keeps t s'" "local_nodes s' = local_nodes t" by (auto simp: keeps_def)
    have "conn_step a (\<lambda>c. c) t s'" unfolding conn_step_def
      using s'(2,3) fr(1) xt by (auto simp: fun_upd_idem intro!: exI [of _ "?f x"])
    from conn_step_trans [OF t(2) this] have "conn_step a (\<lambda>c. if c = 2 then 0 else c) s s'" by (simp add: comp_def)
    moreover have "sweep_disconnected ins now a s = Some s'"
      using x True t(1) s'(1,3) xt by (simp add: sweep_disconnected_def)
    ultimately show ?thesis using fr(2) t(3) by auto
  qed
qed

lemma conn_node_upd:
  assumes "\<And>nd. node_sta_info (f nd) = node_sta_info nd"
  shows "wf_state (upd_node r f s) = wf_state s" "conn_view (upd_node r f s) = conn_view s"
    "keeps s (upd_node r f s)" "entry (upd_node r f s) = entry s"
proof -
  have nv: "node_view (upd_node r f s) = node_view s"
    using assms by (auto simp: node_view_def fun_eq_iff option.map_comp comp_def)
  have keys: "keys_ok (upd_node r f s) = keys_ok s"
  proof -
    have "map fst (local_nodes (upd_node r f s)) = map fst (local_nodes s)"
      "map fst (remote_nodes (upd_node r f s)) = map fst (remote_nodes s)" by simp_all
    then show ?thesis unfolding keys_ok_def dict_ok_def by simp
  qed
  show "wf_state (upd_node r f s) = wf_state s"
    by (rule wf_cong) (use nv keys in \<open>simp_all add: sta_view_def\<close>)
  have "stations (upd_node r f s) = stations s" by (cases r) simp_all
  then have "entry_si (upd_node r f s) = entry_si s" by (intro entry_si_cong) simp_all
  then show "conn_view (upd_node r f s) = conn_view s" by (simp add: conn_view_def fun_eq_iff)
  show "keeps s (upd_node r f s)" by (simp add: keeps_def)
  show "entry (upd_node r f s) = entry s"
    by (intro ext) (simp add: entry_def cong: option.case_cong)
qed

text \<open>The entries of a node are those the lookup finds at it.\<close>

lemma node_entries:
  assumes wf: "wf_state s" and nd: "get_node s r = Some nd"
  shows "(\<exists>a \<in> set (node_sta_info nd). entry s m r' = Some a) \<longleftrightarrow> r' = r \<and> entry s m r' \<noteq> None"
proof -
  have core: "wf_core s" using wf by (simp add: wf_state_def)
  show ?thesis using wf_core_node(2) [OF core nd] entry_iff [OF core] by fastforce
qed

lemma conn_view_None: "wf_state s \<Longrightarrow> conn_view s m r = None \<longleftrightarrow> entry s m r = None"
  using entry_iff [of s m r] by (cases "entry s m r") (auto simp: conn_view_def entry_si_def wf_state_def)

text \<open>The first loop marks the connected clients of the node, the last one disconnects those still marked.\<close>

abbreviation mark_conn :: "2 word \<Rightarrow> 2 word" where
  "mark_conn c \<equiv> (if c \<noteq> 0 then 2 else c)"

abbreviation sweep_conn :: "2 word \<Rightarrow> 2 word" where
  "sweep_conn c \<equiv> (if c = 2 then 0 else c)"

lemma mark_all:
  assumes wf: "wf_state s" and nd: "get_node s r = Some nd"
  shows "\<exists>s'. for_each mark_connected (node_sta_info nd) s = Some s' \<and> wf_state s' \<and> keeps s s' \<and>
    (\<forall>m q. conn_view s' m q = (if q = r then map_option mark_conn (conn_view s m q) else conn_view s m q))"
proof -
  have core: "wf_core s" using wf by (simp add: wf_state_def)
  have d: "distinct (map (\<lambda>a. a) (node_sta_info nd))" using wf_core_node(1) [OF core nd] by simp
  have al: "\<forall>a \<in> set (node_sta_info nd). si_heap s a \<noteq> None" using wf_core_node(2) [OF core nd] by auto
  from conn_loop [OF wf TrueI d al, of mark_connected mark_conn] mark_step obtain s' where
    s': "for_each mark_connected (node_sta_info nd) s = Some s'" "wf_state s'" "keeps s s'"
      "\<And>m q. conn_view s' m q = (if \<exists>a \<in> set (node_sta_info nd). entry s m q = Some a
         then map_option mark_conn (conn_view s m q) else conn_view s m q)" by auto
  have "conn_view s' m q = (if q = r then map_option mark_conn (conn_view s m q) else conn_view s m q)" for m q
    unfolding s'(4) node_entries [OF wf nd] using conn_view_None [OF wf, of m q] by auto
  with s'(1-3) show ?thesis by blast
qed

lemma enumerate_entries: "(\<exists>x \<in> set (enumerate 0 as). e = Some (snd x)) \<longleftrightarrow> (\<exists>a \<in> set as. e = Some a)"
proof -
  have "snd ` set (enumerate 0 as) = set as" by (metis list.set_map map_snd_enumerate)
  then show ?thesis by blast
qed

lemma sweep_all:
  assumes ins: "avl_dups_tree ins" and wf: "wf_state s" and pos: "timeouts_positive s" and nd: "get_node s (NLocal n) = Some nd"
  shows "\<exists>s'. for_each (\<lambda>(j, a). sweep_disconnected ins (now j) a) (enumerate 0 (node_sta_info nd)) s = Some s' \<and> wf_state s' \<and>
    map_option node_n_assoc (get_node s' (NLocal n)) = Some (node_n_assoc nd) \<and>
    (\<forall>m q. conn_view s' m q = (if q = NLocal n then map_option sweep_conn (conn_view s m q) else conn_view s m q))"
proof -
  have core: "wf_core s" using wf by (simp add: wf_state_def)
  let ?xs = "enumerate 0 (node_sta_info nd)"
  let ?Q = "\<lambda>t. map_option node_n_assoc (get_node t (NLocal n)) = Some (node_n_assoc nd)"
  have d: "distinct (map snd ?xs)" using wf_core_node(1) [OF core nd] by simp
  have al: "\<forall>x \<in> set ?xs. si_heap s (snd x) \<noteq> None"
    using wf_core_node(2) [OF core nd] by (auto simp: in_set_enumerate_eq) (metis nth_mem option.distinct(1))
  have "\<exists>s'. for_each (\<lambda>(j, a). sweep_disconnected ins (now j) a) ?xs s = Some s' \<and>
    wf_state s' \<and> keeps s s' \<and> ?Q s' \<and> entry s' = entry s \<and>
    (\<forall>m q. conn_view s' m q = (if \<exists>x \<in> set ?xs. entry s m q = Some (snd x)
       then map_option sweep_conn (conn_view s m q) else conn_view s m q))"
  proof (rule conn_loop [OF wf _ d al])
    show "?Q s" unfolding nd by simp
    show "\<exists>t'. (case x of (j, a) \<Rightarrow> sweep_disconnected ins (now j) a) t = Some t' \<and> conn_step (snd x) sweep_conn t t' \<and> ?Q t'"
      if "wf_state t" "keeps s t" "?Q t" "si_heap t (snd x) \<noteq> None" for x t
    proof -
      have "timeouts_positive t" using pos that(2) by (simp add: timeouts_positive_def keeps_def)
      from sweep_step [OF ins that(1) this that(4), of "now (fst x)"] that(3) show ?thesis
        by (auto simp: case_prod_unfold get_local_def)
    qed
  qed
  then obtain s' where s': "for_each (\<lambda>(j, a). sweep_disconnected ins (now j) a) ?xs s = Some s'" "wf_state s'" "?Q s'"
    "\<And>m q. conn_view s' m q = (if \<exists>a \<in> set (node_sta_info nd). entry s m q = Some a
       then map_option sweep_conn (conn_view s m q) else conn_view s m q)" unfolding enumerate_entries by blast
  have "conn_view s' m q = (if q = NLocal n then map_option sweep_conn (conn_view s m q) else conn_view s m q)" for m q
    unfolding s'(4) node_entries [OF wf nd] using conn_view_None [OF wf, of m q] by auto
  with s'(1-3) show ?thesis by blast
qed

context handler_contract
begin

lemma set_assoc_total:
  assumes ins: "avl_dups_tree ins" and wf: "wf_state s" and pos: "timeouts_positive s"
    and live: "get_local s n \<noteq> None" and dist: "distinct (listed aton cl)"
  shows "\<exists>s'. usteer_local_node_set_assoc aton hs fl ins now n cl s = Some s' \<and> wf_state s' \<and>
    (\<forall>m. conn_view s' m (NLocal n) = (if m \<in> set (associated aton cl) then Some 1
       else if m \<in> set (listed aton cl) \<or> entry s m (NLocal n) \<noteq> None then Some 0 else None)) \<and>
    (\<forall>m r. r \<noteq> NLocal n \<longrightarrow> conn_view s' m r = conn_view s m r) \<and>
    map_option node_n_assoc (get_node s' (NLocal n)) = Some (of_nat (length (associated aton cl)))"
proof -
  let ?r = "NLocal n" and ?k = "of_nat (length (associated aton cl))"
  from live obtain nd where nd: "get_node s ?r = Some nd" by auto
  from mark_all [OF wf nd] obtain s1 where s1: "for_each mark_connected (node_sta_info nd) s = Some s1" "wf_state s1" "keeps s s1"
    "\<And>m r. conn_view s1 m r = (if r = ?r then map_option mark_conn (conn_view s m r) else conn_view s m r)" by blast
  have not1: "\<forall>m \<in> set (listed aton cl). conn_view s1 m ?r \<noteq> Some 1" by (auto simp: s1(4) split: if_splits)
  have pos1: "timeouts_positive s1" using pos s1(3) by (simp add: timeouts_positive_def keeps_def)
  from client_loop [OF s1(2) pos1 keeps_live [OF s1(3) live] dist not1, of fl 0] obtain s2 where
    s2: "for_each (client_update aton hs fl n) cl (0, s1) = Some (?k, s2)" "wf_state s2" "keeps s1 s2"
      "\<And>m r. conn_view s2 m r = (if r = ?r \<and> m \<in> set (associated aton cl) then Some 1
         else if r = ?r \<and> m \<in> set (listed aton cl) \<and> conn_view s1 m r = None then Some 0 else conn_view s1 m r)" by auto
  let ?f = "\<lambda>nd. nd\<lparr>node_n_assoc := ?k\<rparr>"
  let ?s3 = "upd_node ?r ?f s2"
  have upd: "wf_state ?s3" "conn_view ?s3 = conn_view s2" "keeps s2 ?s3"
    using conn_node_upd [where f = ?f and r = ?r and s = s2] s2(2) by simp_all
  have "keeps s ?s3" using s1(3) s2(3) upd(3) by (blast intro: keeps_trans)
  then have pos3: "timeouts_positive ?s3" using pos by (simp add: timeouts_positive_def keeps_def)
  from keeps_live [OF keeps_trans [OF s1(3) s2(3)] live] obtain nd2 where nd2: "get_node s2 ?r = Some nd2" by auto
  have nd3: "get_node ?s3 ?r = Some (?f nd2)" using nd2 by (simp del: get_node.simps upd_node.simps)
  from sweep_all [OF ins upd(1) pos3 nd3, of now] obtain s' where
    s': "for_each (\<lambda>(j, a). sweep_disconnected ins (now j) a) (enumerate 0 (node_sta_info nd2)) ?s3 = Some s'" "wf_state s'"
      "map_option node_n_assoc (get_node s' ?r) = Some ?k"
      "\<And>m r. conn_view s' m r = (if r = ?r then map_option sweep_conn (conn_view s2 m r) else conn_view s2 m r)"
    unfolding upd(2) by auto
  have "conn_view s' m ?r = (if m \<in> set (associated aton cl) then Some 1
       else if m \<in> set (listed aton cl) \<or> entry s m ?r \<noteq> None then Some 0 else None)" for m
    unfolding s'(4) s2(4) s1(4) using conn_view_None [OF wf, of m ?r] by (cases "conn_view s m ?r") auto
  moreover have "conn_view s' m r = conn_view s m r" if "r \<noteq> ?r" for m r using that by (simp add: s'(4) s2(4) s1(4))
  moreover have "usteer_local_node_set_assoc aton hs fl ins now n cl s = Some s'"
    using nd s1(1) s2(1) nd2 s'(1) by (simp add: usteer_local_node_set_assoc_def Let_def del: get_node.simps upd_node.simps)
  ultimately show ?thesis using s'(2,3) by blast
qed

end

end
