(* ===== verification/Netifd.thy ===== *)
theory Netifd
  imports Local_Node
begin

text \<open>
  netifd.c: the maximum number of clients of a node, asked once from the network daemon. The status
  message is given by the attributes that the policies of the callbacks select;
  \<open>lookup_id\<close> is the ubus lookup of an object.
\<close>

section \<open>Model\<close>

record netifd_interface =
  nif_is_table :: bool
  nif_config :: "u32 option option"
  nif_ifname :: "string option"

record netifd_radio =
  nrd_is_table :: bool
  nrd_interfaces :: "netifd_interface list option"

text \<open>The argument is the attribute \<^verbatim>\<open>maxassoc\<close>.\<close>

definition netifd_parse_interface_config :: "u32 option \<Rightarrow> usteer_local_node \<Rightarrow> usteer_local_node" where
  "netifd_parse_interface_config cur l =
     (let val = (case cur of None \<Rightarrow> 0 | Some x \<Rightarrow> x)
      in l\<lparr>ln_node := (ln_node l)\<lparr>node_max_assoc := val\<rparr>, ln_netifd_status_complete := True\<rparr>)"

definition netifd_parse_interface :: "netifd_interface \<Rightarrow> usteer_local_node \<Rightarrow> usteer_local_node" where
  "netifd_parse_interface msg l =
     (if \<not> nif_is_table msg then l
      else
        (case (nif_config msg, nif_ifname msg) of
           (Some cfg, Some name) \<Rightarrow> if name \<noteq> ln_iface l then l else netifd_parse_interface_config cfg l
         | _ \<Rightarrow> l))"

definition netifd_parse_radio :: "netifd_radio \<Rightarrow> usteer_local_node \<Rightarrow> usteer_local_node" where
  "netifd_parse_radio msg l =
     (if \<not> nrd_is_table msg then l
      else (case nrd_interfaces msg of None \<Rightarrow> l | Some ifs \<Rightarrow> fold netifd_parse_interface ifs l))"

definition netifd_status_cb :: "string \<Rightarrow> netifd_radio list \<Rightarrow> usteer_state \<Rightarrow> usteer_state" where
  "netifd_status_cb n radios s =
     upd_local n (\<lambda>l. fold netifd_parse_radio radios (l\<lparr>ln_netifd_req_pending := False\<rparr>)) s"

definition netifd_update_node :: "(string \<Rightarrow> u32 option) \<Rightarrow> string \<Rightarrow> usteer_state \<Rightarrow> usteer_state option" where
  "netifd_update_node lookup_id n s = do {
     l \<leftarrow> get_local s n;
     (if ln_netifd_status_complete l then Some s
      else
        (let s = (if ln_netifd_req_pending l then emit (Ubus_abort (Netifd_req n)) s else s)
         in case lookup_id ''network.wireless'' of
              None \<Rightarrow> Some s
            | Some i \<Rightarrow>
                Some (upd_local n (\<lambda>l. l\<lparr>ln_netifd_req_pending := True\<rparr>) (emit (Ubus_invoke_async i ''status'' []) s))))
   }"

definition netifd_init_node :: "(string \<Rightarrow> u32 option) \<Rightarrow> string \<Rightarrow> usteer_state \<Rightarrow> usteer_state option" where
  "netifd_init_node lookup_id n s =
     netifd_update_node lookup_id n (upd_local n (\<lambda>l. l\<lparr>ln_netifd_status_complete := False\<rparr>) s)"

definition netifd_free_node :: "string \<Rightarrow> usteer_state \<Rightarrow> usteer_state option" where
  "netifd_free_node n s = do {
     l \<leftarrow> get_local s n;
     Some (if ln_netifd_req_pending l then emit (Ubus_abort (Netifd_req n)) s else s)
   }"

definition netifd_handler :: "(string \<Rightarrow> u32 option) \<Rightarrow> usteer_node_handler" where
  "netifd_handler lookup_id =
     \<lparr>h_init_node = Some (netifd_init_node lookup_id), h_free_node = Some netifd_free_node,
      h_update_node = Some (netifd_update_node lookup_id), h_update_sta = None\<rparr>"

section \<open>Lemmas\<close>

lemma netifd_update_step:
  assumes "get_local s n \<noteq> None"
  shows "\<exists>s'. netifd_update_node lookup_id n s = Some s' \<and> handler_step n s s'"
proof -
  from assms obtain l where l: "get_local s n = Some l" by blast
  let ?s = "if ln_netifd_req_pending l then emit (Ubus_abort (Netifd_req n)) s else s"
  have a: "handler_step n s ?s" by (simp add: handler_step_refl handler_step_emit)
  have "handler_step n ?s (upd_local n (\<lambda>l. l\<lparr>ln_netifd_req_pending := True\<rparr>) (emit x ?s))" for x
    by (rule handler_step_trans [OF handler_step_emit]) (rule handler_step_upd, simp)
  with a have "handler_step n s (upd_local n (\<lambda>l. l\<lparr>ln_netifd_req_pending := True\<rparr>) (emit x ?s))" for x
    by (blast intro: handler_step_trans)
  with a l handler_step_refl show ?thesis
    by (auto simp: netifd_update_node_def Let_def split: option.splits)
qed

lemma netifd_init_step:
  assumes "get_local s n \<noteq> None"
  shows "\<exists>s'. netifd_init_node lookup_id n s = Some s' \<and> handler_step n s s'"
proof -
  let ?t = "upd_local n (\<lambda>l. l\<lparr>ln_netifd_status_complete := False\<rparr>) s"
  have t: "handler_step n s ?t" by (rule handler_step_upd) simp
  from netifd_update_step [OF handler_step_alive [OF t assms], of lookup_id] handler_step_trans [OF t] show ?thesis
    unfolding netifd_init_node_def by blast
qed

lemma netifd_free_step:
  "get_local s n \<noteq> None \<Longrightarrow> \<exists>s'. netifd_free_node n s = Some s' \<and> handler_step n s s'"
  by (auto simp: netifd_free_node_def handler_step_refl handler_step_emit)

text \<open>The interfaces of a status message that concern a node.\<close>

definition radio_interfaces :: "netifd_radio \<Rightarrow> netifd_interface list" where
  "radio_interfaces msg = (if nrd_is_table msg then (case nrd_interfaces msg of None \<Rightarrow> [] | Some ifs \<Rightarrow> ifs) else [])"

definition interface_limits :: "string \<Rightarrow> netifd_interface list \<Rightarrow> u32 option list" where
  "interface_limits iface ifs =
     List.map_filter (\<lambda>m. if nif_is_table m \<and> nif_ifname m = Some iface then nif_config m else None) ifs"

lemma interface_limits_simps [simp]:
  "interface_limits iface [] = []"
  "interface_limits iface (m # ifs) =
     (case (if nif_is_table m \<and> nif_ifname m = Some iface then nif_config m else None) of
        None \<Rightarrow> interface_limits iface ifs | Some c \<Rightarrow> c # interface_limits iface ifs)"
  by (auto simp: interface_limits_def map_filter_simps split: option.splits)

lemma parse_radio_eq: "netifd_parse_radio msg l = fold netifd_parse_interface (radio_interfaces msg) l"
  by (auto simp: netifd_parse_radio_def radio_interfaces_def split: option.splits)

lemma parse_interfaces_eq:
  "fold netifd_parse_interface ifs l =
     (if interface_limits (ln_iface l) ifs = [] then l
      else netifd_parse_interface_config (last (interface_limits (ln_iface l) ifs)) l)"
proof (induction ifs arbitrary: l)
  case (Cons m ifs)
  have again: "netifd_parse_interface_config c (netifd_parse_interface_config d x) = netifd_parse_interface_config c x"
    and same: "ln_iface (netifd_parse_interface_config c x) = ln_iface x" for c d x
    by (simp_all add: netifd_parse_interface_config_def Let_def)
  let ?c = "if nif_is_table m \<and> nif_ifname m = Some (ln_iface l) then nif_config m else None"
  have one: "netifd_parse_interface m l = (case ?c of None \<Rightarrow> l | Some c \<Rightarrow> netifd_parse_interface_config c l)"
    by (auto simp: netifd_parse_interface_def split: option.splits)
  show ?case by (cases ?c) (auto simp: one Cons.IH again same)
qed simp

lemma parse_radios_eq:
  "fold netifd_parse_radio radios l = fold netifd_parse_interface (concat (map radio_interfaces radios)) l"
  by (induction radios arbitrary: l) (simp_all add: parse_radio_eq)

section \<open>Properties\<close>

text \<open>
  C32. The status of the network daemon. The reply ends the pending request; the limit of clients
  becomes the \<^verbatim>\<open>maxassoc\<close> (zero when it is absent) of the last interface with the node's name among
  all radios, and the query counts as complete; when no interface has the name, nothing else
  changes and the query is repeated.
\<close>

theorem netifd_status_sets_limit:
  assumes "get_local s n = Some l"
  shows "get_local (netifd_status_cb n radios s) n = Some
    (let l' = l\<lparr>ln_netifd_req_pending := False\<rparr>;
         limits = interface_limits (ln_iface l) (concat (map radio_interfaces radios))
     in if limits = [] then l'
        else l'\<lparr>ln_node := (ln_node l)\<lparr>node_max_assoc := (case last limits of None \<Rightarrow> 0 | Some x \<Rightarrow> x)\<rparr>,
                ln_netifd_status_complete := True\<rparr>)"
  using assms by (simp add: netifd_status_cb_def parse_radios_eq parse_interfaces_eq netifd_parse_interface_config_def Let_def)

theorem netifd_status_sets_limit_witness:
  "map_option (node_max_assoc \<circ> ln_node) (get_local (netifd_status_cb ''a''
     [\<lparr>nrd_is_table = True, nrd_interfaces = Some
        [\<lparr>nif_is_table = True, nif_config = Some (Some 20), nif_ifname = Some ''wlan''\<rparr>,
         \<lparr>nif_is_table = True, nif_config = Some (Some 99), nif_ifname = Some ''wlan9''\<rparr>]\<rparr>] network) ''a'') = Some 20"
  using netifd_status_sets_limit [OF network_nodes(3)]
  by (simp add: ap_local_def radio_interfaces_def Let_def)

end
