(* ===== verification/Nl80211.thy ===== *)
theory Nl80211
  imports Local_Node
begin

text \<open>
  nl80211.c: what the daemon asks from the kernel. A reply of the kernel is given by the attributes
  the code looks at; the requests themselves (libnl-tiny and unl) are arguments that give the reply
  to a request. \<open>fl\<close> and \<open>dbl\<close> are the roundings to \<^verbatim>\<open>float\<close> and \<^verbatim>\<open>double\<close>, \<open>f2i\<close> the conversion of a \<^verbatim>\<open>float\<close>
  to \<^verbatim>\<open>int\<close>, which C leaves undefined outside of the range of \<^verbatim>\<open>int\<close>.
\<close>

section \<open>Model\<close>

subsection \<open>Channel survey\<close>

record usteer_survey_data =
  sd_freq :: u16
  sd_noise :: u8
  sd_time :: u64
  sd_time_busy :: u64

record survey_info =
  svi_frequency :: "u32 option"
  svi_noise :: "u8 option"
  svi_time :: "u64 option"
  svi_time_busy :: "u64 option"

text \<open>The argument is the parsed nested attribute; the result is what the callback is called with.\<close>

definition nl80211_survey_result :: "survey_info option \<Rightarrow> usteer_survey_data option" where
  "nl80211_survey_result info = do {
     tb \<leftarrow> info;
     freq \<leftarrow> svi_frequency tb;
     let (time, busy) = (case (svi_time tb, svi_time_busy tb) of (Some t, Some b) \<Rightarrow> (t, b) | _ \<Rightarrow> (0, 0));
     Some \<lparr>sd_freq = ucast freq, sd_noise = (case svi_noise tb of None \<Rightarrow> 0 | Some x \<Rightarrow> x),
           sd_time = time, sd_time_busy = busy\<rparr>
   }"

text \<open>
  The share of busy time since the last survey in percent, computed in 32 bits, smoothed.
\<close>

definition busy_percent :: "usteer_survey_data \<Rightarrow> usteer_local_node \<Rightarrow> u32 option" where
  "busy_percent d l =
     (let delta = (if ln_time l \<noteq> 0 then ucast (sd_time d - ln_time l) else 0) :: u32;
          delta_busy = (if ln_time l \<noteq> 0 then ucast (sd_time_busy d - ln_time_busy l) else 0) :: u32
      in if delta \<noteq> 0 then Some ((100 * delta_busy) div delta) else None)"

definition smoothed :: "(rat \<Rightarrow> rat) \<Rightarrow> (rat \<Rightarrow> rat) \<Rightarrow> rat \<Rightarrow> rat \<Rightarrow> rat" where
  "smoothed fl dbl old cur = fl (dbl (dbl (dbl (85 / 100) * old) + dbl (dbl (15 / 100) * cur)))"

definition nl80211_update_node_result ::
    "(rat \<Rightarrow> rat) \<Rightarrow> (rat \<Rightarrow> rat) \<Rightarrow> (rat \<Rightarrow> s32) \<Rightarrow> usteer_survey_data \<Rightarrow> usteer_local_node \<Rightarrow> usteer_local_node" where
  "nl80211_update_node_result fl dbl f2i d l =
     (if (ucast (sd_freq d) :: s32) \<noteq> node_freq (ln_node l) then l
      else
        (let percent = busy_percent d l;
             l = (if sd_noise d \<noteq> 0 then l\<lparr>ln_node := (ln_node l)\<lparr>node_noise := scast (sd_noise d)\<rparr>\<rparr> else l);
             l = l\<lparr>ln_time := sd_time d, ln_time_busy := sd_time_busy d\<rparr>
         in case percent of
              None \<Rightarrow> l
            | Some p \<Rightarrow>
                (let cur = fl (of_nat (unat p));
                     ewma = (if ln_load_ewma l < 0 then cur else smoothed fl dbl (ln_load_ewma l) cur)
                 in l\<lparr>ln_load_ewma := ewma, ln_node := (ln_node l)\<lparr>node_load := f2i ewma\<rparr>\<rparr>)))"

text \<open>\<open>survey\<close> gives the replies to the survey request of an interface.\<close>

definition nl80211_get_survey ::
    "(s32 \<Rightarrow> survey_info option list) \<Rightarrow> (usteer_survey_data \<Rightarrow> usteer_local_node \<Rightarrow> usteer_local_node) \<Rightarrow>
     usteer_local_node \<Rightarrow> usteer_local_node" where
  "nl80211_get_survey survey cb l =
     (if \<not> ln_nl80211_present l then l
      else fold cb (List.map_filter nl80211_survey_result (survey (ln_ifindex l))) l)"

record kernel =
  nl_init :: bool
  nl_survey :: "s32 \<Rightarrow> survey_info option list"
  nl_interface :: "s32 \<Rightarrow> (u32 option \<times> (u8 list) option) option"
  nl_station :: "s32 \<Rightarrow> mac \<Rightarrow> (u8 option) option option"
  nl_fl :: "rat \<Rightarrow> rat"
  nl_dbl :: "rat \<Rightarrow> rat"
  nl_f2i :: "rat \<Rightarrow> s32"
  nl_nametoindex :: "string \<Rightarrow> u32"

text \<open>The body of the node's survey timer.\<close>

definition nl80211_update_node :: "kernel \<Rightarrow> usteer_local_node \<Rightarrow> usteer_local_node" where
  "nl80211_update_node K l =
     nl80211_get_survey (nl_survey K) (nl80211_update_node_result (nl_fl K) (nl_dbl K) (nl_f2i K))
       (l\<lparr>ln_nl80211_timer := Some 1000, ln_ifindex := nl_nametoindex K (ln_iface l)\<rparr>)"

subsection \<open>Nodes and stations\<close>

text \<open>The SSID as a C string in the buffer of 33 bytes.\<close>

definition ssid_string :: "u8 list \<Rightarrow> string" where
  "ssid_string bs = map (\<lambda>b. char_of (unat b)) (takeWhile (\<lambda>b. b \<noteq> 0) (take 32 bs))"

definition init_local_node :: "kernel \<Rightarrow> usteer_local_node \<Rightarrow> usteer_local_node" where
  "init_local_node K l =
     (if node_type (ln_node l) \<noteq> NODE_TYPE_LOCAL then l
      else
        (let l = l\<lparr>ln_nl80211_present := False, ln_wiphy := - 1\<rparr>
         in if ln_ifindex l = 0 then l
            else if \<not> nl_init K then l
            else
              (case nl_interface K (ln_ifindex l) of
                 Some (Some wiphy, ssid) \<Rightarrow>
                   (let l = l\<lparr>ln_wiphy := wiphy\<rparr>;
                        l = (case ssid of None \<Rightarrow> l
                             | Some bs \<Rightarrow> l\<lparr>ln_node := (ln_node l)\<lparr>node_ssid := ssid_string bs\<rparr>\<rparr>);
                        l = l\<lparr>ln_load_ewma := - 1, ln_nl80211_present := True\<rparr>
                    in nl80211_update_node K l)
               | _ \<Rightarrow> l)))"

definition nl80211_init_node :: "kernel \<Rightarrow> string \<Rightarrow> usteer_state \<Rightarrow> usteer_state option" where
  "nl80211_init_node K n s = Some (upd_local n (init_local_node K) s)"

definition nl80211_free_node :: "string \<Rightarrow> usteer_state \<Rightarrow> usteer_state option" where
  "nl80211_free_node n s =
     Some (upd_local n (\<lambda>l. if \<not> ln_nl80211_present l then l else l\<lparr>ln_nl80211_timer := None\<rparr>) s)"

definition nl80211_update_sta ::
    "kernel \<Rightarrow> tree_insert \<Rightarrow> u32 \<Rightarrow> string \<Rightarrow> nat \<Rightarrow> usteer_state \<Rightarrow> usteer_state option" where
  "nl80211_update_sta K ins now n a s = do {
     l \<leftarrow> get_local s n;
     (if \<not> ln_nl80211_present l then Some s
      else do {
        si \<leftarrow> si_heap s a;
        (case nl_station K (ln_ifindex l) (si_sta si) of
           Some (Some signal_avg) \<Rightarrow>
             usteer_sta_info_update ins now a (case signal_avg of None \<Rightarrow> NO_SIGNAL | Some x \<Rightarrow> scast x) True s
         | _ \<Rightarrow> Some s)
      })
   }"

text \<open>The clock reading is a function of the entry that is updated.\<close>

definition nl80211_handler :: "kernel \<Rightarrow> tree_insert \<Rightarrow> (nat \<Rightarrow> u32) \<Rightarrow> usteer_node_handler" where
  "nl80211_handler K ins now =
     \<lparr>h_init_node = Some (nl80211_init_node K), h_free_node = Some nl80211_free_node,
      h_update_node = None, h_update_sta = Some (\<lambda>n a. nl80211_update_sta K ins (now a) n a)\<rparr>"

subsection \<open>Scan results\<close>

text \<open>
  The walk over the information elements. The list is the rest of the attribute, \<open>ielen\<close> bytes; after
  a truncated element \<open>ielen\<close> is negative and the list is empty. A copy from past the end of the
  attribute is undefined.
\<close>

function ie_walk :: "u8 list \<Rightarrow> u8 list \<Rightarrow> u8 list option" where
  "ie_walk ie ssid =
     (if 2 \<le> length ie \<and> unat (ie ! 1) \<le> length ie
      then
        (let n = unat (ie ! 1)
         in if ie ! 0 = 0 \<and> n \<le> 32
            then (if n \<le> length (drop 2 ie)
                  then ie_walk (drop (n + 2) ie) (take n (drop 2 ie) @ drop n ssid)
                  else None)
            else ie_walk (drop (n + 2) ie) ssid)
      else Some ssid)"
  by pat_completeness auto
termination by (relation "measure (length \<circ> fst)") (auto simp: Let_def)

declare ie_walk.simps [simp del]

record usteer_scan_result =
  sr_bssid :: mac
  sr_ssid :: "u8 list"
  sr_freq :: s32
  sr_signal :: s32

record bss_info =
  bss_bssid :: "u8 list option"
  bss_frequency :: "u32 option"
  bss_signal_mbm :: "u32 option"
  bss_ies :: "u8 list option"
  bss_beacon_ies :: "u8 list option"

text \<open>Division of an \<^verbatim>\<open>int\<close> truncates towards zero.\<close>

definition c_div :: "int \<Rightarrow> int \<Rightarrow> int" where
  "c_div a b = sgn a * (\<bar>a\<bar> div b)"

text \<open>
  The outer option is the definedness; an inner \<^term>\<open>None\<close> means that the message is skipped.
\<close>

definition nl80211_scan_result :: "bss_info option \<Rightarrow> usteer_scan_result option option" where
  "nl80211_scan_result info =
     (case info of
        None \<Rightarrow> Some None
      | Some bss \<Rightarrow>
          (case (bss_bssid bss, bss_frequency bss) of
             (Some b, Some freq) \<Rightarrow> do {
               bssid \<leftarrow> mac_of_bytes (take 6 b);
               let signal = (case bss_signal_mbm bss of None \<Rightarrow> - 127 | Some x \<Rightarrow> of_int (c_div (sint x) 100));
               ssid \<leftarrow> (case (case bss_ies bss of None \<Rightarrow> bss_beacon_ies bss | Some ie \<Rightarrow> Some ie) of
                         None \<Rightarrow> Some (replicate 33 0)
                       | Some ie \<Rightarrow> ie_walk ie (replicate 33 0));
               Some (Some \<lparr>sr_bssid = bssid, sr_ssid = ssid, sr_freq = freq, sr_signal = signal\<rparr>)
             }
           | _ \<Rightarrow> Some None))"

subsection \<open>Frequencies\<close>

record usteer_freq_data =
  fd_freq :: u16
  fd_txpower :: u8
  fd_dfs :: bool

record freq_attrs =
  fa_disabled :: bool
  fa_no_ir :: bool
  fa_freq :: "u32 option"
  fa_radar :: bool
  fa_max_tx_power :: "u32 option"

definition freq_result :: "freq_attrs \<Rightarrow> usteer_freq_data option" where
  "freq_result tb =
     (if fa_disabled tb then None
      else if fa_no_ir tb then None
      else map_option (\<lambda>f. \<lparr>fd_freq = ucast f,
          fd_txpower = (case fa_max_tx_power tb of None \<Rightarrow> 0 | Some p \<Rightarrow> ucast (p div 100)), fd_dfs = fa_radar tb\<rparr>)
        (fa_freq tb))"

text \<open>The frequencies the callback is called with: bands, each with an optional list of frequencies.\<close>

definition nl80211_wiphy_result :: "freq_attrs list option list option \<Rightarrow> usteer_freq_data list" where
  "nl80211_wiphy_result bands =
     (case bands of
        None \<Rightarrow> []
      | Some bs \<Rightarrow> concat (map (\<lambda>fs. case fs of None \<Rightarrow> [] | Some fs \<Rightarrow> List.map_filter freq_result fs) bs))"

text \<open>\<open>wiphy\<close> gives the messages that answer the request for a wireless device.\<close>

definition nl80211_get_freqlist ::
    "(s32 \<Rightarrow> freq_attrs list option list option list) \<Rightarrow> usteer_local_node \<Rightarrow> usteer_freq_data list" where
  "nl80211_get_freqlist wiphy l =
     (if \<not> ln_nl80211_present l then [] else concat (map nl80211_wiphy_result (wiphy (ln_wiphy l))))"

subsection \<open>Scanning\<close>

record usteer_scan_request =
  rq_freq :: "s32 list"
  rq_passive :: bool

text \<open>The attributes of the request in their order; the nested ones with their indices.\<close>

datatype scan_attr =
  Scan_ifindex s32 | Scan_ssids "(nat \<times> u8 list) list" | Scan_flags_ap | Scan_frequencies "(nat \<times> s32) list"

definition scan_message :: "usteer_local_node \<Rightarrow> usteer_scan_request \<Rightarrow> scan_attr list" where
  "scan_message l req =
     [Scan_ifindex (ln_ifindex l)] @
     (if rq_passive req then [] else [Scan_ssids [(1, [])]]) @
     [Scan_flags_ap] @
     (if rq_freq req = [] then [] else [Scan_frequencies (enumerate 0 (rq_freq req))])"

text \<open>The commands of the events; the callback ends the wait for two of them, whatever interface they are about.\<close>

datatype nl80211_cmd = NL80211_CMD_NEW_SCAN_RESULTS | NL80211_CMD_SCAN_ABORTED | NL80211_CMD_OTHER

fun nl80211_scan_event_cb :: "nl80211_cmd \<Rightarrow> bool" where
  "nl80211_scan_event_cb NL80211_CMD_NEW_SCAN_RESULTS = True"
| "nl80211_scan_event_cb NL80211_CMD_SCAN_ABORTED = True"
| "nl80211_scan_event_cb NL80211_CMD_OTHER = False"

text \<open>
  \<open>trigger\<close> is the return value of the request that starts the scan, \<open>events\<close> are the events that follow, \<open>dump\<close> the messages of the
  request for its results. The result is the return value and what the callback is called with; without an event that ends
  the wait there is none.
\<close>

definition ENODEV :: int where "ENODEV = 19"

definition nl80211_scan ::
    "(scan_attr list \<Rightarrow> int) \<Rightarrow> nl80211_cmd list \<Rightarrow> (s32 \<Rightarrow> bss_info option list) \<Rightarrow> usteer_scan_request \<Rightarrow> bool \<Rightarrow> usteer_local_node \<Rightarrow>
     (int \<times> usteer_scan_result list) option" where
  "nl80211_scan trigger events dump req has_cb l =
     (if \<not> ln_nl80211_present l then Some (- ENODEV, [])
      else
        (let ret = trigger (scan_message l req)
         in if ret < 0 then Some (ret, [])
            else if \<not> list_ex nl80211_scan_event_cb events then None
            else if \<not> has_cb then Some (0, [])
            else do {
              rs \<leftarrow> those (map nl80211_scan_result (dump (ln_ifindex l)));
              Some (0, List.map_filter (\<lambda>r. r) rs)
            }))"

section \<open>Lemmas\<close>

text \<open>A scan that was started returns exactly when an event ends the wait, if its results are well formed.\<close>

lemma scan_returns:
  assumes "ln_nl80211_present l" "0 \<le> trigger (scan_message l req)" "\<forall>m \<in> set (dump (ln_ifindex l)). nl80211_scan_result m \<noteq> None"
  shows "(\<exists>rs. nl80211_scan trigger events dump req has_cb l = Some (0, rs)) \<longleftrightarrow>
    NL80211_CMD_NEW_SCAN_RESULTS \<in> set events \<or> NL80211_CMD_SCAN_ABORTED \<in> set events"
proof -
  have "those (map nl80211_scan_result (dump (ln_ifindex l))) \<noteq> None"
    by (subst those_total) (use assms(3) in auto)
  moreover have "list_ex nl80211_scan_event_cb events \<longleftrightarrow>
      NL80211_CMD_NEW_SCAN_RESULTS \<in> set events \<or> NL80211_CMD_SCAN_ABORTED \<in> set events"
    by (auto simp: list_ex_iff elim: nl80211_scan_event_cb.elims
        intro: bexI [of _ NL80211_CMD_NEW_SCAN_RESULTS] bexI [of _ NL80211_CMD_SCAN_ABORTED])
  ultimately show ?thesis using assms(1,2) by (auto simp: nl80211_scan_def Let_def bind_eq_Some_conv)
qed

subsection \<open>Handlers\<close>

lemma update_node_result_sta_info [simp]:
  "node_sta_info (ln_node (nl80211_update_node_result fl dbl f2i d l)) = node_sta_info (ln_node l)"
  by (simp add: nl80211_update_node_result_def Let_def split: option.split)

lemma get_survey_sta_info:
  assumes "\<And>d l. node_sta_info (ln_node (cb d l)) = node_sta_info (ln_node l)"
  shows "node_sta_info (ln_node (nl80211_get_survey sv cb l)) = node_sta_info (ln_node l)"
proof -
  have "node_sta_info (ln_node (fold cb ds l)) = node_sta_info (ln_node l)" for ds l
    by (induction ds arbitrary: l) (simp_all add: assms)
  then show ?thesis by (simp add: nl80211_get_survey_def)
qed

lemma nl80211_update_node_sta_info [simp]:
  "node_sta_info (ln_node (nl80211_update_node K l)) = node_sta_info (ln_node l)"
  by (simp add: nl80211_update_node_def get_survey_sta_info)

lemma init_local_node_sta_info: "node_sta_info (ln_node (init_local_node K l)) = node_sta_info (ln_node l)"
  by (simp add: init_local_node_def Let_def split: option.split prod.split)

lemma nl80211_init_step: "\<exists>s'. nl80211_init_node K n s = Some s' \<and> handler_step n s s'"
  by (simp add: nl80211_init_node_def handler_step_upd init_local_node_sta_info)

lemma nl80211_free_step: "\<exists>s'. nl80211_free_node n s = Some s' \<and> handler_step n s s'"
  by (simp add: nl80211_free_node_def handler_step_upd)

lemma entry_update_refl: "si_heap s a = Some si \<Longrightarrow> entry_update a s s"
  unfolding entry_update_def by (intro exI [of _ si] exI [of _ "tq s"]) (simp add: fun_upd_idem)

lemma nl80211_update_sta_step:
  assumes ins: "avl_dups_tree ins" and wf: "wf_state s" and pos: "timeouts_positive s"
    and live: "get_local s n \<noteq> None" "si_heap s a \<noteq> None"
  shows "\<exists>s'. nl80211_update_sta K ins now n a s = Some s' \<and> wf_state s' \<and> entry_update a s s'"
proof -
  from live obtain l si where l: "get_local s n = Some l" and si: "si_heap s a = Some si" by blast
  note same = entry_update_refl [OF si] wf
  have "\<exists>s'. usteer_sta_info_update ins now a sg True s = Some s' \<and> wf_state s' \<and> entry_update a s s'" for sg
  proof -
    from avl_dups_tree.update_total [OF ins wf si, of now sg True] pos obtain s' si' where
      s': "usteer_sta_info_update ins now a sg True s = Some s'" "wf_state s'" "si_heap s' = (si_heap s)(a \<mapsto> si')"
        "same_entry a si si'" "si_connected si' = si_connected si"
      unfolding timeouts_positive_def by (auto simp: same_entry_def)
    have "\<exists>q. s' = s\<lparr>si_heap := (si_heap s)(a \<mapsto> si'), tq := q\<rparr>"
      using s'(1,3) si pos unfolding timeouts_positive_def
      by (auto simp: usteer_sta_info_update_def usteer_sta_info_update_timeout_def upd_si_def Let_def split: if_splits)
    with s' si show ?thesis unfolding entry_update_def by blast
  qed
  with same show ?thesis
    by (auto simp: nl80211_update_sta_def l si split: option.split)
qed

subsection \<open>The channel load\<close>

text \<open>
  Rounding to \<^verbatim>\<open>float\<close> and \<^verbatim>\<open>double\<close> is monotone and exact on the small integers; the two weights times
  one hundred round to 85 and 15; the conversion to \<^verbatim>\<open>int\<close> cuts the fraction off.
\<close>

definition ieee :: "(rat \<Rightarrow> rat) \<Rightarrow> (rat \<Rightarrow> rat) \<Rightarrow> (rat \<Rightarrow> s32) \<Rightarrow> bool" where
  "ieee fl dbl f2i \<longleftrightarrow> mono fl \<and> mono dbl \<and> (\<forall>k \<le> 100. fl (of_nat k) = of_nat k \<and> dbl (of_nat k) = of_nat k) \<and>
     dbl (dbl (85 / 100) * 100) = 85 \<and> dbl (dbl (15 / 100) * 100) = 15 \<and>
     (\<forall>x. 0 \<le> x \<and> x \<le> 100 \<longrightarrow> f2i x = of_int \<lfloor>x\<rfloor>)"

lemma rounded_range:
  assumes "mono r" "r 0 = (0::rat)" "r 100 = (100::rat)" "0 \<le> x" "x \<le> 100"
  shows "0 \<le> r x" "r x \<le> 100"
  using monoD [OF assms(1,4)] monoD [OF assms(1,5)] assms(2,3) by simp_all

lemma smoothed_range:
  assumes i: "ieee fl dbl f2i" and old: "0 \<le> old" "old \<le> 100" and cur: "0 \<le> cur" "cur \<le> 100"
  shows "0 \<le> smoothed fl dbl old cur" "smoothed fl dbl old cur \<le> 100"
proof -
  from i have m: "mono fl" "mono dbl" and ex: "\<And>k. k \<le> 100 \<Longrightarrow> fl (of_nat k) = of_nat k \<and> dbl (of_nat k) = of_nat k"
    and w: "dbl (dbl (85 / 100) * 100) = 85" "dbl (dbl (15 / 100) * 100) = 15" by (auto simp: ieee_def)
  have z: "fl 0 = 0" "dbl 0 = 0" "fl 100 = 100" "dbl 100 = 100" using ex [of 0] ex [of 100] by simp_all
  have part: "0 \<le> dbl (dbl q * x) \<and> dbl (dbl q * x) \<le> dbl (dbl q * 100)" if "0 \<le> q" "0 \<le> x" "x \<le> 100" for q x
  proof -
    have q: "0 \<le> dbl q" using monoD [OF m(2) that(1)] z by simp
    have "dbl 0 \<le> dbl (dbl q * x)" by (rule monoD [OF m(2)]) (use q that in simp)
    moreover have "dbl (dbl q * x) \<le> dbl (dbl q * 100)"
      by (rule monoD [OF m(2)]) (rule mult_left_mono [OF that(3) q])
    ultimately show ?thesis using z by simp
  qed
  let ?a = "dbl (dbl (85 / 100) * old)" and ?b = "dbl (dbl (15 / 100) * cur)"
  have ab: "0 \<le> ?a" "?a \<le> 85" "0 \<le> ?b" "?b \<le> 15"
    using part [of "85 / 100" old] part [of "15 / 100" cur] old cur w by simp_all
  then have sum: "0 \<le> ?a + ?b" "?a + ?b \<le> 100" by linarith+
  note d = rounded_range [OF m(2) z(2,4) sum]
  show "0 \<le> smoothed fl dbl old cur" "smoothed fl dbl old cur \<le> 100"
    unfolding smoothed_def using rounded_range [OF m(1) z(1,3) d] .
qed

definition load_ok :: "usteer_local_node \<Rightarrow> bool" where
  "load_ok l \<longleftrightarrow> ln_load_ewma l \<le> 100 \<and> 0 \<le> sint (node_load (ln_node l)) \<and> sint (node_load (ln_node l)) \<le> 100"

text \<open>
  A plausible survey: the counters did not run backwards, the channel was not busy for longer than the
  time that has passed, and that was less than 42949 seconds.
\<close>

definition plausible :: "usteer_survey_data \<Rightarrow> usteer_local_node \<Rightarrow> bool" where
  "plausible d l \<longleftrightarrow> unat (sd_time_busy d - ln_time_busy l) \<le> unat (sd_time d - ln_time l) \<and>
     100 * unat (sd_time d - ln_time l) < 2 ^ 32"

lemma busy_percent_range:
  assumes "plausible d l" "busy_percent d l = Some p"
  shows "unat p \<le> 100"
proof -
  let ?t = "sd_time d - ln_time l" and ?b = "sd_time_busy d - ln_time_busy l"
  have bt: "unat ?b \<le> unat ?t" "100 * unat ?t < 2 ^ 32" using assms(1) by (auto simp: plausible_def)
  have u: "unat (ucast x :: u32) = unat x" if "unat x < 2 ^ 32" for x :: u64
    using that by (simp add: unsigned_ucast_eq take_bit_nat_eq_self)
  have ut: "unat (ucast ?t :: u32) = unat ?t" "unat (ucast ?b :: u32) = unat ?b" using bt by (auto intro!: u)
  from assms(2) have p: "p = (100 * ucast ?b) div ucast ?t" and nz: "ucast ?t \<noteq> (0::u32)"
    by (auto simp: busy_percent_def Let_def split: if_splits)
  have "unat (100 * (ucast ?b :: u32)) = 100 * unat ?b"
    using bt ut(2) by (simp add: unat_word_ariths)
  then have "unat p = (100 * unat ?b) div unat ?t" unfolding p using ut by (simp add: unat_div)
  also have "\<dots> \<le> (100 * unat ?t) div unat ?t" using bt(1) by (intro div_le_mono) simp
  also have "\<dots> \<le> 100" by (cases "unat ?t = 0") simp_all
  finally show ?thesis .
qed

subsection \<open>Information elements\<close>

definition encode_ies :: "(u8 \<times> u8 list) list \<Rightarrow> u8 list" where
  "encode_ies es = concat (map (\<lambda>(i, p). i # of_nat (length p) # p) es)"

definition ssid_step :: "u8 \<times> u8 list \<Rightarrow> u8 list \<Rightarrow> u8 list" where
  "ssid_step e ssid = (if fst e = 0 \<and> length (snd e) \<le> 32 then snd e @ drop (length (snd e)) ssid else ssid)"

lemma ie_walk_append:
  assumes "\<forall>(i, p) \<in> set es. length p < 256"
  shows "ie_walk (encode_ies es @ rest) ssid = ie_walk rest (fold ssid_step es ssid)"
  using assms
proof (induction es arbitrary: ssid)
  case Nil
  then show ?case by (simp add: encode_ies_def)
next
  case (Cons e es)
  obtain i p where e: "e = (i, p)" by fastforce
  have len: "unat (of_nat (length p) :: u8) = length p" using Cons.prems e by (simp add: unat_of_nat)
  have "ie_walk (encode_ies (e # es) @ rest) ssid = ie_walk (encode_ies es @ rest) (ssid_step e ssid)"
    by (subst ie_walk.simps) (simp add: encode_ies_def e len ssid_step_def Let_def)
  then show ?case using Cons by simp
qed

lemma ie_walk_Nil: "ie_walk [] ssid = Some ssid"
  by (subst ie_walk.simps) simp

section \<open>Properties\<close>

text \<open>
  C25. The load of a channel. For IEEE arithmetic and a plausible survey the smoothed load and the load of
  the node stay between 0 and 100 percent: the 32-bit product does not wrap, and the conversion of the
  smoothed value to an integer is defined.
\<close>

theorem channel_load_bounds:
  assumes "ieee fl dbl f2i" "load_ok l" "plausible d l"
  shows "load_ok (nl80211_update_node_result fl dbl f2i d l)"
proof (cases "(ucast (sd_freq d) :: s32) = node_freq (ln_node l) \<and> busy_percent d l \<noteq> None")
  case True
  then obtain p where p: "busy_percent d l = Some p" by blast
  have "unat p \<le> 100" by (rule busy_percent_range [OF assms(3) p])
  then have cur: "fl (of_nat (unat p)) = of_nat (unat p)" "(of_nat (unat p) :: rat) \<le> 100"
    using assms(1) of_nat_le_iff [of "unat p" 100, where 'a = rat] by (simp_all add: ieee_def del: of_nat_le_iff of_nat_unat)
  have pos: "(0::rat) \<le> of_nat (unat p)" by (rule of_nat_0_le_iff)
  let ?e = "if ln_load_ewma l < 0 then of_nat (unat p) else smoothed fl dbl (ln_load_ewma l) (of_nat (unat p))"
  have e: "0 \<le> ?e" "?e \<le> 100"
    using smoothed_range [OF assms(1), of "ln_load_ewma l" "of_nat (unat p)"] cur pos assms(2)
    by (auto simp: load_ok_def)
  then have "f2i ?e = of_int \<lfloor>?e\<rfloor>" using assms(1) by (simp add: ieee_def)
  moreover have fl: "0 \<le> \<lfloor>?e\<rfloor>" "\<lfloor>?e\<rfloor> \<le> 100" using e by (simp_all add: floor_le_iff)
  moreover have "sint (of_int k :: s32) = k" if "0 \<le> k" "k \<le> 100" for k
    using that by (simp add: signed_of_int signed_take_bit_int_eq_self)
  ultimately have "0 \<le> sint (f2i ?e)" "sint (f2i ?e) \<le> 100" by simp_all
  moreover let ?r = "nl80211_update_node_result fl dbl f2i d l"
  have "ln_load_ewma ?r = ?e" "node_load (ln_node ?r) = f2i ?e"
    using True p cur(1) by (simp_all add: nl80211_update_node_result_def Let_def del: of_nat_unat)
  ultimately show ?thesis unfolding load_ok_def using e(2) by simp
next
  case False
  then show ?thesis
    using assms(2) by (auto simp: nl80211_update_node_result_def Let_def load_ok_def)
qed

theorem channel_load_bounds_witness:
  "load_ok (nl80211_update_node_result (\<lambda>x. x) (\<lambda>x. x) (\<lambda>x. of_int \<lfloor>x\<rfloor>)
     \<lparr>sd_freq = 2412, sd_noise = 0, sd_time = 3000, sd_time_busy = 700\<rparr>
     ((ap_local (ap_node [] 1 2412 0) 1)\<lparr>ln_time := 2000, ln_time_busy := 200\<rparr>))"
  by (rule channel_load_bounds)
    (simp_all add: ieee_def mono_def load_ok_def plausible_def ap_local_def ap_node_def calloc_node_def)

text \<open>
  C33. The network name of a scan result. On a sequence of complete information elements the walk ends
  with the name of the last SSID element of at most 32 bytes (written over the zeroed buffer). A last
  element that is cut off, where the header claims up to two bytes more than there are, passes the
  guard of the loop and is read past the end of the attribute.
\<close>

theorem scan_elements_walk:
  assumes "\<forall>(i, p) \<in> set es. length p < 256"
  shows "ie_walk (encode_ies es) ssid = Some (fold ssid_step es ssid) \<and>
    (\<forall>n p. length p < n \<and> n \<le> length p + 2 \<and> n \<le> 32 \<longrightarrow> ie_walk (encode_ies es @ 0 # of_nat n # p) ssid = None)"
proof (intro conjI allI impI)
  show "ie_walk (encode_ies es) ssid = Some (fold ssid_step es ssid)"
    using ie_walk_append [OF assms, of "[]" ssid] by (simp add: ie_walk_Nil)
  fix n and p :: "u8 list" assume n: "length p < n \<and> n \<le> length p + 2 \<and> n \<le> 32"
  then have "unat (of_nat n :: u8) = n" by (simp add: unat_of_nat)
  with n show "ie_walk (encode_ies es @ 0 # of_nat n # p) ssid = None"
    unfolding ie_walk_append [OF assms] by (subst ie_walk.simps) (simp add: Let_def)
qed

theorem scan_elements_walk_witness:
  "ie_walk (encode_ies [(1, [2, 4]), (0, [110, 101])]) [0, 0, 0] = Some [110, 101, 0] \<and>
   ie_walk (encode_ies [(1, [2, 4]), (0, [110, 101])] @ [0, 2]) [0, 0, 0] = None"
proof -
  have "\<forall>(i, p) \<in> set [(1, [2, 4]), (0, [110, 101])]. length p < 256" by simp
  from scan_elements_walk [OF this, of "[0, 0, 0]"] show ?thesis
    by (auto simp: ssid_step_def dest!: spec [of _ "2::nat"] spec [of _ "[] :: u8 list"])
qed

end
