(* ===== verification/Handlers.thy ===== *)
theory Handlers
  imports Client_List Netifd Nl80211
begin

text \<open>
  The local nodes with the node handlers of the daemon: netifd.c and nl80211.c fulfil the contract that
  local_node.c relies on, so that its operations are total on well-formed states. The properties of
  registration, removal, periodic update, client lists and events.
\<close>

section \<open>The handlers of the daemon\<close>

text \<open>Both handlers register themselves; the order does not matter for what follows.\<close>

definition node_handlers ::
    "kernel \<Rightarrow> tree_insert \<Rightarrow> (nat \<Rightarrow> u32) \<Rightarrow> (string \<Rightarrow> u32 option) \<Rightarrow> usteer_node_handler list" where
  "node_handlers K ins now lookup_id = [nl80211_handler K ins now, netifd_handler lookup_id]"

lemma node_handlers_contract:
  assumes ins: "avl_dups_tree ins"
  shows "handler_contract (node_handlers K ins now lookup_id)"
proof
  fix h f s n assume h: "h \<in> set (node_handlers K ins now lookup_id)" and live: "get_local s n \<noteq> None"
  show "\<exists>s'. f n s = Some s' \<and> handler_step n s s'" if "h_init_node h = Some f"
    using h that live nl80211_init_step netifd_init_step
    by (auto simp: node_handlers_def nl80211_handler_def netifd_handler_def)
  show "\<exists>s'. f n s = Some s' \<and> handler_step n s s'" if "h_free_node h = Some f"
    using h that live nl80211_free_step netifd_free_step
    by (auto simp: node_handlers_def nl80211_handler_def netifd_handler_def)
  show "\<exists>s'. f n s = Some s' \<and> handler_step n s s'" if "h_update_node h = Some f"
    using h that live netifd_update_step
    by (auto simp: node_handlers_def nl80211_handler_def netifd_handler_def)
next
  fix h g s n a assume h: "h \<in> set (node_handlers K ins now lookup_id)" "h_update_sta h = Some g"
    and pre: "wf_state s" "timeouts_positive s" "get_local s n \<noteq> None" "si_heap s a \<noteq> None"
  from h have "g = (\<lambda>n a. nl80211_update_sta K ins (now a) n a)"
    by (auto simp: node_handlers_def nl80211_handler_def netifd_handler_def)
  with nl80211_update_sta_step [OF ins pre, of K "now a"]
  show "\<exists>s'. g n a s = Some s' \<and> wf_state s' \<and> entry_update a s s'" by simp
qed

interpretation daemon: handler_contract "node_handlers K ordered_insert now lookup_id" for K now lookup_id
  by (rule node_handlers_contract) (rule ordered.avl_dups_tree_axioms)

section \<open>Lemmas\<close>

subsection \<open>Initialisation\<close>

definition is_hostapd :: "string \<Rightarrow> bool" where
  "is_hostapd name \<longleftrightarrow> take 8 name = ''hostapd.''"

lemma node_view_local: "node_view s (NLocal n) = None \<longleftrightarrow> get_local s n = None"
  by (simp add: node_view_def)

context handler_contract
begin

lemma register_nodes_total:
  assumes "wf_state s"
  shows "\<exists>s'. for_each (node_list_cb hs idx) objs s = Some s' \<and> wf_state s' \<and>
    (\<forall>n. get_local s' n \<noteq> None \<longleftrightarrow> get_local s n \<noteq> None \<or> is_hostapd n \<and> n \<in> fst ` set objs) \<and>
    si_heap s' = si_heap s \<and> stations s' = stations s \<and> config s' = config s"
  using assms
proof (induction objs arbitrary: s)
  case Nil
  then show ?case by simp
next
  case (Cons obj objs)
  obtain name i where obj: "obj = (name, i)" by fastforce
  show ?case
  proof (cases "is_hostapd name")
    case True
    from register_node_total [OF Cons.prems True [unfolded is_hostapd_def], of idx i] obtain t where
      t: "usteer_register_node hs idx obj s = Some t" "wf_state t" "get_local t name \<noteq> None"
        "node_view t = (if get_local s name = None then (node_view s)(NLocal name \<mapsto> []) else node_view s)"
        "si_heap t = si_heap s" "stations t = stations s" "config t = config s" unfolding obj by blast
    have g: "get_local t n = None \<longleftrightarrow> n \<noteq> name \<and> get_local s n = None" for n
      using t(3,4) node_view_local [of t n] node_view_local [of s n] by (auto split: if_splits)
    from Cons.IH [OF t(2)] t(1,5-7) g show ?thesis
      by (auto simp: node_list_cb_def obj True)
  next
    case False
    then have "usteer_register_node hs idx obj s = Some s"
      by (simp add: usteer_register_node_def obj is_hostapd_def)
    with Cons.IH [OF Cons.prems] False show ?thesis by (auto simp: node_list_cb_def obj)
  qed
qed

lemma nodes_init_total:
  assumes "wf_state s"
  shows "\<exists>s'. usteer_local_nodes_init hs idx objs s = Some s' \<and> wf_state s' \<and>
    (\<forall>n. get_local s' n \<noteq> None \<longleftrightarrow> get_local s n \<noteq> None \<or> is_hostapd n \<and> n \<in> fst ` set objs) \<and>
    si_heap s' = si_heap s \<and> stations s' = stations s"
proof -
  let ?s = "emit (Ubus_lookup ''hostapd.*'') (usteer_register_events s)"
  have "handler_step n s ?s" for n
    unfolding usteer_register_events_def by (blast intro: handler_step_trans handler_step_emit)
  from handler_step_wf(1) [OF this] assms have wf: "wf_state ?s" by simp
  have g: "get_local ?s n = get_local s n" "si_heap ?s = si_heap s" "stations ?s = stations s" for n
    by (simp_all add: usteer_register_events_def get_local_def)
  show ?thesis
    using register_nodes_total [OF wf, of idx objs] unfolding g by (auto simp: usteer_local_nodes_init_def Let_def)
qed

lemma list_cb_total:
  assumes "avl_dups_tree ins" "wf_state s" "timeouts_positive s" "get_local s n \<noteq> None"
    and "distinct (listed ether_aton clients)"
  shows "\<exists>s'. usteer_local_node_list_cb ether_aton hs fl ins now n
      (Some freq) (Some clients) s = Some s' \<and> wf_state s' \<and>
    (\<forall>m. conn_view s' m (NLocal n) = (if m \<in> set (associated ether_aton clients) then Some 1
       else if m \<in> set (listed ether_aton clients) \<or> entry s m (NLocal n) \<noteq> None then Some 0 else None)) \<and>
    (\<forall>m r. r \<noteq> NLocal n \<longrightarrow> conn_view s' m r = conn_view s m r) \<and>
    map_option node_n_assoc (get_node s' (NLocal n)) = Some (of_nat (length (associated ether_aton clients)))"
proof -
  let ?f = "\<lambda>nd. nd\<lparr>node_freq := freq\<rparr>"
  let ?s = "upd_node (NLocal n) ?f s"
  have upd: "wf_state ?s" "conn_view ?s = conn_view s" "keeps s ?s" "entry ?s = entry s"
    using conn_node_upd [where f = ?f and r = "NLocal n" and s = s] assms(2) by simp_all
  have pos: "timeouts_positive ?s" using assms(3) by (simp add: timeouts_positive_def)
  show ?thesis
    using set_assoc_total [OF assms(1) upd(1) pos
        keeps_live [OF upd(3) assms(4)] assms(5), of fl now]
    unfolding usteer_local_node_list_cb_def upd(2,4) by simp
qed

end

subsection \<open>The cycle of requests\<close>

fun req_index :: "local_req_state \<Rightarrow> nat" where
  "req_index REQ_IDLE = 0"
| "req_index REQ_CLIENTS = 1"
| "req_index REQ_RRM_SET_LIST = 2"
| "req_index REQ_RRM_GET_OWN = 3"

definition at_state :: "string \<Rightarrow> local_req_state \<Rightarrow> action list \<Rightarrow> usteer_state \<Rightarrow> usteer_state" where
  "at_state n st msgs s = (upd_local n (\<lambda>l. l\<lparr>ln_req_state := st\<rparr>) s)\<lparr>out := out s @ msgs\<rparr>"

lemma at_state_again: "at_state n st' m' (at_state n st m s) = at_state n st' (m @ m') s"
  by (simp add: at_state_def upd_local_out upd_local_comp comp_def)

lemma all_nodes_at_state [simp]: "all_nodes (at_state n st m s) = all_nodes s"
  by (auto simp: all_nodes_def at_state_def upd_local_def dict_modify_def)

lemma get_node_at_state: "get_node (at_state n st m s) r = get_node s r"
  by (cases r) (auto simp: at_state_def get_remote_def upd_local_def get_local_def option.map_comp comp_def)

lemma prepare_at_state [simp]:
  "usteer_local_node_prepare_rrm_set n (at_state n st m s) = usteer_local_node_prepare_rrm_set n s"
  unfolding usteer_local_node_prepare_rrm_set_def get_node_at_state by simp

lemma get_local_at_state [simp]:
  "get_local s n = Some l \<Longrightarrow> get_local (at_state n st m s) n = Some (l\<lparr>ln_req_state := st\<rparr>)"
  by (simp add: at_state_def get_local_def upd_local_def)

text \<open>The messages of the three requests.\<close>

definition request_messages :: "u32 \<Rightarrow> (string \<times> blobmsg) list \<Rightarrow> action list" where
  "request_messages i list =
     [Ubus_invoke_async i ''get_clients'' [], Ubus_invoke_async i ''rrm_nr_set'' list,
      Ubus_invoke_async i ''rrm_nr_get_own'' []]"

lemma state_next_eq:
  assumes "get_local s n = Some l" "usteer_local_node_prepare_rrm_set n s = Some list"
  shows "usteer_local_node_state_next n s = Some (case next_req_state (ln_req_state l) of
      None \<Rightarrow> at_state n REQ_IDLE [] s
    | Some st \<Rightarrow> at_state n st [request_messages (ln_obj_id l) list ! req_index (ln_req_state l)] s)"
proof -
  have e: "emit x (upd_local n f s) = (upd_local n f s)\<lparr>out := out s @ [x]\<rparr>" for x f by (simp add: emit_def)
  have u: "upd_local n (\<lambda>l. l\<lparr>ln_req_state := st\<rparr>) s = at_state n st [] s" for st
    by (simp add: at_state_def upd_local_def)
  show ?thesis using assms
    by (cases "ln_req_state l")
      (simp_all add: usteer_local_node_state_next_def request_messages_def Let_def u, simp_all add: at_state_def emit_def)
qed

lemma state_next_run:
  assumes "get_local s n = Some l" "usteer_local_node_prepare_rrm_set n s = Some list"
    "k = req_index (ln_req_state l)"
  shows "for_each (\<lambda>_. usteer_local_node_state_next n) [k ..< 4] s =
    Some (at_state n REQ_IDLE (drop k (request_messages (ln_obj_id l) list)) s)"
proof -
  have step: "usteer_local_node_state_next n (at_state n st m s) = Some (case next_req_state st of
      None \<Rightarrow> at_state n REQ_IDLE m s
    | Some st' \<Rightarrow> at_state n st' (m @ [request_messages (ln_obj_id l) list ! req_index st]) s)" for st m
    using state_next_eq [of "at_state n st m s" n "l\<lparr>ln_req_state := st\<rparr>" list] assms(1,2)
    by (cases st) (simp_all add: at_state_again)
  have ub: "[0 ..< 4] = [0, 1, 2, 3 :: nat]" "[Suc 0 ..< 4] = [1, 2, 3 :: nat]" "[2 ..< 4] = [2, 3 :: nat]"
    "[3 ..< 4] = [3 :: nat]" by (simp_all add: upt_rec)
  show ?thesis
    using assms(3) state_next_eq [OF assms(1,2)]
    by (cases "ln_req_state l") (simp_all add: ub step request_messages_def)
qed

subsection \<open>Events\<close>

text \<open>An event type outside of the array of counters.\<close>

lemma event_unknown:
  assumes ins: "avl_dups_tree ins" and wf: "wf_state s" and nd: "get_node s r = Some nd"
    and pos: "0 < sint (local_sta_timeout (config s))"
  shows "usteer_handle_sta_event ins ether_ntoa now r addr EVENT_TYPE_MAX freq signal s = None"
proof -
  from event_entry [OF wf nd, of addr freq] obtain a c s1 where
    s1: "usteer_sta_info_get addr r True (upd_sta addr (seen_band freq) (snd (usteer_sta_get addr True s))) =
        Some (Some a, c, s1)" "wf_state s1" "frame_eq s s1" "si_heap s1 a \<noteq> None"
    using entry_iff [of s addr r] wf by (fastforce simp: wf_state_def split: if_splits)
  then obtain si where si: "si_heap s1 a = Some si" by blast
  have "length (si_stats si) = 4" using s1(2) si by (simp add: wf_state_def wf_core_def si_ok_def)
  moreover have "0 < sint (local_sta_timeout (config s1))" using pos s1(3) by (simp add: frame_eq_def)
  with avl_dups_tree.update_total [OF ins s1(2) si, of now signal False] obtain s2 si2 where
    s2: "usteer_sta_info_update ins now a signal False s1 = Some s2" "si_heap s2 a = Some si2"
      "si_stats si2 = si_stats si" by force
  ultimately show ?thesis
    using s1(1) by (simp add: usteer_handle_sta_event_def upd_si_def upd_stats_def get_stats_def)
qed

lemma event_type_of_simps [simp]:
  "event_type_of ''probe'' = EVENT_TYPE_PROBE" "event_type_of ''assoc'' = EVENT_TYPE_ASSOC"
  "event_type_of ''auth'' = EVENT_TYPE_AUTH" "event_type_of ''beacon-report'' = EVENT_TYPE_BEACON"
  by (simp_all add: event_type_of_def event_types_def)

lemma event_type_of_unknown: "method \<notin> set event_types \<Longrightarrow> event_type_of method = EVENT_TYPE_MAX"
  by (auto simp: event_type_of_def event_types_def)

definition answered_events :: "string list" where
  "answered_events = [''probe'', ''assoc'', ''auth'']"

lemma answered_type: "method \<in> set answered_events \<Longrightarrow> event_type_of method \<notin> {EVENT_TYPE_BEACON, EVENT_TYPE_MAX}"
  by (auto simp: answered_events_def)

lemma event_answer:
  assumes "avl_dups_tree ins" "wf_state s" "timeouts_positive s" "get_local s n \<noteq> None"
    and "method \<in> set answered_events"
  shows "case (Option.bind (ev_address msg) ether_aton, ev_freq msg) of
      (Some m, Some _) \<Rightarrow> \<exists>st s' a si. usteer_handle_event ether_aton ins ether_ntoa clk now n method msg s = Some (st, s') \<and>
        st \<in> {0, 17} \<and> wf_state s' \<and> entry s' m (NLocal n) = Some a \<and> si_heap s' a = Some si \<and> si_seen si = clk
    | _ \<Rightarrow> usteer_handle_event ether_aton ins ether_ntoa clk now n method msg s =
        Some (UBUS_STATUS_INVALID_ARGUMENT, s\<lparr>current_time := clk\<rparr>)"
proof -
  let ?s = "s\<lparr>current_time := clk\<rparr>"
  let ?ty = "event_type_of method"
  have ty: "?ty \<noteq> EVENT_TYPE_BEACON" "?ty \<noteq> EVENT_TYPE_MAX" using answered_type [OF assms(5)] by simp_all
  have wf: "wf_state ?s" using assms(2) by simp
  from assms(4) obtain nd where nd: "get_node ?s (NLocal n) = Some nd" by auto
  have pos: "0 < sint (local_sta_timeout (config ?s))" using assms(3) by (simp add: timeouts_positive_def)
  note run = event_total [OF assms(1) wf nd pos ty(2)]
  show ?thesis
  proof (cases "ev_address msg"; cases "ev_freq msg")
    fix str f assume msg: "ev_address msg = Some str" "ev_freq msg = Some f"
    show ?thesis
    proof (cases "ether_aton str")
      case (Some m)
      let ?sig = "case ev_signal msg of None \<Rightarrow> NO_SIGNAL | Some x \<Rightarrow> x"
      from run [of ether_ntoa now m f ?sig] obtain ret s' a si where
        "usteer_handle_sta_event ins ether_ntoa now (NLocal n) m ?ty f ?sig ?s = Some (ret, s')"
        "wf_state s'" "entry s' m (NLocal n) = Some a" "si_heap s' a = Some si" "si_seen si = clk" by auto
      then show ?thesis using msg ty Some by (auto simp: usteer_handle_event_def Let_def)
    qed (use msg ty in \<open>simp add: usteer_handle_event_def Let_def\<close>)
  qed (use ty in \<open>simp_all add: usteer_handle_event_def Let_def split: option.split\<close>)
qed

subsection \<open>Surroundings of the concrete network\<close>

text \<open>A kernel that knows nothing, and the address of the client of the network.\<close>

definition silent_kernel :: kernel where
  "silent_kernel = \<lparr>nl_init = True, nl_survey = (\<lambda>_. []), nl_interface = (\<lambda>_. None), nl_station = (\<lambda>_ _. None),
     nl_fl = (\<lambda>x. x), nl_dbl = (\<lambda>x. x), nl_f2i = (\<lambda>x. of_int \<lfloor>x\<rfloor>), nl_nametoindex = (\<lambda>_. 1)\<rparr>"

definition network_aton :: "string \<Rightarrow> mac option" where
  "network_aton str = (if str = ''02:00:00:00:00:09'' then Some client
     else if str = ''02:00:00:00:00:0a'' then Some (MAC 2 0 0 0 0 10) else None)"

definition no_report :: beacon_rep_msg where
  "no_report = \<lparr>rep_bssid = None, rep_addr = None, rep_op_class = None, rep_channel = None, rep_rcpi = None, rep_rsni = None\<rparr>"

lemma network_positive: "timeouts_positive network"
  by (simp add: timeouts_positive_def network_def usteer_init_defaults_def)

lemma network_config [simp]:
  "kick_client_active_sec (config network) \<noteq> 0" "local_sta_update (config network) \<noteq> 0" "out network = []"
  by (simp_all add: network_def usteer_init_defaults_def)

section \<open>Properties\<close>

text \<open>
  C3. The list of clients that hostapd reports for a node (with the kernel and netifd handlers). The
  update is defined on every well-formed state with a positive station timeout and keeps it well
  formed. Afterwards exactly the stations the list reports as associated are connected to the node;
  the other listed stations and the stations that were known at the node are known and not
  connected; the entries of all other nodes keep their connection state; the node counts
  as many clients as are associated.
\<close>

theorem client_list_connects:
  assumes "avl_dups_tree ins" "wf_state s" "timeouts_positive s" "get_local s n \<noteq> None"
    and "distinct (listed ether_aton clients)"
  shows "\<exists>s'. usteer_local_node_list_cb ether_aton (node_handlers K ins rd lookup_id) fl ins now n
      (Some freq) (Some clients) s = Some s' \<and> wf_state s' \<and>
    (\<forall>m. conn_view s' m (NLocal n) = (if m \<in> set (associated ether_aton clients) then Some 1
       else if m \<in> set (listed ether_aton clients) \<or> entry s m (NLocal n) \<noteq> None then Some 0 else None)) \<and>
    (\<forall>m r. r \<noteq> NLocal n \<longrightarrow> conn_view s' m r = conn_view s m r) \<and>
    map_option node_n_assoc (get_node s' (NLocal n)) = Some (of_nat (length (associated ether_aton clients)))"
  by (rule handler_contract.list_cb_total [OF node_handlers_contract [OF assms(1)] assms])

theorem client_list_connects_witness:
  "\<exists>s'. usteer_local_node_list_cb network_aton (node_handlers silent_kernel ordered_insert (\<lambda>_. 100000) (\<lambda>_. None))
      (\<lambda>x. x) ordered_insert (\<lambda>_. 100000) ''a'' (Some 2412)
      (Some [(''02:00:00:00:00:0a'', \<lparr>cm_assoc = Some 1, cm_bytes = None\<rparr>)]) network = Some s' \<and> wf_state s' \<and>
    conn_view s' (MAC 2 0 0 0 0 10) (NLocal ''a'') = Some 1 \<and> conn_view s' client (NLocal ''a'') = Some 0 \<and>
    map_option node_n_assoc (get_node s' (NLocal ''a'')) = Some 1"
proof -
  let ?cl = "[(''02:00:00:00:00:0a'', \<lparr>cm_assoc = Some 1, cm_bytes = None\<rparr>)] :: (string \<times> client_msg) list"
  have l: "listed network_aton ?cl = [MAC 2 0 0 0 0 10]" "associated network_aton ?cl = [MAC 2 0 0 0 0 10]"
    by (simp_all add: network_aton_def reports_assoc_def)
  have ne: "client \<noteq> MAC 2 0 0 0 0 10" by (simp add: client_def)
  have live: "get_local network ''a'' \<noteq> None" by simp
  from client_list_connects [OF ordered.avl_dups_tree_axioms network_wf network_positive live,
      of network_aton ?cl silent_kernel "\<lambda>_. 100000" "\<lambda>_. None" "\<lambda>x. x" "\<lambda>_. 100000" 2412] obtain s' where
    s': "usteer_local_node_list_cb network_aton (node_handlers silent_kernel ordered_insert (\<lambda>_. 100000) (\<lambda>_. None))
      (\<lambda>x. x) ordered_insert (\<lambda>_. 100000) ''a'' (Some 2412) (Some ?cl) network = Some s'" "wf_state s'"
      "\<And>m. conn_view s' m (NLocal ''a'') = (if m \<in> set (associated network_aton ?cl) then Some 1
         else if m \<in> set (listed network_aton ?cl) \<or> entry network m (NLocal ''a'') \<noteq> None then Some 0 else None)"
      "map_option node_n_assoc (get_node s' (NLocal ''a'')) = Some (of_nat (length (associated network_aton ?cl)))"
    unfolding l by auto
  show ?thesis using s'(1,2,4) s'(3) [of client] s'(3) [of "MAC 2 0 0 0 0 10"] ne unfolding l by auto
qed



text \<open>
  C12. The cycle of requests ends. From whatever state the request timer of a node has reached, firing it
  until the end of the cycle sends exactly the remaining requests of the three (clients, the neighbor list
  built from the current nodes, the own neighbor report), in this order, returns the node to the idle state
  and changes nothing else.
\<close>

theorem request_cycle_ends:
  assumes "get_local s n = Some l"
  shows "\<exists>list. usteer_local_node_prepare_rrm_set n s = Some list \<and>
    for_each (\<lambda>_. usteer_local_node_state_next n) [req_index (ln_req_state l) ..< 4] s =
    Some ((upd_local n (\<lambda>l. l\<lparr>ln_req_state := REQ_IDLE\<rparr>) s)\<lparr>out := out s @
      drop (req_index (ln_req_state l)) (request_messages (ln_obj_id l) list)\<rparr>)"
proof -
  obtain list where list: "usteer_local_node_prepare_rrm_set n s = Some list"
    using assms by (simp add: usteer_local_node_prepare_rrm_set_def)
  from state_next_run [OF assms list refl] list show ?thesis by (simp add: at_state_def)
qed

theorem request_cycle_ends_witness:
  "\<exists>s'. for_each (\<lambda>_. usteer_local_node_state_next ''a'') [0 ..< 4] network = Some s' \<and>
    out s' = [Ubus_invoke_async 1 ''get_clients'' [], Ubus_invoke_async 1 ''rrm_nr_set'' [(''list'', Add_array [])],
      Ubus_invoke_async 1 ''rrm_nr_get_own'' []]"
proof -
  have "usteer_local_node_prepare_rrm_set ''a'' network = Some [(''list'', Add_array [])]"
    by (simp add: usteer_local_node_prepare_rrm_set_def all_nodes_def usteer_add_rrm_data_def)
      (simp add: network_def ap_local_def ap_node_def calloc_node_def)
  with request_cycle_ends [OF network_nodes(3)] show ?thesis by (simp add: ap_local_def request_messages_def)
qed

text \<open>
  C21. The answer to a request that hostapd passes on (probe, association, authentication). A message without
  address or frequency, or with an address that cannot be read, is refused as invalid and only the clock is
  read. Otherwise the answer is 0 or 17 (refuse the station), and the state stays well formed with an
  entry of the station at the node that has just been seen.
\<close>

theorem hostapd_event_answered:
  assumes "avl_dups_tree ins" "wf_state s" "timeouts_positive s" "get_local s n \<noteq> None"
    and "method \<in> set answered_events"
  shows "case (Option.bind (ev_address msg) ether_aton, ev_freq msg) of
      (Some m, Some _) \<Rightarrow> \<exists>st s' a si. usteer_handle_event ether_aton ins ether_ntoa clk now n method msg s = Some (st, s') \<and>
        st \<in> {0, 17} \<and> wf_state s' \<and> entry s' m (NLocal n) = Some a \<and> si_heap s' a = Some si \<and> si_seen si = clk
    | _ \<Rightarrow> usteer_handle_event ether_aton ins ether_ntoa clk now n method msg s =
        Some (UBUS_STATUS_INVALID_ARGUMENT, s\<lparr>current_time := clk\<rparr>)"
  using event_answer [OF assms] .

theorem hostapd_event_answered_witness:
  "\<exists>st s' a si. usteer_handle_event network_aton ordered_insert mac_addr_fmt 101000 101000 ''a'' ''probe''
      \<lparr>ev_address = Some ''02:00:00:00:00:09'', ev_signal = Some (- 70), ev_freq = Some 2412, ev_report = no_report\<rparr> network =
      Some (st, s') \<and> st \<in> {0, 17} \<and> wf_state s' \<and> entry s' client (NLocal ''a'') = Some a \<and>
    si_heap s' a = Some si \<and> si_seen si = 101000"
proof -
  have live: "get_local network ''a'' \<noteq> None" and m: "''probe'' \<in> set answered_events"
    by (simp_all add: answered_events_def)
  from hostapd_event_answered [OF ordered.avl_dups_tree_axioms network_wf network_positive live m,
      where msg = "\<lparr>ev_address = Some ''02:00:00:00:00:09'', ev_signal = Some (- 70), ev_freq = Some 2412, ev_report = no_report\<rparr>"
        and ether_aton = network_aton and ether_ntoa = mac_addr_fmt and clk = 101000 and now = 101000]
  show ?thesis by (simp add: network_aton_def)
qed

text \<open>
  C38. An event with a name the daemon does not know. The search for the name ends with the number of event
  types, and the handler counts the request in an element past the end of the array of counters:
  a complete message with any other name has undefined behaviour.
\<close>

theorem unknown_event_out_of_bounds:
  assumes "avl_dups_tree ins" "wf_state s" "timeouts_positive s" "get_local s n \<noteq> None"
    and "method \<notin> set event_types"
    and "ev_address msg = Some str" "ether_aton str = Some m" "ev_freq msg = Some freq"
  shows "usteer_handle_event ether_aton ins ether_ntoa clk now n method msg s = None"
proof -
  let ?s = "s\<lparr>current_time := clk\<rparr>"
  have wf: "wf_state ?s" using assms(2) by simp
  from assms(4) obtain nd where nd: "get_node ?s (NLocal n) = Some nd" by auto
  have pos: "0 < sint (local_sta_timeout (config ?s))" using assms(3) by (simp add: timeouts_positive_def)
  show ?thesis
    using event_unknown [OF assms(1) wf nd pos] event_type_of_unknown [OF assms(5)] assms(6-8)
    by (simp add: usteer_handle_event_def Let_def)
qed

theorem unknown_event_out_of_bounds_witness:
  "usteer_handle_event network_aton ordered_insert mac_addr_fmt 101000 101000 ''a'' ''deauth''
     \<lparr>ev_address = Some ''02:00:00:00:00:09'', ev_signal = None, ev_freq = Some 2412, ev_report = no_report\<rparr> network = None"
  by (rule unknown_event_out_of_bounds [where m = client and str = "''02:00:00:00:00:09''" and freq = 2412, OF ordered.avl_dups_tree_axioms network_wf network_positive])
    (simp_all add: event_types_def network_aton_def)

end
