(* ===== verification/Interfaces.thy ===== *)
theory Interfaces
  imports Remote_Recv
begin

text \<open>
  The rest of remote.c: the list of the interfaces the daemon sends on (a libubox \<^verbatim>\<open>vlist\<close>, a tree by name
  whose elements have a version), the vendor specific element with the addresses of these interfaces, and the
  socket, which is opened again whenever the interfaces change.
  \<open>if_nametoindex\<close> and the addresses of the interfaces come from the C library.
\<close>

unbundle bit_operations_syntax

section \<open>Model\<close>

subsection \<open>Interfaces\<close>

definition interface_check :: "(string \<Rightarrow> u32) \<Rightarrow> string \<Rightarrow> usteer_state \<Rightarrow> usteer_state" where
  "interface_check if_nametoindex name s =
     s\<lparr>interfaces := dict_modify name (\<lambda>_. if_nametoindex name) (interfaces s), reload_timer := Some 1\<rparr>"

definition interface_init :: "(string \<Rightarrow> u32) \<Rightarrow> string \<Rightarrow> usteer_state \<Rightarrow> usteer_state" where
  "interface_init if_nametoindex name s = interface_check if_nametoindex name s"

definition interface_free :: "string \<Rightarrow> usteer_state \<Rightarrow> usteer_state" where
  "interface_free name s = s\<lparr>interfaces := dict_delete name (interfaces s)\<rparr>"

text \<open>The callback of the list; both elements have the same key.\<close>

fun interfaces_update_cb ::
    "(string \<Rightarrow> u32) \<Rightarrow> string option \<Rightarrow> string option \<Rightarrow> usteer_state \<Rightarrow> usteer_state option" where
  "interfaces_update_cb if_nametoindex (Some _) (Some name) s = Some (interface_check if_nametoindex name s)"
| "interfaces_update_cb if_nametoindex None (Some name) s = Some (interface_free name s)"
| "interfaces_update_cb if_nametoindex (Some name) None s = Some (interface_init if_nametoindex name s)"
| "interfaces_update_cb if_nametoindex None None s = None"

text \<open>
  \<^verbatim>\<open>vlist_add\<close> links a new element and calls back, or calls back with the old one.
\<close>

definition usteer_interface_add :: "(string \<Rightarrow> u32) \<Rightarrow> string \<Rightarrow> usteer_state \<Rightarrow> usteer_state option" where
  "usteer_interface_add if_nametoindex name s =
     (case map_of (interfaces s) name of
        Some _ \<Rightarrow> interfaces_update_cb if_nametoindex (Some name) (Some name) s
      | None \<Rightarrow> interfaces_update_cb if_nametoindex (Some name) None
          (s\<lparr>interfaces := dict_insert name 0 (interfaces s)\<rparr>))"

text \<open>
  The argument is the array if all its elements are strings. \<^verbatim>\<open>vlist_update\<close> makes all elements old, adding
  renews them, and \<^verbatim>\<open>vlist_flush\<close> calls back for every element that is still old.
\<close>

definition config_set_interfaces ::
    "(string \<Rightarrow> u32) \<Rightarrow> string list option \<Rightarrow> usteer_state \<Rightarrow> usteer_state option" where
  "config_set_interfaces if_nametoindex data s =
     (case data of
        None \<Rightarrow> Some s
      | Some names \<Rightarrow> do {
          s \<leftarrow> for_each (usteer_interface_add if_nametoindex) names s;
          for_each (\<lambda>name. interfaces_update_cb if_nametoindex None (Some name))
            (filter (\<lambda>name. name \<notin> set names) (map fst (interfaces s))) s
        })"

definition config_get_interfaces :: "usteer_state \<Rightarrow> string \<times> blobmsg" where
  "config_get_interfaces s =
     (''interfaces'', Add_array (map (\<lambda>(name, _). ([], Add_string name)) (interfaces s)))"

definition usteer_init_local_id :: "u32 option \<Rightarrow> usteer_state \<Rightarrow> int \<times> usteer_state" where
  "usteer_init_local_id urandom s =
     (case urandom of None \<Rightarrow> (- 1, s) | Some x \<Rightarrow> (0, s\<lparr>local_id := x\<rparr>))"

subsection \<open>Vendor element\<close>

text \<open>Writing hexadecimal digits into a buffer; a write past its end is undefined.\<close>

definition hex :: string where "hex = ''0123456789ABCDEF''"

fun convert_to_hex_string :: "nat \<Rightarrow> u8 list \<Rightarrow> string \<Rightarrow> string option" where
  "convert_to_hex_string off [] str = Some str"
| "convert_to_hex_string off (v # val) str =
     (if Suc off < length str
      then convert_to_hex_string (off + 2) val
        (str[off := hex ! unat (drop_bit 4 (v AND 0xF0)), Suc off := hex ! unat (v AND 0x0F)])
      else None)"

text \<open>The documented size of the string buffer: it grows, and never shrinks.\<close>

definition realloc_string_buffer :: "nat \<Rightarrow> string \<Rightarrow> string" where
  "realloc_string_buffer n str = str @ replicate (n - length str) (CHR 0x00)"

text \<open>An address of an interface: absent, of another family, or the bytes of an IPv6 address.\<close>

datatype ifa_addr = No_addr | Other_family | In6 "u8 list"

fun vendor_loop ::
    "(string \<Rightarrow> u32) \<Rightarrow> usteer_state \<Rightarrow> (string \<times> ifa_addr) list \<Rightarrow> u8 \<Rightarrow> string \<Rightarrow> (u8 \<times> string) option" where
  "vendor_loop if_nametoindex s [] tag_length b = Some (tag_length, b)"
| "vendor_loop if_nametoindex s ((name, addr) # ifas) tag_length b =
     (if addr = No_addr then vendor_loop if_nametoindex s ifas tag_length b
      else if interface_find_by_ifindex s (if_nametoindex name) = None
      then vendor_loop if_nametoindex s ifas tag_length b
      else
        (case addr of
           In6 bytes \<Rightarrow>
             (let tag_length_old = tag_length;
                  tag_length = tag_length + 16;
                  b = realloc_string_buffer ((unat tag_length + 2) * 2) b
              in do {
                b \<leftarrow> convert_to_hex_string ((unat tag_length_old + 2) * 2) bytes b;
                vendor_loop if_nametoindex s ifas tag_length b
              })
         | _ \<Rightarrow> vendor_loop if_nametoindex s ifas tag_length b))"

definition usteer_vendor_get ::
    "(string \<Rightarrow> u32) \<Rightarrow> (string \<times> ifa_addr) list option \<Rightarrow> usteer_state \<Rightarrow> (int \<times> string) option" where
  "usteer_vendor_get if_nametoindex ifaddr s =
     (case ifaddr of
        None \<Rightarrow> Some (0, [])
      | Some ifas \<Rightarrow> do {
          let b = realloc_string_buffer ((4 + 2) * 2) [];
          b \<leftarrow> convert_to_hex_string 0 [0xdd] b;
          b \<leftarrow> convert_to_hex_string (2 * 2) [0xff, 0xda, 0x0c, 0xcc] b;
          (tag_length, b) \<leftarrow> vendor_loop if_nametoindex s ifas 4 b;
          b \<leftarrow> convert_to_hex_string (1 * 2) [tag_length] b;
          Some (uint tag_length, b)
        })"

definition usteer_vendor_set ::
    "(string \<Rightarrow> u32) \<Rightarrow> (string \<times> ifa_addr) list option \<Rightarrow> usteer_state \<Rightarrow> usteer_state option" where
  "usteer_vendor_set if_nametoindex ifaddr s = do {
     (ret, str) \<leftarrow> usteer_vendor_get if_nametoindex ifaddr s;
     Some (if ret \<le> 4 then s
       else fold (\<lambda>(_, l). emit (Ubus_invoke (ln_obj_id l) ''set_vendor_elements'' [(''vendor_elements'', Add_string str)]))
         (local_nodes s) s)
   }"

definition usteer_vendor_update_timer ::
    "(string \<Rightarrow> u32) \<Rightarrow> (string \<times> ifa_addr) list option \<Rightarrow> u64 \<Rightarrow> usteer_state \<Rightarrow> usteer_state option" where
  "usteer_vendor_update_timer if_nametoindex ifaddr clk s =
     (let s = s\<lparr>current_time := clk\<rparr>;
          s = s\<lparr>vendor_timer := Some (vendor_update_interval (config s))\<rparr>
      in usteer_vendor_set if_nametoindex ifaddr s)"

subsection \<open>The socket\<close>

text \<open>
  \<open>fd\<close> is what \<^verbatim>\<open>socket\<close> returns, \<open>bound\<close> what \<^verbatim>\<open>bind\<close> returns; a failure to join the multicast group
  is only reported. The system calls that change which descriptors are open or watched are outputs.
\<close>

definition usteer_reload_timer :: "int \<Rightarrow> int \<Rightarrow> usteer_state \<Rightarrow> usteer_state" where
  "usteer_reload_timer fd bound s =
     (let s = (if fd_registered (remote_fd s)
               then emit (Close (fd_num (remote_fd s)))
                      (emit Uloop_fd_delete (s\<lparr>remote_fd := (remote_fd s)\<lparr>fd_registered := False\<rparr>\<rparr>))
               else s)
      in if fd < 0 then s
         else
           (let s = emit (Socket fd) s
            in if bound < 0 then s
               else emit (Uloop_fd_add fd) (s\<lparr>remote_fd := \<lparr>fd_num = fd, fd_registered = True\<rparr>\<rparr>)))"

section \<open>Lemmas\<close>

subsection \<open>The socket\<close>

text \<open>The descriptors that are open after a sequence of outputs.\<close>

fun open_after :: "action list \<Rightarrow> int set \<Rightarrow> int set" where
  "open_after [] F = F"
| "open_after (Socket fd # xs) F = open_after xs (insert fd F)"
| "open_after (Close fd # xs) F = open_after xs (F - {fd})"
| "open_after (_ # xs) F = open_after xs F"

lemma open_after_append [simp]: "open_after (xs @ ys) F = open_after ys (open_after xs F)"
  by (induction xs F rule: open_after.induct) simp_all

text \<open>
  Reopening closes the watched socket and opens the new one; a socket that cannot be bound stays open
  although nothing refers to it any more.
\<close>

lemma socket_reopened:
  "open_after (out (usteer_reload_timer fd bound s)) F =
     (let old = open_after (out s) F - (if fd_registered (remote_fd s) then {fd_num (remote_fd s)} else {})
      in if fd < 0 then old else insert fd old)"
  "fd_registered (remote_fd (usteer_reload_timer fd bound s)) \<longleftrightarrow> 0 \<le> fd \<and> 0 \<le> bound"
  "0 \<le> fd \<Longrightarrow> 0 \<le> bound \<Longrightarrow> fd_num (remote_fd (usteer_reload_timer fd bound s)) = fd"
  by (auto simp: usteer_reload_timer_def Let_def emit_def)

subsection \<open>Interfaces\<close>

lemma dict_unique:
  assumes "dict_ok xs" "fst ` set xs = A" "\<And>k v. (k, v) \<in> set xs \<Longrightarrow> v = f k"
  shows "xs = map (\<lambda>k. (k, f k)) (sorted_list_of_set A)"
proof -
  have A: "A = set (map fst xs)" using assms(2) by simp
  have "sorted_list_of_set A = map fst xs"
    unfolding A by (rule sorted_list_of_set.idem_if_sorted_distinct) (use assms(1) in \<open>simp_all add: dict_ok_def\<close>)
  moreover have "xs = map (\<lambda>k. (k, f k)) (map fst xs)"
    using assms(3) by (auto simp: comp_def intro!: map_idI [symmetric])
  ultimately show ?thesis by simp
qed

text \<open>The interfaces with an index that is known to be current.\<close>

definition fresh_in :: "(string \<Rightarrow> u32) \<Rightarrow> string set \<Rightarrow> (string \<times> u32) list \<Rightarrow> bool" where
  "fresh_in idx A xs \<longleftrightarrow> dict_ok xs \<and> A \<subseteq> fst ` set xs \<and> (\<forall>k v. (k, v) \<in> set xs \<and> k \<in> A \<longrightarrow> v = idx k)"

lemma set_dict_modify: "set (dict_modify k f xs) = (\<lambda>(k', v). (k', if k' = k then f v else v)) ` set xs"
  by (auto simp: dict_modify_def)

lemma fresh_in_add:
  assumes "fresh_in idx A (interfaces s)"
  shows "\<exists>t ifs. usteer_interface_add idx name s = Some (s\<lparr>interfaces := ifs, reload_timer := t\<rparr>) \<and>
    fresh_in idx (insert name A) ifs \<and> fst ` set ifs = insert name (fst ` set (interfaces s))"
proof -
  let ?ifs = "if name \<in> fst ` set (interfaces s) then interfaces s else dict_insert name 0 (interfaces s)"
  let ?new = "dict_modify name (\<lambda>_. idx name) ?ifs"
  have keys: "fst ` set ?new = insert name (fst ` set (interfaces s))"
    by (force simp: set_dict_modify dict_insert_def set_insort_key image_image case_prod_unfold split: if_splits)
  have "dict_ok ?new" using assms by (auto simp: fresh_in_def)
  moreover have "v = idx k" if "(k, v) \<in> set ?new" "k \<in> insert name A" for k v
    using assms that by (auto simp: fresh_in_def set_dict_modify dict_insert_def set_insort_key split: if_splits) (metis)
  ultimately have "fresh_in idx (insert name A) ?new"
    using assms keys unfolding fresh_in_def by blast
  moreover have "usteer_interface_add idx name s = Some (s\<lparr>interfaces := ?new, reload_timer := Some 1\<rparr>)"
    by (auto simp: usteer_interface_add_def interface_check_def interface_init_def map_of_eq_None_iff split: option.split
        dest!: map_of_SomeD) (metis fst_conv image_eqI)
  ultimately show ?thesis using keys by blast
qed

lemma interfaces_added:
  assumes "fresh_in idx A (interfaces s)"
  shows "\<exists>t ifs. for_each (usteer_interface_add idx) names s = Some (s\<lparr>interfaces := ifs, reload_timer := t\<rparr>) \<and>
    fresh_in idx (set names \<union> A) ifs"
  using assms
proof (induction names arbitrary: s A)
  case Nil
  then show ?case by (auto intro!: exI [of _ "reload_timer s"] exI [of _ "interfaces s"])
next
  case (Cons name names)
  from fresh_in_add [OF Cons.prems, of name] obtain t ifs where
    u: "usteer_interface_add idx name s = Some (s\<lparr>interfaces := ifs, reload_timer := t\<rparr>)"
      "fresh_in idx (insert name A) (interfaces (s\<lparr>interfaces := ifs, reload_timer := t\<rparr>))" by auto
  from Cons.IH [OF u(2)] u(1) show ?case by auto
qed

lemma interfaces_flushed:
  "for_each (\<lambda>name. interfaces_update_cb idx None (Some name)) gone s =
     Some (s\<lparr>interfaces := filter (\<lambda>(k, _). k \<notin> set gone) (interfaces s)\<rparr>)"
proof (induction gone arbitrary: s)
  case (Cons g gone)
  then show ?case
    by (simp add: interface_free_def dict_delete_def case_prod_unfold conj_commute)
qed simp

lemma set_interfaces_eq:
  assumes "dict_ok (interfaces s)"
  shows "\<exists>t. config_set_interfaces idx (Some names) s = Some (s\<lparr>
    interfaces := map (\<lambda>name. (name, idx name)) (sorted_list_of_set (set names)), reload_timer := t\<rparr>)"
proof -
  have "fresh_in idx {} (interfaces s)" using assms by (simp add: fresh_in_def)
  from interfaces_added [OF this, of names] obtain t ifs where
    add: "for_each (usteer_interface_add idx) names s = Some (s\<lparr>interfaces := ifs, reload_timer := t\<rparr>)"
      "fresh_in idx (set names) ifs" by auto
  let ?gone = "filter (\<lambda>name. name \<notin> set names) (map fst ifs)"
  let ?new = "filter (\<lambda>(k, _). k \<notin> set ?gone) ifs"
  have "?new = map (\<lambda>name. (name, idx name)) (sorted_list_of_set (set names))"
  proof (rule dict_unique)
    show "dict_ok ?new" using add(2) by (auto simp: fresh_in_def dict_ok_def distinct_map_filter sorted_filter)
    show "fst ` set ?new = set names" using add(2) by (force simp: fresh_in_def)
    show "v = idx k" if "(k, v) \<in> set ?new" for k v using add(2) that by (force simp: fresh_in_def)
  qed
  with add(1) have "config_set_interfaces idx (Some names) s = Some (s\<lparr>
      interfaces := map (\<lambda>name. (name, idx name)) (sorted_list_of_set (set names)), reload_timer := t\<rparr>)"
    by (simp add: config_set_interfaces_def interfaces_flushed)
  then show ?thesis by blast
qed

subsection \<open>Vendor element\<close>

lemma hex_digits:
  fixes v :: u8
  shows "unat (drop_bit 4 (v AND 0xF0)) = unat v div 16" "unat (v AND 0x0F) = unat v mod 16"
    "unat (drop_bit 4 v) mod 16 = unat v div 16"
proof -
  have m: "(15 :: u8) = mask 4" by (simp add: mask_eq_exp_minus_1)
  have d: "unat (drop_bit 4 v) = unat v div 16" by (simp add: drop_bit_eq_div unat_div)
  show lo: "unat (w AND 0x0F) = unat w mod 16" for w :: u8
    unfolding m take_bit_eq_mask [symmetric] by (simp add: take_bit_eq_mod unat_mod)
  have "drop_bit 4 (v AND 0xF0) = drop_bit 4 v AND 0x0F" by (simp add: drop_bit_and)
  moreover have "unat v < 256" using unsigned_less [of v, where 'a = nat] by simp
  ultimately show "unat (drop_bit 4 (v AND 0xF0)) = unat v div 16" "unat (drop_bit 4 v) mod 16 = unat v div 16"
    using lo [of "drop_bit 4 v"] d by simp_all
qed

definition hex_string :: "u8 list \<Rightarrow> string" where
  "hex_string bs = concat (map (\<lambda>b. [hex ! (unat b div 16), hex ! (unat b mod 16)]) bs)"

lemma hex_string_simps [simp]:
  "hex_string [] = []" "hex_string (b # bs) = hex ! (unat b div 16) # hex ! (unat b mod 16) # hex_string bs"
  "hex_string (as @ bs) = hex_string as @ hex_string bs" "length (hex_string bs) = 2 * length bs"
  by (simp_all add: hex_string_def length_concat comp_def sum_list_triv)

lemma convert_hex:
  assumes "length mid = 2 * length val" "off = length pre"
  shows "convert_to_hex_string off val (pre @ mid @ post) = Some (pre @ hex_string val @ post)"
  using assms
proof (induction val arbitrary: pre mid off)
  case (Cons v val)
  from Cons.prems(1) obtain a b mid' where mid: "mid = a # b # mid'" "length mid' = 2 * length val"
    by (cases mid; cases "tl mid") auto
  let ?pre = "pre @ [hex ! unat (drop_bit 4 (v AND 0xF0)), hex ! unat (v AND 0x0F)]"
  have "(pre @ mid @ post)[off := hex ! unat (drop_bit 4 (v AND 0xF0)), Suc off := hex ! unat (v AND 0x0F)] =
      ?pre @ mid' @ post"
    using Cons.prems(2) mid(1) by (simp add: list_update_append)
  moreover have "convert_to_hex_string (off + 2) val (?pre @ mid' @ post) = Some (?pre @ hex_string val @ post)"
    by (rule Cons.IH [OF mid(2)]) (use Cons.prems(2) in simp)
  ultimately show ?case using Cons.prems(2) mid(1) by (simp add: hex_digits)
qed simp

lemma convert_hex_out: "length str \<le> Suc off \<Longrightarrow> val \<noteq> [] \<Longrightarrow> convert_to_hex_string off val str = None"
  by (cases val) simp_all

text \<open>The IPv6 addresses of the configured interfaces.\<close>

definition vendor_address :: "(string \<Rightarrow> u32) \<Rightarrow> usteer_state \<Rightarrow> string \<times> ifa_addr \<Rightarrow> u8 list option" where
  "vendor_address idx s x =
     (if interface_find_by_ifindex s (idx (fst x)) = None then None
      else (case snd x of In6 bytes \<Rightarrow> Some bytes | _ \<Rightarrow> None))"

definition vendor_addresses :: "(string \<Rightarrow> u32) \<Rightarrow> usteer_state \<Rightarrow> (string \<times> ifa_addr) list \<Rightarrow> u8 list list" where
  "vendor_addresses idx s ifas = List.map_filter (vendor_address idx s) ifas"

lemma vendor_addresses_simps [simp]:
  "vendor_addresses idx s [] = []"
  "vendor_addresses idx s (x # ifas) =
     (case vendor_address idx s x of
        None \<Rightarrow> vendor_addresses idx s ifas | Some a \<Rightarrow> a # vendor_addresses idx s ifas)"
  by (auto simp: vendor_addresses_def map_filter_simps split: option.split)

lemma vendor_loop_step:
  "vendor_loop idx s (x # ifas) n b =
     (case vendor_address idx s x of
        None \<Rightarrow> vendor_loop idx s ifas n b
      | Some bytes \<Rightarrow> Option.bind (convert_to_hex_string ((unat n + 2) * 2) bytes
            (realloc_string_buffer ((unat (n + 16) + 2) * 2) b)) (vendor_loop idx s ifas (n + 16)))"
  by (cases x) (simp add: vendor_address_def Let_def split: ifa_addr.split)

lemma vendor_loop_ok:
  assumes "\<forall>a \<in> set (vendor_addresses idx s ifas). length a = 16" "length b = (unat n + 2) * 2"
    and "unat n + 16 * length (vendor_addresses idx s ifas) < 256"
  shows "vendor_loop idx s ifas n b = Some (n + of_nat (16 * length (vendor_addresses idx s ifas)),
    b @ hex_string (concat (vendor_addresses idx s ifas)))"
  using assms
proof (induction ifas arbitrary: n b)
  case (Cons x ifas)
  show ?case
  proof (cases "vendor_address idx s x")
    case None
    with Cons show ?thesis by (simp add: vendor_loop_step)
  next
    case (Some bytes)
    with Cons.prems have p: "length bytes = 16" "unat n + 16 < 256"
      "\<forall>a \<in> set (vendor_addresses idx s ifas). length a = 16"
      "unat n + 16 + 16 * length (vendor_addresses idx s ifas) < 256" by auto
    have n: "unat (n + 16) = unat n + 16" using p(2) by (simp add: unat_word_ariths)
    have "convert_to_hex_string ((unat n + 2) * 2) bytes (realloc_string_buffer ((unat (n + 16) + 2) * 2) b) =
        Some (b @ hex_string bytes)"
      using convert_hex [of "replicate 32 (CHR 0x00)" bytes "(unat n + 2) * 2" b "[]"] Cons.prems(2) p(1)
      by (simp add: realloc_string_buffer_def n)
    moreover have "vendor_loop idx s ifas (n + 16) (b @ hex_string bytes) =
        Some (n + 16 + of_nat (16 * length (vendor_addresses idx s ifas)),
          (b @ hex_string bytes) @ hex_string (concat (vendor_addresses idx s ifas)))"
      by (rule Cons.IH) (use p n Cons.prems(2) in simp_all)
    ultimately show ?thesis using Some by (simp add: vendor_loop_step algebra_simps)
  qed
qed simp

text \<open>The address that makes the 8-bit length wrap is written past the end.\<close>

lemma vendor_loop_wraps:
  assumes "\<forall>a \<in> set (vendor_addresses idx s ifas). length a = 16" "length b = (unat n + 2) * 2"
    and "256 \<le> unat n + 16 * length (vendor_addresses idx s ifas)"
  shows "vendor_loop idx s ifas n b = None"
  using assms
proof (induction ifas arbitrary: n b)
  case Nil
  have "unat n < 256" using unsigned_less [of n, where 'a = nat] by simp
  with Nil show ?case by simp
next
  case (Cons x ifas)
  show ?case
  proof (cases "vendor_address idx s x")
    case None
    with Cons show ?thesis by (simp add: vendor_loop_step)
  next
    case (Some bytes)
    with Cons.prems have p: "length bytes = 16" "bytes \<noteq> []"
      "\<forall>a \<in> set (vendor_addresses idx s ifas). length a = 16"
      "256 \<le> unat n + 16 + 16 * length (vendor_addresses idx s ifas)" by auto
    let ?b = "realloc_string_buffer ((unat (n + 16) + 2) * 2) b"
    have "Option.bind (convert_to_hex_string ((unat n + 2) * 2) bytes ?b) (vendor_loop idx s ifas (n + 16)) = None"
    proof (cases "unat n + 16 < 256")
      case True
      then have n: "unat (n + 16) = unat n + 16" by (simp add: unat_word_ariths)
      have "convert_to_hex_string ((unat n + 2) * 2) bytes ?b = Some (b @ hex_string bytes)"
        using convert_hex [of "replicate 32 (CHR 0x00)" bytes "(unat n + 2) * 2" b "[]"] Cons.prems(2) p(1)
        by (simp add: realloc_string_buffer_def n)
      moreover have "vendor_loop idx s ifas (n + 16) (b @ hex_string bytes) = None"
        by (rule Cons.IH) (use p n Cons.prems(2) in simp_all)
      ultimately show ?thesis by simp
    next
      case False
      have "unat n < 256" using unsigned_less [of n, where 'a = nat] by simp
      with False have "unat (n + 16) = unat n + 16 - 256" by (simp add: unat_word_ariths mod_if)
      with \<open>unat n < 256\<close> have "unat (n + 16) \<le> unat n" by simp
      then have "?b = b" using Cons.prems(2) by (simp add: realloc_string_buffer_def)
      moreover have "convert_to_hex_string ((unat n + 2) * 2) bytes b = None"
        by (rule convert_hex_out) (use Cons.prems(2) p(2) in simp_all)
      ultimately show ?thesis by simp
    qed
    then show ?thesis using Some by (simp add: vendor_loop_step)
  qed
qed

lemma vendor_get_eq:
  assumes "\<forall>a \<in> set (vendor_addresses idx s ifas). length a = 16"
  defines "k \<equiv> length (vendor_addresses idx s ifas)"
  shows "usteer_vendor_get idx (Some ifas) s = (if k < 16
    then Some (4 + 16 * int k, hex_string (0xdd # of_nat (4 + 16 * k) # 0xff # 0xda # 0x0c # 0xcc # concat (vendor_addresses idx s ifas)))
    else None)"
proof -
  let ?z = "\<lambda>n. replicate n (CHR 0x00)" and ?oui = "[0xff, 0xda, 0x0c, 0xcc] :: u8 list"
  have "replicate 12 (CHR 0x00) = ?z 2 @ ?z 10" "?z 10 = ?z 2 @ ?z 8 @ []" by (simp_all flip: replicate_add)
  then have b0: "realloc_string_buffer ((4 + 2) * 2) [] = [] @ ?z 2 @ ?z 10" by (simp add: realloc_string_buffer_def)
  have b1: "convert_to_hex_string 0 [0xdd] ([] @ ?z 2 @ ?z 10) = Some ((hex_string [0xdd] @ ?z 2) @ ?z 8 @ [])"
    using \<open>?z 10 = ?z 2 @ ?z 8 @ []\<close> by (subst convert_hex) simp_all
  have b2: "convert_to_hex_string (2 * 2) ?oui ((hex_string [0xdd] @ ?z 2) @ ?z 8 @ []) =
      Some ((hex_string [0xdd] @ ?z 2) @ hex_string ?oui @ [])"
    by (rule convert_hex) simp_all
  let ?b = "(hex_string [0xdd] @ ?z 2) @ hex_string ?oui @ []"
  have len: "length ?b = (unat (4 :: u8) + 2) * 2" by simp
  show ?thesis
  proof (cases "k < 16")
    case True
    let ?n = "4 + of_nat (16 * k) :: u8" and ?as = "hex_string (concat (vendor_addresses idx s ifas))"
    have loop: "vendor_loop idx s ifas 4 ?b = Some (?n, ?b @ ?as)"
      unfolding k_def by (rule vendor_loop_ok [OF assms(1) len]) (use True in \<open>simp add: k_def\<close>)
    have "unat ?n = 4 + 16 * k" using True by (simp add: unat_word_ariths unat_of_nat)
    then have n: "uint ?n = 4 + 16 * int k" by (simp only: uint_nat)
    have b3: "convert_to_hex_string (1 * 2) [?n] (hex_string [0xdd] @ ?z 2 @ hex_string ?oui @ ?as) =
        Some (hex_string [0xdd] @ hex_string [?n] @ hex_string ?oui @ ?as)"
      by (rule convert_hex) simp_all
    show ?thesis
      unfolding usteer_vendor_get_def option.case Let_def b0 b1 b2 Option.bind.simps loop case_prod_conv
      using True b3 n by simp
  next
    case False
    have "vendor_loop idx s ifas 4 ?b = None"
      by (rule vendor_loop_wraps [OF assms(1) len]) (use False in \<open>simp add: k_def\<close>)
    with False show ?thesis
      unfolding usteer_vendor_get_def option.case Let_def b0 b1 b2 Option.bind.simps by simp
  qed
qed

lemma emit_each:
  "fold (\<lambda>x. emit (f x)) xs s = s\<lparr>out := out s @ map f xs\<rparr>"
  by (induction xs arbitrary: s) (simp_all add: emit_def)

section \<open>Properties\<close>

text \<open>
  C27. Configuring the interfaces. From any ordered list of interfaces, a list of names gives exactly the
  interfaces of these names, each once, in the order of the names and with the index the system has for
  it now: missing ones are added, present ones renewed, others removed. Nothing else changes but
  the timer for the socket. An array with an element that is not a string changes nothing.
\<close>

theorem interfaces_configured:
  assumes "dict_ok (interfaces s)"
  shows "(\<exists>t. config_set_interfaces if_nametoindex (Some names) s = Some (s\<lparr>
      interfaces := map (\<lambda>name. (name, if_nametoindex name)) (sorted_list_of_set (set names)), reload_timer := t\<rparr>)) \<and>
    config_set_interfaces if_nametoindex None s = Some s"
  using set_interfaces_eq [OF assms] by (simp add: config_set_interfaces_def)

theorem interfaces_configured_witness:
  "map_option interfaces (config_set_interfaces (\<lambda>n. if n = ''eth0'' then 2 else 5) (Some [''lan'', ''eth0'', ''lan''])
     (network\<lparr>interfaces := [(''wan'', 3)]\<rparr>)) = Some [(''eth0'', 2), (''lan'', 5)]"
proof -
  have "sorted_list_of_set {''lan'', ''eth0''} = [''eth0'', ''lan'']" by code_simp
  with interfaces_configured [of "network\<lparr>interfaces := [(''wan'', 3)]\<rparr>" "\<lambda>n. if n = ''eth0'' then 2 else 5"
      "[''lan'', ''eth0'', ''lan'']"] show ?thesis
    by (auto simp: dict_ok_def insert_commute)
qed



end
