(* ===== verification/Ubus_Config.thy ===== *)
theory Ubus_Config
  imports Handlers Interfaces
begin

text \<open>
  The methods of the ubus object of the daemon (ubus.c): configuration and queries. Arguments are given by
  the attributes that the policies select; a reply is the list of builder calls. What the configuration
  callbacks need from outside (the node handlers, the indices of interfaces, the objects on the bus) is the
  record \<open>cfg_env\<close>.
\<close>

section \<open>Model\<close>

subsection \<open>Configuration\<close>

record cfg_env =
  env_handlers :: "usteer_node_handler list"
  env_nametoindex :: "string \<Rightarrow> u32"
  env_objects :: "(string \<times> u32) list"

text \<open>
  An item: a field of the configuration (getter and setter stand for the pointer) or a pair of callbacks.
\<close>

datatype cfg_item =
  CFG_BOOL string "usteer_config \<Rightarrow> bool" "bool \<Rightarrow> usteer_config \<Rightarrow> usteer_config"
| CFG_I32 string "usteer_config \<Rightarrow> u32" "u32 \<Rightarrow> usteer_config \<Rightarrow> usteer_config"
| CFG_U32 string "usteer_config \<Rightarrow> u32" "u32 \<Rightarrow> usteer_config \<Rightarrow> usteer_config"
| CFG_ARRAY_CB string "usteer_state \<Rightarrow> (string \<times> blobmsg) list option"
    "string list option \<Rightarrow> usteer_state \<Rightarrow> usteer_state option"
| CFG_STRING_CB string "usteer_state \<Rightarrow> (string \<times> blobmsg) list option"
    "string \<Rightarrow> usteer_state \<Rightarrow> usteer_state option"

text \<open>Flushing the old list and building the new one, then looking for nodes again.\<close>

definition config_set_ssid :: "cfg_env \<Rightarrow> string list option \<Rightarrow> usteer_state \<Rightarrow> usteer_state option" where
  "config_set_ssid env data s =
     (case data of
        None \<Rightarrow> Some s
      | Some names \<Rightarrow> usteer_local_nodes_init (env_handlers env) (env_nametoindex env) (env_objects env)
          (s\<lparr>config_ssid_list := Some (build_ssid_list names)\<rparr>))"

text \<open>A list that was never set is a null pointer; a buffer of 33 bytes without a null byte is not a string.\<close>

definition config_get_ssid :: "usteer_state \<Rightarrow> (string \<times> blobmsg) list option" where
  "config_get_ssid s =
     (case config_ssid_list s of
        None \<Rightarrow> None
      | Some us \<Rightarrow> if \<exists>u \<in> set us. 33 \<le> length u then None
          else Some [(''ssid'', Add_array (map (\<lambda>u. ([], Add_string u)) us))])"

definition config_scalars :: "cfg_item list" where
  "config_scalars = [
     CFG_BOOL ''syslog'' syslog (\<lambda>v c. c\<lparr>syslog := v\<rparr>),
     CFG_BOOL ''remote_disabled'' remote_disabled (\<lambda>v c. c\<lparr>remote_disabled := v\<rparr>),
     CFG_U32 ''debug_level'' debug_level (\<lambda>v c. c\<lparr>debug_level := v\<rparr>),
     CFG_U32 ''sta_block_timeout'' sta_block_timeout (\<lambda>v c. c\<lparr>sta_block_timeout := v\<rparr>),
     CFG_U32 ''local_sta_timeout'' local_sta_timeout (\<lambda>v c. c\<lparr>local_sta_timeout := v\<rparr>),
     CFG_U32 ''local_sta_update'' local_sta_update (\<lambda>v c. c\<lparr>local_sta_update := v\<rparr>),
     CFG_U32 ''max_retry_band'' max_retry_band (\<lambda>v c. c\<lparr>max_retry_band := v\<rparr>),
     CFG_U32 ''seen_policy_timeout'' seen_policy_timeout (\<lambda>v c. c\<lparr>seen_policy_timeout := v\<rparr>),
     CFG_U32 ''load_balancing_threshold'' load_balancing_threshold (\<lambda>v c. c\<lparr>load_balancing_threshold := v\<rparr>),
     CFG_U32 ''band_steering_threshold'' band_steering_threshold (\<lambda>v c. c\<lparr>band_steering_threshold := v\<rparr>),
     CFG_U32 ''remote_update_interval'' remote_update_interval (\<lambda>v c. c\<lparr>remote_update_interval := v\<rparr>),
     CFG_I32 ''min_connect_snr'' min_connect_snr (\<lambda>v c. c\<lparr>min_connect_snr := v\<rparr>),
     CFG_I32 ''min_snr'' min_snr (\<lambda>v c. c\<lparr>min_snr := v\<rparr>),
     CFG_I32 ''roam_scan_snr'' roam_scan_snr (\<lambda>v c. c\<lparr>roam_scan_snr := v\<rparr>),
     CFG_U32 ''roam_scan_tries'' roam_scan_tries (\<lambda>v c. c\<lparr>roam_scan_tries := v\<rparr>),
     CFG_U32 ''roam_scan_interval'' roam_scan_interval (\<lambda>v c. c\<lparr>roam_scan_interval := v\<rparr>),
     CFG_I32 ''roam_trigger_snr'' roam_trigger_snr (\<lambda>v c. c\<lparr>roam_trigger_snr := v\<rparr>),
     CFG_U32 ''roam_trigger_interval'' roam_trigger_interval (\<lambda>v c. c\<lparr>roam_trigger_interval := v\<rparr>),
     CFG_U32 ''roam_kick_delay'' roam_kick_delay (\<lambda>v c. c\<lparr>roam_kick_delay := v\<rparr>),
     CFG_U32 ''signal_diff_threshold'' signal_diff_threshold (\<lambda>v c. c\<lparr>signal_diff_threshold := v\<rparr>),
     CFG_U32 ''initial_connect_delay'' initial_connect_delay (\<lambda>v c. c\<lparr>initial_connect_delay := v\<rparr>),
     CFG_BOOL ''load_kick_enabled'' load_kick_enabled (\<lambda>v c. c\<lparr>load_kick_enabled := v\<rparr>),
     CFG_U32 ''load_kick_threshold'' load_kick_threshold (\<lambda>v c. c\<lparr>load_kick_threshold := v\<rparr>),
     CFG_U32 ''load_kick_delay'' load_kick_delay (\<lambda>v c. c\<lparr>load_kick_delay := v\<rparr>),
     CFG_U32 ''load_kick_min_clients'' load_kick_min_clients (\<lambda>v c. c\<lparr>load_kick_min_clients := v\<rparr>),
     CFG_U32 ''load_kick_reason_code'' load_kick_reason_code (\<lambda>v c. c\<lparr>load_kick_reason_code := v\<rparr>),
     CFG_U32 ''kick_client_active_sec'' kick_client_active_sec (\<lambda>v c. c\<lparr>kick_client_active_sec := v\<rparr>),
     CFG_U32 ''kick_client_active_bits'' kick_client_active_bits (\<lambda>v c. c\<lparr>kick_client_active_bits := v\<rparr>),
     CFG_U32 ''beacon_report_invalide_timeout'' beacon_report_invalide_timeout (\<lambda>v c. c\<lparr>beacon_report_invalide_timeout := v\<rparr>),
     CFG_U32 ''beacon_request_frequency'' beacon_request_frequency (\<lambda>v c. c\<lparr>beacon_request_frequency := v\<rparr>),
     CFG_U32 ''beacon_request_signal_modifier'' beacon_request_signal_modifier (\<lambda>v c. c\<lparr>beacon_request_signal_modifier := v\<rparr>)]"

definition config_data :: "cfg_env \<Rightarrow> cfg_item list" where
  "config_data env = config_scalars @ [
     CFG_ARRAY_CB ''interfaces'' (\<lambda>s. Some [config_get_interfaces s]) (config_set_interfaces (env_nametoindex env)),
     CFG_ARRAY_CB ''ssid'' config_get_ssid (config_set_ssid env),
     CFG_STRING_CB ''node_up_script'' (\<lambda>s. Some (config_get_node_up_script s)) (\<lambda>v s. Some (config_set_node_up_script v s))]"

fun get_item :: "usteer_state \<Rightarrow> cfg_item \<Rightarrow> (string \<times> blobmsg) list option" where
  "get_item s (CFG_BOOL name ptr _) = Some [(name, Add_u8 (if ptr (config s) then 1 else 0))]"
| "get_item s (CFG_I32 name ptr _) = Some [(name, Add_u32 (ptr (config s)))]"
| "get_item s (CFG_U32 name ptr _) = Some [(name, Add_u32 (ptr (config s)))]"
| "get_item s (CFG_ARRAY_CB name cb _) = cb s"
| "get_item s (CFG_STRING_CB name cb _) = cb s"

definition usteer_ubus_get_config :: "cfg_env \<Rightarrow> usteer_state \<Rightarrow> usteer_state option" where
  "usteer_ubus_get_config env s = do {
     fields \<leftarrow> those (map (get_item s) (config_data env));
     Some (emit (Ubus_reply (concat fields)) s)
   }"

text \<open>
  The parsed message: the attributes of each type by name. An array is \<^term>\<open>None\<close> inside when an element is not a string.
\<close>

record config_msg =
  cm_u8 :: "string \<Rightarrow> u8 option"
  cm_u32 :: "string \<Rightarrow> u32 option"
  cm_array :: "string \<Rightarrow> string list option option"
  cm_string :: "string \<Rightarrow> string option"

fun set_item :: "config_msg \<Rightarrow> cfg_item \<Rightarrow> usteer_state \<Rightarrow> usteer_state option" where
  "set_item tb (CFG_BOOL name _ ptr) s =
     (case cm_u8 tb name of None \<Rightarrow> Some s | Some v \<Rightarrow> Some (s\<lparr>config := ptr (v \<noteq> 0) (config s)\<rparr>))"
| "set_item tb (CFG_I32 name _ ptr) s =
     (case cm_u32 tb name of None \<Rightarrow> Some s | Some v \<Rightarrow> Some (s\<lparr>config := ptr v (config s)\<rparr>))"
| "set_item tb (CFG_U32 name _ ptr) s =
     (case cm_u32 tb name of None \<Rightarrow> Some s | Some v \<Rightarrow> Some (s\<lparr>config := ptr v (config s)\<rparr>))"
| "set_item tb (CFG_ARRAY_CB name _ cb) s = (case cm_array tb name of None \<Rightarrow> Some s | Some v \<Rightarrow> cb v s)"
| "set_item tb (CFG_STRING_CB name _ cb) s = (case cm_string tb name of None \<Rightarrow> Some s | Some v \<Rightarrow> cb v s)"

definition usteer_ubus_set_config ::
    "cfg_env \<Rightarrow> string \<Rightarrow> config_msg \<Rightarrow> usteer_state \<Rightarrow> usteer_state option" where
  "usteer_ubus_set_config env method msg s =
     (let s = (if method = ''set_config'' then s\<lparr>config := usteer_init_defaults\<rparr> else s)
      in for_each (set_item msg) (config_data env) s)"

subsection \<open>Queries\<close>

definition client_entry :: "usteer_state \<Rightarrow> nat \<Rightarrow> (string \<times> blobmsg) option" where
  "client_entry s a = do {
     si \<leftarrow> si_heap s a;
     name \<leftarrow> usteer_node_name s (si_node si);
     Some (name, Add_table [(''connected'', Add_u8 (ucast (si_connected si))), (''signal'', Add_u32 (si_signal si))])
   }"

definition usteer_ubus_get_clients :: "usteer_state \<Rightarrow> usteer_state option" where
  "usteer_ubus_get_clients s = do {
     rows \<leftarrow> those (map (\<lambda>(_, st). map_option (\<lambda>es. (mac_addr_fmt (st_addr st), Add_table es))
               (those (map (client_entry s) (st_nodes st)))) (stations s));
     Some (emit (Ubus_reply rows) s)
   }"

definition usteer_ubus_add_stats :: "sta_info_stats \<Rightarrow> string \<Rightarrow> string \<times> blobmsg" where
  "usteer_ubus_add_stats st name =
     (name, Add_table [(''requests'', Add_u32 (requests st)), (''blocked_cur'', Add_u32 (blocked_cur st)),
        (''blocked_total'', Add_u32 (blocked_total st))])"

definition client_info_entry :: "(mac \<Rightarrow> string) \<Rightarrow> usteer_state \<Rightarrow> nat \<Rightarrow> (string \<times> blobmsg) option" where
  "client_info_entry ether_ntoa s a = do {
     si \<leftarrow> si_heap s a;
     name \<leftarrow> usteer_node_name s (si_node si);
     nd \<leftarrow> get_node s (si_node si);
     st \<leftarrow> get_stats si EVENT_TYPE_PROBE;
     rest \<leftarrow> (if node_type nd = NODE_TYPE_LOCAL \<and> si_connected si \<noteq> 0
             then do {
               bits \<leftarrow> usteer_get_client_active_bits (config s) si;
               Some [(''average_data_rate'', Add_u64 bits), usteer_ubus_hearing_map ether_ntoa s si]
             }
             else Some []);
     Some (name, Add_table ([(''connected'', Add_u8 (ucast (si_connected si))), (''signal'', Add_u32 (si_signal si)),
       (''stats'', Add_table (map (usteer_ubus_add_stats st) event_types))] @ rest))
   }"

definition UBUS_STATUS_NOT_FOUND :: nat where "UBUS_STATUS_NOT_FOUND = 4"

definition usteer_ubus_get_client_info ::
    "(string \<Rightarrow> mac option) \<Rightarrow> (mac \<Rightarrow> string) \<Rightarrow> string option \<Rightarrow> usteer_state \<Rightarrow> (nat \<times> usteer_state) option" where
  "usteer_ubus_get_client_info ether_aton ether_ntoa mac_str s =
     (case Option.bind mac_str ether_aton of
        None \<Rightarrow> Some (UBUS_STATUS_INVALID_ARGUMENT, s)
      | Some mac \<Rightarrow>
          (case fst (usteer_sta_get mac False s) of
             None \<Rightarrow> Some (UBUS_STATUS_NOT_FOUND, s)
           | Some m \<Rightarrow> do {
               st \<leftarrow> get_sta s m;
               nodes \<leftarrow> those (map (client_info_entry ether_ntoa s) (st_nodes st));
               Some (0, emit (Ubus_reply [(''2ghz'', Add_u8 (if st_seen_2ghz st then 1 else 0)),
                 (''5ghz'', Add_u8 (if st_seen_5ghz st then 1 else 0)), (''nodes'', Add_table nodes)]) s)
             }))"

definition usteer_dump_node_info :: "string \<Rightarrow> usteer_node \<Rightarrow> string \<times> blobmsg" where
  "usteer_dump_node_info name node =
     (name, Add_table ([(''freq'', Add_u32 (node_freq node)), (''n_assoc'', Add_u32 (node_n_assoc node)),
        (''noise'', Add_u32 (node_noise node)), (''load'', Add_u32 (node_load node)),
        (''max_assoc'', Add_u32 (node_max_assoc node))] @
        (case node_rrm_nr node of None \<Rightarrow> [] | Some nr \<Rightarrow> [(''rrm_nr'', Add_field nr)])))"

definition usteer_ubus_local_info :: "usteer_state \<Rightarrow> usteer_state" where
  "usteer_ubus_local_info s =
     emit (Ubus_reply (map (\<lambda>(n, l). usteer_dump_node_info n (ln_node l)) (local_nodes s))) s"

definition usteer_ubus_remote_info :: "usteer_state \<Rightarrow> usteer_state" where
  "usteer_ubus_remote_info s =
     emit (Ubus_reply (map (\<lambda>(_, rn). usteer_dump_node_info (rn_full_name rn) (rn_node rn)) (remote_nodes s))) s"

section \<open>Lemmas\<close>

subsection \<open>Only nodes and messages change\<close>

definition only_nodes :: "usteer_state \<Rightarrow> usteer_state \<Rightarrow> bool" where
  "only_nodes s s' \<longleftrightarrow> (\<exists>l ou. s' = s\<lparr>local_nodes := l, out := ou\<rparr>)"

lemma only_nodes_trans: "only_nodes s t \<Longrightarrow> only_nodes t u \<Longrightarrow> only_nodes s u"
  by (auto simp: only_nodes_def) blast

lemma only_nodes_step: "handler_step n s s' \<Longrightarrow> only_nodes s s'"
  by (auto simp: handler_step_def only_nodes_def upd_local_def)

lemma only_nodes_emit: "only_nodes s (emit x s)"
  by (rule only_nodes_step [OF handler_step_emit])

lemma only_nodes_frame:
  assumes "only_nodes s s'"
  shows "config s' = config s" "interfaces s' = interfaces s" "config_ssid_list s' = config_ssid_list s"
    "node_up_script s' = node_up_script s" "si_heap s' = si_heap s" "stations s' = stations s"
  using assms by (auto simp: only_nodes_def)

lemma only_nodes_get_node: "only_nodes s (usteer_get_node name s)"
proof (cases "get_local s name")
  case None
  let ?l = "dict_insert name (calloc_local_node\<lparr>ln_update_timer := Some 1\<rparr>) (local_nodes s)"
  have "usteer_get_node name s = s\<lparr>local_nodes := ?l, out := out s @ [Ubus_register name]\<rparr>"
    using None by (simp add: usteer_get_node_def emit_def)
  then show ?thesis unfolding only_nodes_def by blast
next
  case (Some l)
  then show ?thesis using only_nodes_step [OF handler_step_refl] by (simp add: usteer_get_node_def)
qed

lemma get_node_alive: "get_local s name = None \<Longrightarrow> name \<notin> fst ` set (local_nodes s)"
  by (simp add: get_local_def map_of_eq_None_iff)

lemma usteer_get_node_alive: "get_local (usteer_get_node name s) name \<noteq> None"
  using get_node_alive [of s name] by (auto simp: usteer_get_node_def get_local_def split: option.split)

lemma run_script_only_nodes: "only_nodes s (usteer_node_run_update_script l s)"
  by (auto simp: usteer_node_run_update_script_def only_nodes_emit split: option.split
      intro: only_nodes_step [OF handler_step_refl])

context handler_contract
begin

lemma register_only_nodes:
  assumes "usteer_register_node hs idx obj s = Some s'"
  shows "only_nodes s s'"
proof -
  obtain name i where obj: "obj = (name, i)" by fastforce
  show ?thesis
  proof (cases "take 8 name = ''hostapd.''")
    case False
    then show ?thesis using assms only_nodes_step [OF handler_step_refl] by (simp add: usteer_register_node_def obj)
  next
    case True
    let ?f = "\<lambda>l. l\<lparr>ln_obj_id := i, ln_iface := drop 8 name, ln_ifindex := idx (drop 8 name)\<rparr>"
    let ?n1 = "Ubus_invoke i ''notify_response'' [(''notify_response'', Add_u32 1)]"
    let ?n2 = "Ubus_invoke i ''bss_mgmt_enable''
      [(''neighbor_report'', Add_u8 1), (''beacon_report'', Add_u8 1), (''bss_transition'', Add_u8 1)]"
    let ?u = "upd_local name ?f (usteer_get_node name s)"
    let ?t = "emit (Ubus_subscribe name i) (emit ?n2 (emit ?n1 ?u))"
    have "handler_step name (usteer_get_node name s) ?u" by (rule handler_step_upd) simp
    then have step: "handler_step name (usteer_get_node name s) ?t"
      by (blast intro: handler_step_trans handler_step_emit)
    from init_handlers [OF handler_step_alive [OF step usteer_get_node_alive]] obtain t where
      t: "call_handlers h_init_node hs name ?t = Some t" "handler_step name ?t t" by blast
    from assms True t(1) obtain l where "s' = usteer_node_run_update_script l t"
      by (auto simp: usteer_register_node_def obj Let_def bind_eq_Some_conv)
    with run_script_only_nodes only_nodes_step [OF t(2)] only_nodes_step [OF step] only_nodes_get_node
    show ?thesis by (blast intro: only_nodes_trans)
  qed
qed

lemma nodes_init_only_nodes:
  assumes "usteer_local_nodes_init hs idx objs s = Some s'"
  shows "only_nodes s s'"
proof -
  let ?s = "emit (Ubus_lookup ''hostapd.*'') (usteer_register_events s)"
  have e: "only_nodes s ?s" unfolding usteer_register_events_def
    by (rule only_nodes_trans [OF only_nodes_emit only_nodes_emit])
  from assms have "for_each (node_list_cb hs idx) objs ?s = Some s'"
    by (simp add: usteer_local_nodes_init_def Let_def)
  from for_each_invariant [OF this, of "only_nodes s"] e show ?thesis
    using register_only_nodes by (metis node_list_cb_def only_nodes_trans)
qed

end

lemma nodes_started:
  assumes "avl_dups_tree ins" "wf_state s"
  shows "\<exists>s'. usteer_local_nodes_init (node_handlers K ins rd lookup_id) idx objs s = Some s' \<and> wf_state s' \<and> only_nodes s s'"
proof -
  note hc = node_handlers_contract [OF assms(1), of K rd lookup_id]
  from handler_contract.nodes_init_total [OF hc assms(2), of idx objs] obtain s' where
    s': "usteer_local_nodes_init (node_handlers K ins rd lookup_id) idx objs s = Some s'" "wf_state s'" by blast
  with handler_contract.nodes_init_only_nodes [OF hc s'(1)] show ?thesis by simp
qed

subsection \<open>Reading a reply back\<close>

definition reply_msg :: "(string \<times> blobmsg) list \<Rightarrow> config_msg" where
  "reply_msg r = \<lparr>
     cm_u8 = (\<lambda>n. case map_of r n of Some (Add_u8 v) \<Rightarrow> Some v | _ \<Rightarrow> None),
     cm_u32 = (\<lambda>n. case map_of r n of Some (Add_u32 v) \<Rightarrow> Some v | _ \<Rightarrow> None),
     cm_array = (\<lambda>n. case map_of r n of
        Some (Add_array xs) \<Rightarrow> Some (those (map (\<lambda>(_, x). case x of Add_string t \<Rightarrow> Some t | _ \<Rightarrow> None) xs)) | _ \<Rightarrow> None),
     cm_string = (\<lambda>n. case map_of r n of Some (Add_string t) \<Rightarrow> Some t | _ \<Rightarrow> None)\<rparr>"

fun item_name :: "cfg_item \<Rightarrow> string" where
  "item_name (CFG_BOOL n _ _) = n"
| "item_name (CFG_I32 n _ _) = n"
| "item_name (CFG_U32 n _ _) = n"
| "item_name (CFG_ARRAY_CB n _ _) = n"
| "item_name (CFG_STRING_CB n _ _) = n"

fun item_value :: "usteer_config \<Rightarrow> cfg_item \<Rightarrow> blobmsg" where
  "item_value c (CFG_BOOL _ g _) = Add_u8 (if g c then 1 else 0)"
| "item_value c (CFG_I32 _ g _) = Add_u32 (g c)"
| "item_value c (CFG_U32 _ g _) = Add_u32 (g c)"
| "item_value c _ = Add_u8 0"

text \<open>Copying the field of an item from one configuration to another.\<close>

fun copy_item :: "usteer_config \<Rightarrow> cfg_item \<Rightarrow> usteer_config \<Rightarrow> usteer_config" where
  "copy_item c (CFG_BOOL _ g p) d = p (g c) d"
| "copy_item c (CFG_I32 _ g p) d = p (g c) d"
| "copy_item c (CFG_U32 _ g p) d = p (g c) d"
| "copy_item c _ d = d"

fun is_scalar :: "cfg_item \<Rightarrow> bool" where
  "is_scalar (CFG_ARRAY_CB _ _ _) = False"
| "is_scalar (CFG_STRING_CB _ _ _) = False"
| "is_scalar _ = True"

lemma scalars: "\<forall>it \<in> set config_scalars. is_scalar it"
  by (simp add: config_scalars_def)

lemma config_names: "distinct (map item_name config_scalars @ [''interfaces'', ''ssid'', ''node_up_script''])"
  by code_simp

lemma get_scalars:
  assumes "\<forall>it \<in> set items. is_scalar it"
  shows "map (get_item s) items = map (\<lambda>it. Some [(item_name it, item_value (config s) it)]) items"
proof -
  have "get_item s it = Some [(item_name it, item_value (config s) it)]" if "is_scalar it" for it
    using that by (cases it) simp_all
  with assms show ?thesis by simp
qed

lemma those_Some: "those (map (\<lambda>x. Some (f x)) xs) = Some (map f xs)"
  by (induction xs) simp_all

lemma those_append: "those (xs @ ys) = Option.bind (those xs) (\<lambda>as. map_option (\<lambda>bs. as @ bs) (those ys))"
  by (cases "those ys"; induction xs) (auto split: option.split Option.bind_split)

definition config_fields :: "usteer_state \<Rightarrow> string list \<Rightarrow> (string \<times> blobmsg) list" where
  "config_fields s us = map (\<lambda>it. (item_name it, item_value (config s) it)) config_scalars @
     [config_get_interfaces s, (''ssid'', Add_array (map (\<lambda>u. ([], Add_string u)) us))] @ config_get_node_up_script s"

lemma concat_single: "concat (map (\<lambda>x. [f x]) xs) = map f xs"
  by (induction xs) simp_all

lemma get_config_eq:
  "usteer_ubus_get_config env s =
     (case config_ssid_list s of
        None \<Rightarrow> None
      | Some us \<Rightarrow> if \<exists>u \<in> set us. 33 \<le> length u then None else Some (emit (Ubus_reply (config_fields s us)) s))"
proof -
  have "those (map (get_item s) (config_data env)) =
      map_option (\<lambda>f. map (\<lambda>it. [(item_name it, item_value (config s) it)]) config_scalars @
        [[config_get_interfaces s], f, config_get_node_up_script s]) (config_get_ssid s)"
    unfolding config_data_def map_append get_scalars [OF scalars] those_append those_Some by (simp split: option.split)
  then show ?thesis
    by (auto simp: usteer_ubus_get_config_def config_fields_def config_get_ssid_def concat_single split: option.split)
qed

lemma map_of_items:
  assumes "distinct (map item_name items)" "it \<in> set items"
  shows "map_of (map (\<lambda>it. (item_name it, f it)) items @ rest) (item_name it) = Some (f it)"
  using assms by (induction items) (auto, metis image_eqI, metis image_eqI)

lemma set_scalars:
  assumes "\<forall>it \<in> set items. is_scalar it \<and> map_of r (item_name it) = Some (item_value c it)"
  shows "for_each (set_item (reply_msg r)) items t = Some (t\<lparr>config := fold (copy_item c) items (config t)\<rparr>)"
  using assms
proof (induction items arbitrary: t)
  case (Cons it items)
  then have "set_item (reply_msg r) it t = Some (t\<lparr>config := copy_item c it (config t)\<rparr>)"
    by (cases it) (auto simp: reply_msg_def)
  with Cons show ?case by simp
qed simp

text \<open>All fields but two are items.\<close>

lemma copy_all:
  "fold (copy_item c) config_scalars d =
     c\<lparr>vendor_update_interval := vendor_update_interval d, remote_node_timeout := remote_node_timeout d\<rparr>"
  by (simp add: config_scalars_def)

lemma script_set_frame:
  "only_nodes (s\<lparr>node_up_script := node_up_script (config_set_node_up_script v s)\<rparr>) (config_set_node_up_script v s)"
  "v \<noteq> [] \<Longrightarrow> node_up_script (config_set_node_up_script v s) = Some v"
  "wf_state (config_set_node_up_script v s) = wf_state s"
proof -
  have run: "\<exists>ou. fold (\<lambda>(_, l). usteer_node_run_update_script l) ls t = t\<lparr>out := ou\<rparr>" for ls t
  proof (induction ls arbitrary: t)
    case Nil
    show ?case by (auto intro!: exI [of _ "out t"])
  next
    case (Cons x ls)
    obtain ou where "usteer_node_run_update_script (snd x) t = t\<lparr>out := ou\<rparr>"
      using that [of "case node_up_script t of None \<Rightarrow> out t
        | Some script \<Rightarrow> out t @ [System (script @ '' '' @ [CHR 0x27] @ ln_iface (snd x) @ [CHR 0x27])]"]
      by (simp add: usteer_node_run_update_script_def emit_def split: option.splits)
    with Cons [of "t\<lparr>out := ou\<rparr>"] show ?case by (simp add: case_prod_unfold)
  qed
  then obtain ou where ou: "fold (\<lambda>(_, l). usteer_node_run_update_script l) (local_nodes s) (s\<lparr>node_up_script := Some v\<rparr>) =
    s\<lparr>node_up_script := Some v, out := ou\<rparr>" by fastforce
  let ?ou = "if node_up_script s = Some v \<or> v = [] then out s else ou"
  have eq: "config_set_node_up_script v s =
    s\<lparr>node_up_script := node_up_script (config_set_node_up_script v s), out := ?ou\<rparr>"
    using ou by (simp add: config_set_node_up_script_def)
  show "only_nodes (s\<lparr>node_up_script := node_up_script (config_set_node_up_script v s)\<rparr>) (config_set_node_up_script v s)"
    unfolding only_nodes_def by (rule exI [of _ "local_nodes s"], rule exI [of _ ?ou], rule trans [OF eq]) simp
  show "v \<noteq> [] \<Longrightarrow> node_up_script (config_set_node_up_script v s) = Some v"
    using ou by (simp add: config_set_node_up_script_def)
  have "wf_state (s\<lparr>node_up_script := x, out := y\<rparr>) = wf_state s" for x y
    by (rule wf_same_data) simp_all
  then show "wf_state (config_set_node_up_script v s) = wf_state s" by (subst eq) simp
qed


subsection \<open>Queries\<close>

lemma entry_parts:
  assumes wf: "wf_state s" and si: "si_heap s a = Some si"
  shows "\<exists>nd name. get_node s (si_node si) = Some nd \<and> usteer_node_name s (si_node si) = Some name"
    and "length (si_stats si) = 4"
proof -
  have ok: "si_ok s" using wf by (simp add: wf_state_def wf_core_def)
  then have "get_node s (si_node si) \<noteq> None" using si by (auto simp: si_ok_def node_view_def)
  then show "\<exists>nd name. get_node s (si_node si) = Some nd \<and> usteer_node_name s (si_node si) = Some name"
    using node_name_live by blast
  show "length (si_stats si) = 4" using ok si by (simp add: si_ok_def)
qed

lemma station_entries:
  assumes wf: "wf_state s" and st: "get_sta s m = Some st" and a: "a \<in> set (st_nodes st)"
  obtains si where "si_heap s a = Some si" "si_sta si = m"
  using wf_core_sta(2) [of s m st a] assms by (auto simp: wf_state_def)

lemma stations_mem: "wf_state s \<Longrightarrow> (m, st) \<in> set (stations s) \<longleftrightarrow> get_sta s m = Some st"
  by (auto simp: get_sta_def wf_state_def wf_core_def keys_ok_def dict_ok_def)

lemma station_addr: "wf_state s \<Longrightarrow> get_sta s m = Some st \<Longrightarrow> st_addr st = m"
  by (auto simp: wf_state_def wf_core_def sta_ok_def sta_view_def)

definition client_row :: "usteer_state \<Rightarrow> mac \<times> sta \<Rightarrow> (string \<times> blobmsg) option" where
  "client_row s x = map_option (\<lambda>es. (mac_addr_fmt (st_addr (snd x)), Add_table es))
     (those (map (client_entry s) (st_nodes (snd x))))"

lemma get_clients_rows:
  "usteer_ubus_get_clients s = Option.bind (those (map (client_row s) (stations s))) (\<lambda>rows. Some (emit (Ubus_reply rows) s))"
  by (simp add: usteer_ubus_get_clients_def client_row_def [abs_def] case_prod_unfold)

lemma client_entry_total: "wf_state s \<Longrightarrow> si_heap s a \<noteq> None \<Longrightarrow> client_entry s a \<noteq> None"
  using entry_parts(1) by (fastforce simp: client_entry_def)

lemma client_row_eq:
  assumes wf: "wf_state s" and x: "(m, st) \<in> set (stations s)"
  shows "client_row s (m, st) = Some (mac_addr_fmt m, Add_table (map (the \<circ> client_entry s) (st_nodes st)))"
proof -
  have st: "get_sta s m = Some st" using stations_mem [OF wf] x by simp
  have "those (map (client_entry s) (st_nodes st)) = Some (map (the \<circ> client_entry s) (st_nodes st))"
    by (rule those_total) (metis client_entry_total [OF wf] station_entries [OF wf st] option.distinct(1))
  then show ?thesis using station_addr [OF wf st] by (simp add: client_row_def)
qed

lemma client_info_entry_total:
  assumes wf: "wf_state s" and si: "si_heap s a = Some si" and sec: "kick_client_active_sec (config s) \<noteq> 0"
  shows "\<exists>name rest. client_info_entry ether_ntoa s a = Some (name, Add_table
      ([(''connected'', Add_u8 (ucast (si_connected si))), (''signal'', Add_u32 (si_signal si)),
        (''stats'', Add_table (map (usteer_ubus_add_stats (si_stats si ! event_index EVENT_TYPE_PROBE)) event_types))] @ rest)) \<and>
    usteer_node_name s (si_node si) = Some name"
proof -
  from entry_parts(1) [OF wf si] obtain nd name where
    "get_node s (si_node si) = Some nd" "usteer_node_name s (si_node si) = Some name" by blast
  moreover have "get_stats si EVENT_TYPE_PROBE = Some (si_stats si ! event_index EVENT_TYPE_PROBE)"
    using entry_parts(2) [OF wf si] by (simp add: get_stats_def)
  moreover obtain bits where "usteer_get_client_active_bits (config s) si = Some bits"
    using sec by (simp add: usteer_get_client_active_bits_def Let_def)
  ultimately show ?thesis using si by (simp add: client_info_entry_def)
qed

subsection \<open>An answer of \<^verbatim>\<open>get_config\<close> as a message for \<^verbatim>\<open>set_config\<close>\<close>

lemma reply_scalars:
  "for_each (set_item (reply_msg (config_fields s us))) config_scalars (t\<lparr>config := usteer_init_defaults\<rparr>) =
     Some (t\<lparr>config := fold (copy_item (config s)) config_scalars usteer_init_defaults\<rparr>)"
proof -
  have "distinct (map item_name config_scalars)" using config_names by simp
  then have "map_of (config_fields s us) (item_name it) = Some (item_value (config s) it)" if "it \<in> set config_scalars" for it
    unfolding config_fields_def by (rule map_of_items [OF _ that])
  with set_scalars [of config_scalars "config_fields s us" "config s" "t\<lparr>config := usteer_init_defaults\<rparr>"] scalars
  show ?thesis by simp
qed

lemma reply_rest:
  "cm_array (reply_msg (config_fields s us)) ''interfaces'' = Some (Some (map fst (interfaces s)))"
  "cm_array (reply_msg (config_fields s us)) ''ssid'' = Some (Some us)"
  "cm_string (reply_msg (config_fields s us)) ''node_up_script'' = node_up_script s"
proof -
  have look: "map_of (config_fields s us) n = map_of ([config_get_interfaces s,
      (''ssid'', Add_array (map (\<lambda>u. ([], Add_string u)) us))] @ config_get_node_up_script s) n"
    if "n \<in> {''interfaces'', ''ssid'', ''node_up_script''}" for n
  proof -
    have "n \<notin> item_name ` set config_scalars" using that config_names by (elim insertE emptyE) simp_all
    then have "map_of (map (\<lambda>it. (item_name it, item_value (config s) it)) config_scalars) n = None"
      by (auto simp: map_of_eq_None_iff image_image)
    then show ?thesis unfolding config_fields_def by (simp add: map_add_def)
  qed
  show "cm_array (reply_msg (config_fields s us)) ''interfaces'' = Some (Some (map fst (interfaces s)))"
    "cm_array (reply_msg (config_fields s us)) ''ssid'' = Some (Some us)"
    "cm_string (reply_msg (config_fields s us)) ''node_up_script'' = node_up_script s"
    using those_Some [of fst "interfaces s"] those_Some [of "\<lambda>u. u" us]
    by (simp_all add: reply_msg_def look config_get_interfaces_def config_get_node_up_script_def comp_def case_prod_unfold
        split: option.split)
qed

lemma callbacks_set:
  assumes "avl_dups_tree ins" "wf_state t" "dict_ok (interfaces t)" "dict_ok (interfaces s)"
    and "\<forall>u \<in> set us. length u < 33" "env_handlers env = node_handlers K ins rd lookup_id"
  shows "\<exists>t2 t3. config_set_interfaces (env_nametoindex env) (Some (map fst (interfaces s))) t = Some t2 \<and>
    config_set_ssid env (Some us) t2 = Some t3 \<and> wf_state t3 \<and> config t3 = config t \<and>
    map fst (interfaces t3) = map fst (interfaces s) \<and> config_ssid_list t3 = Some (rev us)"
proof -
  let ?idx = "env_nametoindex env"
  have keys: "sorted_list_of_set (set (map fst (interfaces s))) = map fst (interfaces s)"
    by (rule sorted_list_of_set.idem_if_sorted_distinct) (use assms(4) in \<open>simp_all add: dict_ok_def\<close>)
  obtain rt where t2: "config_set_interfaces ?idx (Some (map fst (interfaces s))) t = Some (t\<lparr>
      interfaces := map (\<lambda>name. (name, ?idx name)) (map fst (interfaces s)), reload_timer := rt\<rparr>)" (is "_ = Some ?t2")
    using set_interfaces_eq [of t ?idx "map fst (interfaces s)"] assms(3) keys by auto
  let ?t2s = "?t2\<lparr>config_ssid_list := Some (build_ssid_list us)\<rparr>"
  have "wf_state ?t2s = wf_state t" by (rule wf_same_data) simp_all
  with assms(2) have "wf_state ?t2s" by simp
  from nodes_started [OF assms(1) this, of K rd lookup_id ?idx "env_objects env"] obtain t3 where
    t3: "config_set_ssid env (Some us) ?t2 = Some t3" "wf_state t3" "only_nodes ?t2s t3"
    using assms(6) by (auto simp: config_set_ssid_def)
  have "map ssid_buffer us = us" by (rule map_idI) (use assms(5) in \<open>fastforce simp: ssid_buffer_def\<close>)
  then have "build_ssid_list us = rev us" by (simp add: build_ssid_list_eq)
  with only_nodes_frame [OF t3(3)] t2 t3(1,2) show ?thesis by (auto simp: comp_def)
qed

section \<open>Properties\<close>

text \<open>
  C30. The list of clients. On a well-formed state the query is defined and only sends its reply, which has one
  table per known station, in the order of their addresses; the table of a station has, for every entry of
  the station, the name of the node with the connection state and the signal of the entry.
\<close>

theorem clients_listed:
  assumes "wf_state s"
  shows "\<exists>rows. usteer_ubus_get_clients s = Some (emit (Ubus_reply rows) s) \<and>
    map fst rows = map (mac_addr_fmt \<circ> fst) (stations s) \<and>
    (\<forall>m r a si. entry s m r = Some a \<and> si_heap s a = Some si \<longrightarrow>
      (\<exists>es name. (mac_addr_fmt m, Add_table es) \<in> set rows \<and> usteer_node_name s r = Some name \<and>
        (name, Add_table [(''connected'', Add_u8 (ucast (si_connected si))), (''signal'', Add_u32 (si_signal si))]) \<in> set es))"
proof -
  let ?row = "\<lambda>(m, st). (mac_addr_fmt m, Add_table (map (the \<circ> client_entry s) (st_nodes st)))"
  let ?rows = "map ?row (stations s)"
  have "client_row s x = Some (?row x)" if "x \<in> set (stations s)" for x
    using client_row_eq [OF assms] that by (cases x) simp
  then have "map (client_row s) (stations s) = map (\<lambda>x. Some (?row x)) (stations s)" by simp
  with get_clients_rows [of s] have "usteer_ubus_get_clients s = Some (emit (Ubus_reply ?rows) s)"
    by (simp only: those_Some Option.bind.simps)
  moreover have "map fst ?rows = map (mac_addr_fmt \<circ> fst) (stations s)" by (simp add: case_prod_unfold comp_def)
  moreover have "\<exists>es name. (mac_addr_fmt m, Add_table es) \<in> set ?rows \<and> usteer_node_name s r = Some name \<and>
        (name, Add_table [(''connected'', Add_u8 (ucast (si_connected si))), (''signal'', Add_u32 (si_signal si))]) \<in> set es"
    if "entry s m r = Some a \<and> si_heap s a = Some si" for m r a si
  proof -
    have core: "wf_core s" using assms by (simp add: wf_state_def)
    have e: "si_sta si = m" "si_node si = r" using entry_iff [OF core, of m r a] that by auto
    from entry_parts(1) [OF assms, of a si] that e obtain name where name: "usteer_node_name s r = Some name" by auto
    have "sta_view s m \<noteq> None" using core that e by (auto simp: wf_core_def si_ok_def)
    then obtain st where st: "get_sta s m = Some st" by (auto simp: sta_view_def)
    have a: "a \<in> set (st_nodes st)" using wf_core_sta(2) [OF core st] that e by blast
    have "(m, st) \<in> set (stations s)" using stations_mem [OF assms] st by simp
    then have row: "(mac_addr_fmt m, Add_table (map (the \<circ> client_entry s) (st_nodes st))) \<in> set ?rows" by force
    have "(the \<circ> client_entry s) a =
        (name, Add_table [(''connected'', Add_u8 (ucast (si_connected si))), (''signal'', Add_u32 (si_signal si))])"
      using that e name by (simp add: client_entry_def)
    with a have "(name, Add_table [(''connected'', Add_u8 (ucast (si_connected si))), (''signal'', Add_u32 (si_signal si))]) \<in>
        set (map (the \<circ> client_entry s) (st_nodes st))" unfolding set_map by (rule rev_image_eqI [OF _ sym])
    with row name show ?thesis by blast
  qed
  ultimately show ?thesis by blast
qed

theorem clients_listed_witness:
  "\<exists>rows es. usteer_ubus_get_clients network = Some (emit (Ubus_reply rows) network) \<and>
     (''02:00:00:00:00:09'', Add_table es) \<in> set rows \<and>
     (''a'', Add_table [(''connected'', Add_u8 1), (''signal'', Add_u32 (- 80))]) \<in> set es"
proof -
  have f: "mac_addr_fmt client = ''02:00:00:00:00:09''" by code_simp
  have si: "si_connected client_at_a = 1" "si_signal client_at_a = - 80"
    by (simp_all add: client_at_a_def calloc_sta_info_def)
  from clients_listed [OF network_wf] obtain rows where rows:
    "usteer_ubus_get_clients network = Some (emit (Ubus_reply rows) network)"
    "\<And>m r a si. entry network m r = Some a \<and> si_heap network a = Some si \<Longrightarrow>
      (\<exists>es name. (mac_addr_fmt m, Add_table es) \<in> set rows \<and> usteer_node_name network r = Some name \<and>
        (name, Add_table [(''connected'', Add_u8 (ucast (si_connected si))), (''signal'', Add_u32 (si_signal si))]) \<in> set es)"
    by blast
  from rows(2) [of client "NLocal ''a''" 0 client_at_a] rows(1) show ?thesis by (auto simp: f si)
qed

text \<open>
  C9. Configuration round trip. Once a list of SSIDs (of at most 32 bytes each) has been configured, the reply to
  \<^verbatim>\<open>get_config\<close> is defined, and giving it to \<^verbatim>\<open>set_config\<close> of an instance in any well-formed state is
  defined and keeps the state well formed; afterwards all configuration fields are those of the first
  instance, but for the two that are no items and get their default; the interfaces have the
  same names, the list of SSIDs the same elements (in reverse order), and a script the same name.
\<close>

theorem config_roundtrip:
  assumes "avl_dups_tree ins" "wf_state t" "dict_ok (interfaces t)" "dict_ok (interfaces s)"
    and "config_ssid_list s = Some us" "\<forall>u \<in> set us. length u < 33"
    and "env_handlers env = node_handlers K ins rd lookup_id" "node_up_script s \<noteq> Some []"
  shows "\<exists>reply t'. usteer_ubus_get_config env' s = Some (emit (Ubus_reply reply) s) \<and>
    usteer_ubus_set_config env ''set_config'' (reply_msg reply) t = Some t' \<and> wf_state t' \<and>
    config t' = (config s)\<lparr>vendor_update_interval := vendor_update_interval usteer_init_defaults,
      remote_node_timeout := remote_node_timeout usteer_init_defaults\<rparr> \<and>
    map fst (interfaces t') = map fst (interfaces s) \<and> config_ssid_list t' = Some (rev us) \<and>
    (\<forall>x. node_up_script s = Some x \<longrightarrow> node_up_script t' = Some x)"
proof -
  let ?r = "config_fields s us" and ?m = "reply_msg (config_fields s us)"
  let ?t1 = "t\<lparr>config := fold (copy_item (config s)) config_scalars usteer_init_defaults\<rparr>"
  have get: "usteer_ubus_get_config env' s = Some (emit (Ubus_reply ?r) s)"
    using assms(5,6) by (auto simp: get_config_eq)
  have "wf_state ?t1 = wf_state t" by (rule wf_same_data) simp_all
  with callbacks_set [OF assms(1) _ _ assms(4,6,7), of ?t1] assms(2,3) obtain t2 t3 where
    t2: "config_set_interfaces (env_nametoindex env) (Some (map fst (interfaces s))) ?t1 = Some t2"
      "config_set_ssid env (Some us) t2 = Some t3" and t3: "wf_state t3"
      "config t3 = config ?t1" "map fst (interfaces t3) = map fst (interfaces s)" "config_ssid_list t3 = Some (rev us)"
    by auto
  let ?t' = "case node_up_script s of None \<Rightarrow> t3 | Some x \<Rightarrow> config_set_node_up_script x t3"
  have run: "usteer_ubus_set_config env ''set_config'' ?m t = Some ?t'"
    using reply_scalars t2 reply_rest by (simp add: usteer_ubus_set_config_def config_data_def for_each_append split: option.split)
  have fin: "wf_state ?t'" "config ?t' = config t3" "interfaces ?t' = interfaces t3" "config_ssid_list ?t' = config_ssid_list t3"
    "\<forall>x. node_up_script s = Some x \<longrightarrow> node_up_script ?t' = Some x"
    using t3(1) script_set_frame [of _ t3] only_nodes_frame(1-3) [OF script_set_frame(1), of _ t3] assms(8)
    by (auto split: option.split)
  have "config ?t' = (config s)\<lparr>vendor_update_interval := vendor_update_interval usteer_init_defaults,
      remote_node_timeout := remote_node_timeout usteer_init_defaults\<rparr>"
    using copy_all [of "config s"] by (simp add: fin(2) t3(2))
  moreover have "map fst (interfaces ?t') = map fst (interfaces s)" "config_ssid_list ?t' = Some (rev us)"
    unfolding fin(3,4) by (rule t3)+
  ultimately show ?thesis using get run fin(1,5) by blast
qed

text \<open>An instance that has been configured.\<close>

definition configured :: usteer_state where
  "configured = network\<lparr>config := usteer_init_defaults\<lparr>min_snr := 15, load_kick_enabled := True\<rparr>,
     interfaces := [(''eth0'', 2), (''lan'', 5)], config_ssid_list := Some [''net'', ''guest''],
     node_up_script := Some ''/usr/bin/up''\<rparr>"

theorem config_roundtrip_witness:
  "\<exists>env reply t'. usteer_ubus_get_config env configured = Some (emit (Ubus_reply reply) configured) \<and>
     usteer_ubus_set_config env ''set_config'' (reply_msg reply) network = Some t' \<and> wf_state t' \<and>
     min_snr (config t') = 15 \<and> load_kick_enabled (config t') \<and> map fst (interfaces t') = [''eth0'', ''lan''] \<and>
     config_ssid_list t' = Some [''guest'', ''net''] \<and> node_up_script t' = Some ''/usr/bin/up''"
proof -
  let ?env = "\<lparr>env_handlers = node_handlers silent_kernel ordered_insert (\<lambda>_. 0) (\<lambda>_. None),
    env_nametoindex = (\<lambda>_. 7), env_objects = [(''hostapd.wlan0'', 4)]\<rparr>"
  have "dict_ok (interfaces network)" "dict_ok (interfaces configured)" "config_ssid_list configured = Some [''net'', ''guest'']"
    "node_up_script configured = Some ''/usr/bin/up''" "min_snr (config configured) = 15" "load_kick_enabled (config configured)"
    "map fst (interfaces configured) = [''eth0'', ''lan'']"
    by (simp_all add: network_def configured_def dict_ok_def)
  with config_roundtrip [OF ordered.avl_dups_tree_axioms network_wf, of configured "[''net'', ''guest'']" ?env
      silent_kernel "\<lambda>_. 0" "\<lambda>_. None" ?env] show ?thesis by fastforce
qed



text \<open>
  C31. The details of one client. A missing or unreadable address and an unknown station are refused without a
  reply. For a known station, when the activity interval is not zero, the query is defined and only sends
  its reply, with one table per entry of the station in the order of its list; the counters shown
  there under the names of all four event types are those of the probe requests.
\<close>

theorem client_info_answered:
  assumes "wf_state s" "kick_client_active_sec (config s) \<noteq> 0"
  shows "case Option.bind mac_str ether_aton of
      None \<Rightarrow> usteer_ubus_get_client_info ether_aton ether_ntoa mac_str s = Some (UBUS_STATUS_INVALID_ARGUMENT, s)
    | Some m \<Rightarrow> (case get_sta s m of
        None \<Rightarrow> usteer_ubus_get_client_info ether_aton ether_ntoa mac_str s = Some (UBUS_STATUS_NOT_FOUND, s)
      | Some st \<Rightarrow> \<exists>bands nodes. usteer_ubus_get_client_info ether_aton ether_ntoa mac_str s =
            Some (0, emit (Ubus_reply (bands @ [(''nodes'', Add_table nodes)])) s) \<and>
          list_all2 (\<lambda>a (name, table). \<exists>si rest. si_heap s a = Some si \<and> usteer_node_name s (si_node si) = Some name \<and>
            table = Add_table ([(''connected'', Add_u8 (ucast (si_connected si))), (''signal'', Add_u32 (si_signal si)),
              (''stats'', Add_table (map (usteer_ubus_add_stats (si_stats si ! event_index EVENT_TYPE_PROBE)) event_types))] @ rest))
            (st_nodes st) nodes)"
proof (cases "Option.bind mac_str ether_aton")
  case None
  then show ?thesis by (simp add: usteer_ubus_get_client_info_def)
next
  case (Some m)
  show ?thesis
  proof (cases "get_sta s m")
    case None
    with Some show ?thesis by (simp add: usteer_ubus_get_client_info_def usteer_sta_get_def)
  next
    case (Some st)
    let ?nodes = "map (the \<circ> client_info_entry ether_ntoa s) (st_nodes st)"
    have one: "\<exists>si name rest. si_heap s a = Some si \<and> client_info_entry ether_ntoa s a = Some (name, Add_table
        ([(''connected'', Add_u8 (ucast (si_connected si))), (''signal'', Add_u32 (si_signal si)),
          (''stats'', Add_table (map (usteer_ubus_add_stats (si_stats si ! event_index EVENT_TYPE_PROBE)) event_types))] @ rest)) \<and>
        usteer_node_name s (si_node si) = Some name" if "a \<in> set (st_nodes st)" for a
      using station_entries [OF assms(1) Some that] client_info_entry_total [OF assms(1) _ assms(2)] by metis
    have "those (map (client_info_entry ether_ntoa s) (st_nodes st)) = Some ?nodes"
      by (rule those_total) (use one in fastforce)
    then have "\<exists>bands. usteer_ubus_get_client_info ether_aton ether_ntoa mac_str s =
        Some (0, emit (Ubus_reply (bands @ [(''nodes'', Add_table ?nodes)])) s)"
      using Some \<open>Option.bind mac_str ether_aton = Some m\<close>
      by (simp add: usteer_ubus_get_client_info_def usteer_sta_get_def)
        (metis append.simps(1,2))
    moreover have "list_all2 (\<lambda>a (name, table). \<exists>si rest. si_heap s a = Some si \<and> usteer_node_name s (si_node si) = Some name \<and>
            table = Add_table ([(''connected'', Add_u8 (ucast (si_connected si))), (''signal'', Add_u32 (si_signal si)),
              (''stats'', Add_table (map (usteer_ubus_add_stats (si_stats si ! event_index EVENT_TYPE_PROBE)) event_types))] @ rest))
            (st_nodes st) ?nodes"
      unfolding list.rel_map by (rule list.rel_refl_strong) (use one in fastforce)
    ultimately show ?thesis using Some \<open>Option.bind mac_str ether_aton = Some m\<close> by auto
  qed
qed

theorem client_info_answered_witness:
  "\<exists>bands nodes. usteer_ubus_get_client_info network_aton mac_addr_fmt (Some ''02:00:00:00:00:09'') network =
     Some (0, emit (Ubus_reply (bands @ [(''nodes'', Add_table nodes)])) network) \<and> length nodes = 2"
proof -
  have "get_sta network client = Some \<lparr>st_nodes = [1, 0], st_seen_2ghz = True, st_seen_5ghz = True, st_addr = client\<rparr>"
    by (simp add: get_sta_def network_def)
  with client_info_answered [OF network_wf network_config(1),
      where mac_str = "Some ''02:00:00:00:00:09''" and ether_aton = network_aton and ether_ntoa = mac_addr_fmt]
  obtain bands nodes where "usteer_ubus_get_client_info network_aton mac_addr_fmt (Some ''02:00:00:00:00:09'') network =
     Some (0, emit (Ubus_reply (bands @ [(''nodes'', Add_table nodes)])) network)" "length [1, 0 :: nat] = length nodes"
    by (auto simp: network_aton_def dest!: list_all2_lengthD)
  then show ?thesis by (intro exI [of _ bands] exI [of _ nodes]) simp
qed

end
