(* ===== verification/Mirror.thy ===== *)
theory Mirror
  imports Remote_Recv
begin

text \<open>
  Two instances: what the periodic update of one says about its nodes and stations is what the
  other knows after it has received the message.
\<close>

section \<open>Lemmas\<close>

text \<open>The remaining lifetime of an entry as it is sent.\<close>

definition sent_age :: "usteer_state \<Rightarrow> sta_info \<Rightarrow> s32" where
  "sent_age s si = ucast (current_time s - si_seen si)"

definition sent_lifetime :: "usteer_state \<Rightarrow> sta_info \<Rightarrow> s32" where
  "sent_lifetime s si = local_sta_timeout (config s) - sent_age s si"

text \<open>What one instance (in state \<open>s'\<close>) knows of an entry of the other (in state \<open>s\<close>).\<close>

definition entry_mirrored :: "usteer_state \<Rightarrow> sta_info \<Rightarrow> usteer_state \<Rightarrow> nat \<Rightarrow> bool" where
  "entry_mirrored s si s' k \<longleftrightarrow> (\<exists>si'. entry_si s' (si_sta si) (NRemote k) = Some si' \<and>
     si_signal si' = si_signal si \<and> si_connected si' = (if si_connected si \<noteq> 0 then 1 else 0) \<and>
     si_seen si' = current_time s' - scast (sent_age s si))"

definition attrs_mirrored :: "u64 \<Rightarrow> string \<Rightarrow> usteer_node \<Rightarrow> usteer_state \<Rightarrow> nat \<Rightarrow> bool" where
  "attrs_mirrored i name nd s' k \<longleftrightarrow> (\<exists>rn. remote_view s' k = Some rn \<and> rn_key rn = i \<and> rn_name rn = name \<and>
     rn_check rn = 0 \<and> node_ssid (rn_node rn) = take 32 (node_ssid nd) \<and> node_bssid (rn_node rn) = node_bssid nd \<and>
     node_freq (rn_node rn) = node_freq nd \<and> node_noise (rn_node rn) = node_noise nd \<and>
     node_load (rn_node rn) = node_load nd \<and> node_n_assoc (rn_node rn) = node_n_assoc nd \<and>
     node_max_assoc (rn_node rn) = node_max_assoc nd)"

context blob_codec
begin

lemma sent_records:
  assumes "\<And>x. x \<in> set sis \<Longrightarrow> encodable (usteer_send_sta_info s x)"
  shows "sta_records B (map (\<lambda>si. enc (usteer_send_sta_info s si)) sis) =
    map (\<lambda>si. \<lparr>aps_addr = si_sta si, aps_connected = (si_connected si \<noteq> 0), aps_signal = si_signal si,
        aps_timeout = sent_lifetime s si, aps_seen = sent_age s si\<rparr>)
      (filter (\<lambda>si. 0 < sint (sent_lifetime s si)) sis)"
  using assms by (induction sis)
    (auto simp: sta_roundtrip Let_def sent_lifetime_def sent_age_def not_le)

text \<open>One node record.\<close>

lemma mirrored_sent:
  assumes en: "encodable (Nest 0 (node_items ntoa name nd (map (usteer_send_sta_info s) sis)))"
    and msg: "parse_apmsg_node B (enc (Nest 0 (node_items ntoa name nd (map (usteer_send_sta_info s) sis)))) = Some msg"
    and str: "CHR 0x00 \<notin> set name" "CHR 0x00 \<notin> set (node_ssid nd)" "CHR 0x00 \<notin> set (ntoa (node_bssid nd))"
    and conv: "aton (ntoa (node_bssid nd)) = Some (node_bssid nd)"
    and dist: "distinct (map si_sta sis)"
    and mir: "node_mirrored B aton i msg s' k"
  shows "attrs_mirrored i name nd s' k"
    and "\<forall>si \<in> set sis. 0 < sint (sent_lifetime s si) \<longrightarrow> entry_mirrored s si s' k"
proof -
  let ?stas = "map (usteer_send_sta_info s) sis"
  from node_roundtrip [OF en str] msg have m:
    "apn_name msg = Some name" "apn_ssid msg = Some (node_ssid nd)" "apn_bssid msg = Some (ntoa (node_bssid nd))"
    "apn_freq msg = node_freq nd" "apn_n_assoc msg = node_n_assoc nd" "apn_max_assoc msg = node_max_assoc nd"
    "apn_noise msg = node_noise nd" "apn_load msg = node_load nd"
    "apn_stations msg = enc (Nest APMSG_NODE_STATIONS ?stas)" by auto
  show "attrs_mirrored i name nd s' k"
    using mir m conv unfolding node_mirrored_def attrs_mirrored_def by auto
  have "Nest APMSG_NODE_STATIONS ?stas \<in> set (node_items ntoa name nd ?stas)" by (simp add: node_items_def)
  from encodable_nest [OF en this] have est: "encodable (Nest APMSG_NODE_STATIONS ?stas)" .
  have ei: "encodable (usteer_send_sta_info s x)" if "x \<in> set sis" for x
    using encodable_nest [OF est] that by simp
  have attrs: "blob_attrs B (apn_stations msg) = map (\<lambda>si. enc (usteer_send_sta_info s si)) sis"
    unfolding m(9) attrs_built [OF est] by simp
  have "sta_records B (blob_attrs B (apn_stations msg)) =
    map (\<lambda>si. \<lparr>aps_addr = si_sta si, aps_connected = (si_connected si \<noteq> 0), aps_signal = si_signal si,
        aps_timeout = sent_lifetime s si, aps_seen = sent_age s si\<rparr>)
      (filter (\<lambda>si. 0 < sint (sent_lifetime s si)) sis)"
    unfolding attrs by (rule sent_records) (rule ei)
  note recs = this
  have "distinct (map aps_addr (sta_records B (blob_attrs B (apn_stations msg))))"
    unfolding recs using dist by (simp add: comp_def distinct_map_filter)
  with mir have "\<forall>m \<in> set (sta_records B (blob_attrs B (apn_stations msg))).
       \<exists>si. entry_si s' (aps_addr m) (NRemote k) = Some si \<and> sta_recorded m s' si"
    by (simp add: node_mirrored_def)
  then show "\<forall>si \<in> set sis. 0 < sint (sent_lifetime s si) \<longrightarrow> entry_mirrored s si s' k"
    unfolding recs by (auto simp: sta_recorded_def entry_mirrored_def)
qed

end

text \<open>The entries of a node belong to different stations.\<close>

lemma node_stations_distinct:
  assumes core: "wf_core s" and nd: "get_node s r = Some nd"
  shows "distinct (map (\<lambda>a. si_sta (the (si_heap s a))) (node_sta_info nd))"
proof -
  have "inj_on (\<lambda>a. si_sta (the (si_heap s a))) (set (node_sta_info nd))"
  proof (rule inj_onI)
    fix a b assume "a \<in> set (node_sta_info nd)" "b \<in> set (node_sta_info nd)"
      "si_sta (the (si_heap s a)) = si_sta (the (si_heap s b))"
    then show "a = b" using wf_core_node(2) [OF core nd] wf_core_unique [OF core] by fastforce
  qed
  with wf_core_node(1) [OF core nd] show ?thesis by (simp add: distinct_map)
qed

text \<open>The message of the periodic update, written out.\<close>

definition node_infos :: "usteer_state \<Rightarrow> usteer_node \<Rightarrow> sta_info list" where
  "node_infos s nd = map (\<lambda>a. the (si_heap s a)) (node_sta_info nd)"

definition sent_nodes :: "(mac \<Rightarrow> string) \<Rightarrow> usteer_state \<Rightarrow> blob_item list" where
  "sent_nodes ntoa s = map (\<lambda>(n, l). Nest 0 (node_items ntoa n (ln_node l)
     (map (usteer_send_sta_info s) (node_infos s (ln_node l))))) (local_nodes s)"

lemma send_local_node:
  assumes core: "wf_core s" and on: "\<not> remote_disabled (config s)" and l: "get_local s n = Some l"
  shows "usteer_send_node ntoa (NLocal n) None s = Some (Nest 0 (node_items ntoa n (ln_node l)
    (map (usteer_send_sta_info s) (node_infos s (ln_node l)))))"
proof -
  have nd: "get_node s (NLocal n) = Some (ln_node l)" using l by simp
  then have "\<forall>a \<in> set (node_sta_info (ln_node l)). si_heap s a \<noteq> None" using wf_core_node(2) [OF core nd] by auto
  from send_infos_total [OF this] on l show ?thesis
    by (simp add: usteer_send_node_def node_items_def node_infos_def comp_def)
qed

lemma update_timer_message:
  fixes clk :: u64
  assumes wf: "wf_state s" and iv: "remote_update_interval (config s) \<noteq> 0" and on: "\<not> remote_disabled (config s)"
  defines "t \<equiv> s\<lparr>current_time := clk\<rparr>"
  shows "\<exists>s'. usteer_send_update_timer ntoa clk s = Some s' \<and>
    out s' = out s @ map (\<lambda>(_, i). Sendmsg i
      [Put_int32 APMSG_ID (local_id s), Put_int32 APMSG_SEQ (msg_seq s + 1), Nest APMSG_NODES (sent_nodes ntoa t)])
      (interfaces s)"
proof -
  let ?b = "t\<lparr>remote_timer := Some (remote_update_interval (config s))\<rparr>"
  let ?s = "?b\<lparr>msg_seq := msg_seq s + 1\<rparr>"
  have sends: "only_sends ?b ?s"
    by (auto simp: only_sends_def intro!: exI [of _ "msg_seq s + 1"] exI [of _ "[]"])
  have wft: "wf_state t" using wf by (simp add: t_def)
  then have core: "wf_core ?s" using only_sends_wf(1) [OF sends] by (simp add: wf_state_def)
  have si: "usteer_send_sta_info ?s = usteer_send_sta_info t"
    by (simp add: usteer_send_sta_info_def fun_eq_iff)
  have ni: "node_infos ?s = node_infos t" by (simp add: node_infos_def fun_eq_iff)
  have "distinct (map fst (local_nodes s))" using wf by (simp add: wf_state_def wf_core_def keys_ok_def dict_ok_def)
  then have loc: "get_local ?s n = Some l" if "(n, l) \<in> set (local_nodes s)" for n l
    using that by (simp add: get_local_def t_def)
  let ?f = "\<lambda>(n, l). usteer_send_node ntoa (NLocal n) None ?s"
  have f: "?f x = Some ((\<lambda>(n, l). Nest 0 (node_items ntoa n (ln_node l)
      (map (usteer_send_sta_info t) (node_infos t (ln_node l))))) x)" if "x \<in> set (local_nodes s)" for x
  proof -
    obtain n l where x: "x = (n, l)" by (cases x)
    from send_local_node [OF core _ loc] that on show ?thesis unfolding x si ni by (simp add: t_def)
  qed
  have "those (map ?f (local_nodes s)) = Some (map (the \<circ> ?f) (local_nodes s))"
    by (rule those_total) (use f in fastforce)
  also have "map (the \<circ> ?f) (local_nodes s) = sent_nodes ntoa t"
    unfolding sent_nodes_def using f by (auto simp: t_def comp_def intro!: map_cong)
  finally have nodes: "those (map ?f (local_nodes s)) = Some (sent_nodes ntoa t)" .
  let ?head = "[Put_int32 APMSG_ID (local_id s), Put_int32 APMSG_SEQ (msg_seq s + 1)]"
  let ?u = "usteer_update_send ?head (sent_nodes ntoa t) ?s"
  have u: "?u = ?s\<lparr>out := out s @ map (\<lambda>(_, i). Sendmsg i (?head @ [Nest APMSG_NODES (sent_nodes ntoa t)])) (interfaces s)\<rparr>"
    using on by (simp add: update_send_eq t_def)
  have "only_sends ?b ?u" unfolding u only_sends_def by (auto simp: t_def)
  from only_sends_wf(2) [OF this] wft have wfu: "wf_state ?u" by simp
  have "config ?u = config s" unfolding u by (simp add: t_def)
  with iv have "remote_update_interval (config ?u) \<noteq> 0" by simp
  from check_timeout_total [OF wfu this] obtain s' where "usteer_check_timeout ?u = Some s'" "out s' = out ?u" by blast
  moreover have "usteer_send_update_timer ntoa clk s = usteer_check_timeout ?u"
    using nodes by (simp add: usteer_send_update_timer_def usteer_update_init_def Let_def t_def)
  moreover have "out ?u = out s @ map (\<lambda>(_, i). Sendmsg i (?head @ [Nest APMSG_NODES (sent_nodes ntoa t)])) (interfaces s)"
    unfolding u by simp
  ultimately show ?thesis by simp
qed

text \<open>Receiving it.\<close>

lemma node_infos_distinct:
  assumes "wf_state s" "(n, l) \<in> set (local_nodes s)"
  shows "distinct (map si_sta (node_infos s (ln_node l)))"
proof -
  have core: "wf_core s" and d: "distinct (map fst (local_nodes s))"
    using assms(1) by (auto simp: wf_state_def wf_core_def keys_ok_def dict_ok_def)
  have "get_node s (NLocal n) = Some (ln_node l)" using assms(2) d by (simp add: get_local_def)
  from node_stations_distinct [OF core this] show ?thesis by (simp add: node_infos_def comp_def)
qed

definition c_strings :: "(mac \<Rightarrow> string) \<Rightarrow> string \<Rightarrow> usteer_node \<Rightarrow> bool" where
  "c_strings ntoa n nd \<longleftrightarrow> CHR 0x00 \<notin> set n \<and> CHR 0x00 \<notin> set (node_ssid nd) \<and> CHR 0x00 \<notin> set (ntoa (node_bssid nd))"

lemma recv_sent_message:
  fixes s t :: usteer_state
  assumes codec: "blob_codec B enc encodable" and tree: "remote_tree rfind rins" and ins: "avl_dups_tree ins"
    and wf: "wf_state t" and ok: "recv_ok (ucast (local_id t)) s" and other: "local_id s \<noteq> local_id t"
    and strs: "\<And>n l. (n, l) \<in> set (local_nodes t) \<Longrightarrow> c_strings ntoa n (ln_node l) \<and>
      aton (ntoa (node_bssid (ln_node l))) = Some (node_bssid (ln_node l))"
    and en: "encodable (Nest 0 [Put_int32 APMSG_ID (local_id t), Put_int32 APMSG_SEQ q, Nest APMSG_NODES (sent_nodes ntoa t)])"
  defines "data \<equiv> enc (Nest 0 [Put_int32 APMSG_ID (local_id t), Put_int32 APMSG_SEQ q, Nest APMSG_NODES (sent_nodes ntoa t)])"
  shows "\<exists>s'. interface_recv_msg B rfind rins ins aton now iface addr data (blob_pad_len B data) s = Some s' \<and>
    wf_state s' \<and> (\<forall>(n, l) \<in> set (local_nodes t). usteer_is_valid_ssid s (node_ssid (ln_node l)) \<longrightarrow>
      (\<exists>k. attrs_mirrored (ucast (local_id t)) n (ln_node l) s' k \<and>
        (\<forall>si \<in> set (node_infos t (ln_node l)). 0 < sint (sent_lifetime t si) \<longrightarrow> entry_mirrored t si s' k)))"
proof -
  let ?i = "ucast (local_id t) :: u64"
  let ?item = "\<lambda>(n, l). Nest 0 (node_items ntoa n (ln_node l) (map (usteer_send_sta_info t) (node_infos t (ln_node l))))"
  have nodes: "sent_nodes ntoa t = map ?item (local_nodes t)" by (simp add: sent_nodes_def)
  have en_nodes: "encodable (Nest APMSG_NODES (sent_nodes ntoa t))"
    by (rule blob_codec.encodable_nest [OF codec en]) simp
  have en_item: "encodable (?item x)" if "x \<in> set (local_nodes t)" for x
    by (rule blob_codec.encodable_nest [OF codec en_nodes]) (use that nodes in simp)
  let ?xs = "map (enc \<circ> ?item) (local_nodes t)"
  have attrs: "blob_attrs B (enc (Nest APMSG_NODES (sent_nodes ntoa t))) = ?xs"
    using blob_codec.attrs_built [OF codec en_nodes] nodes by simp
  have parsed: "\<exists>msg. parse_apmsg_node B (enc (?item (n, l))) = Some msg \<and> apn_name msg = Some n \<and>
      apn_ssid msg = Some (node_ssid (ln_node l)) \<and> apn_bssid msg = Some (ntoa (node_bssid (ln_node l)))"
    if "(n, l) \<in> set (local_nodes t)" for n l
    using blob_codec.node_roundtrip [OF codec en_item [OF that, simplified]] strs [OF that] by (fastforce simp: c_strings_def)
  have rd: "\<forall>x \<in> set ?xs. node_readable B aton x"
    using parsed strs by (fastforce simp: node_readable_def)
  have name: "msg_name B (enc (?item x)) = Some (fst x)" if "x \<in> set (local_nodes t)" for x
    using parsed [of "fst x" "snd x"] that by (auto simp: msg_name_def)
  then have names: "map (msg_name B) ?xs = map Some (map fst (local_nodes t))" by (auto simp: name)
  have "distinct (map fst (local_nodes t))" using wf by (simp add: wf_state_def wf_core_def keys_ok_def dict_ok_def)
  then have "distinct (map Some (map fst (local_nodes t)))" by (subst distinct_map) (simp add: inj_on_def)
  then have dist: "distinct (map (msg_name B) ?xs)" unfolding names .
  from remote_tree.add_nodes_total [OF tree ins ok rd dist, of now iface addr 0] obtain s' where
    s': "for_each (\<lambda>(j, x). interface_add_node B rfind rins ins aton (now j) iface addr ?i x) (enumerate 0 ?xs) s = Some s'"
      "recv_ok ?i s'"
      "\<forall>x \<in> set ?xs. \<forall>msg ssid. parse_apmsg_node B x = Some msg \<longrightarrow> apn_ssid msg = Some ssid \<longrightarrow>
         usteer_is_valid_ssid s ssid \<longrightarrow> (\<exists>k. node_mirrored B aton ?i msg s' k)" by blast
  have run: "interface_recv_msg B rfind rins ins aton now iface addr data (blob_pad_len B data) s = Some s'"
    using s'(1) other unfolding interface_recv_msg_def data_def blob_codec.apmsg_roundtrip [OF codec en]
    by (simp add: attrs)
  have "\<exists>k. attrs_mirrored ?i n (ln_node l) s' k \<and>
      (\<forall>si \<in> set (node_infos t (ln_node l)). 0 < sint (sent_lifetime t si) \<longrightarrow> entry_mirrored t si s' k)"
    if nl: "(n, l) \<in> set (local_nodes t)" and v: "usteer_is_valid_ssid s (node_ssid (ln_node l))" for n l
  proof -
    from parsed [OF nl] obtain msg where msg: "parse_apmsg_node B (enc (?item (n, l))) = Some msg"
      "apn_ssid msg = Some (node_ssid (ln_node l))" by blast
    have "enc (?item (n, l)) \<in> set ?xs" using nl by force
    with s'(3) msg v obtain k where k: "node_mirrored B aton ?i msg s' k" by blast
    have str: "CHR 0x00 \<notin> set n" "CHR 0x00 \<notin> set (node_ssid (ln_node l))" "CHR 0x00 \<notin> set (ntoa (node_bssid (ln_node l)))"
      "aton (ntoa (node_bssid (ln_node l))) = Some (node_bssid (ln_node l))"
      using strs [OF nl] by (auto simp: c_strings_def)
    note mir = blob_codec.mirrored_sent [OF codec en_item [OF nl, simplified] msg(1) [simplified] str
        node_infos_distinct [OF wf nl] k]
    show ?thesis using mir by blast
  qed
  with run s'(2) show ?thesis by (intro exI [of _ s']) (auto simp: recv_ok_def)
qed

section \<open>A concrete exchange\<close>

text \<open>Reading an address of the format \<^verbatim>\<open>MAC_ADDR_FMT\<close>.\<close>

definition hex_value :: "char \<Rightarrow> nat" where
  "hex_value c = (let n = of_char c in if n < 58 then n - 48 else n - 87)"

fun mac_parse :: "string \<Rightarrow> mac option" where
  "mac_parse [a, b, _, c, d, _, e, f, _, g, h, _, i, j, _, k, l] =
     Some (MAC (of_nat (16 * hex_value a + hex_value b)) (of_nat (16 * hex_value c + hex_value d))
       (of_nat (16 * hex_value e + hex_value f)) (of_nat (16 * hex_value g + hex_value h))
       (of_nat (16 * hex_value i + hex_value j)) (of_nat (16 * hex_value k + hex_value l)))"
| "mac_parse _ = None"

definition sender :: usteer_state where
  "sender = network\<lparr>interfaces := [(''br-lan'', 5)]\<rparr>"

lemma formatted:
  "mac_addr_fmt (MAC 2 0 0 0 0 1) = ''02:00:00:00:00:01''" "mac_addr_fmt (MAC 2 0 0 0 0 2) = ''02:00:00:00:00:02''"
  "mac_parse ''02:00:00:00:00:01'' = Some (MAC 2 0 0 0 0 1)" "mac_parse ''02:00:00:00:00:02'' = Some (MAC 2 0 0 0 0 2)"
  by code_simp+

lemma sender_strings:
  "\<forall>(n, l) \<in> set (local_nodes sender). c_strings mac_addr_fmt n (ln_node l) \<and>
     mac_parse (mac_addr_fmt (node_bssid (ln_node l))) = Some (node_bssid (ln_node l))"
proof -
  have "node_bssid (ap_node as i f n) = MAC 2 0 0 0 0 i" "node_ssid (ap_node as i f n) = ''net''" for as i f n
    by (simp_all add: ap_node_def calloc_node_def)
  moreover have "ln_node (ap_local nd j) = nd" for nd j by (simp add: ap_local_def)
  ultimately show ?thesis
    by (simp add: sender_def network_def c_strings_def formatted del: mac_parse.simps)
qed

section \<open>Properties\<close>



end
