(* ===== verification/Kept.thy ===== *)
theory Kept
  imports Ubus_Config Mirror
begin

text \<open>
  Invariants of the whole program. A predicate on states that survives the few primitive changes the
  operations are made of survives every operation: the primitive changes are the laws of the locale \<open>kept\<close> and
  of its extensions, and the operations are gone through once. The instances are the order of the timers,
  the order of the remote nodes, the types of the nodes, and single fields that most operations leave alone.
\<close>

section \<open>Primitive changes\<close>

text \<open>What never changes of a node.\<close>

definition same_kind :: "usteer_node \<Rightarrow> usteer_node \<Rightarrow> bool" where
  "same_kind nd nd' \<longleftrightarrow> node_type nd' = node_type nd"

definition same_identity :: "usteer_remote_node \<Rightarrow> usteer_remote_node \<Rightarrow> bool" where
  "same_identity rn rn' \<longleftrightarrow> rn_key rn' = rn_key rn \<and> rn_name rn' = rn_name rn \<and> rn_full_name rn' = rn_full_name rn \<and>
     same_kind (rn_node rn) (rn_node rn')"

named_theorems kept_intros
named_theorems kept_dests

lemma vendor_set_out:
  assumes "usteer_vendor_set idx ifaddr s = Some s'"
  obtains ou where "s' = s\<lparr>out := ou\<rparr>"
proof -
  from assms obtain x where x: "usteer_vendor_get idx ifaddr s = Some x"
    by (auto simp: usteer_vendor_set_def bind_eq_Some_conv)
  show ?thesis
  proof (cases "fst x \<le> 4")
    case True
    with assms x have "s' = s\<lparr>out := out s\<rparr>" by (simp add: usteer_vendor_set_def case_prod_unfold)
    then show ?thesis by (rule that)
  next
    case False
    with assms x have "s' = s\<lparr>out := out s @ map (\<lambda>p. Ubus_invoke (ln_obj_id (snd p)) ''set_vendor_elements''
        [(''vendor_elements'', Add_string (snd x))]) (local_nodes s)\<rparr>"
      by (simp add: usteer_vendor_set_def case_prod_unfold emit_each)
    then show ?thesis by (rule that)
  qed
qed

lemma bind_SomeE:
  assumes "Option.bind m f = Some y"
  obtains x where "m = Some x" "f x = Some y"
  using assms by (auto simp: bind_eq_Some_conv)

lemma enumerate_mem: "x \<in> set (enumerate n xs) \<Longrightarrow> snd x \<in> set xs"
  by (cases x) (auto simp: enumerate_eq_zip dest: set_zip_rightD)

locale kept =
  fixes I :: "usteer_state \<Rightarrow> bool"
  assumes other: "tq s' = tq s \<Longrightarrow> local_nodes s' = local_nodes s \<Longrightarrow> remote_nodes s' = remote_nodes s \<Longrightarrow>
      rn_next s' = rn_next s \<Longrightarrow> interfaces s' = interfaces s \<Longrightarrow> config s' = config s \<Longrightarrow> I s \<Longrightarrow> I s'"
    and cancel: "I s \<Longrightarrow> I (s\<lparr>tq := usteer_timeout_cancel (tq s) a\<rparr>)"
    and recalc: "I s \<Longrightarrow> I (s\<lparr>tq := usteer_timeout_recalc (tq s) time\<rparr>)"
    and local_upd: "I s \<Longrightarrow> (\<And>l. same_kind (ln_node l) (ln_node (f l))) \<Longrightarrow>
      I (s\<lparr>local_nodes := dict_modify n f (local_nodes s)\<rparr>)"
    and remote_upd: "I s \<Longrightarrow> (\<And>rn. get_remote s k = Some rn \<Longrightarrow> same_identity rn (g rn)) \<Longrightarrow>
      I (s\<lparr>remote_nodes := dict_modify k g (remote_nodes s)\<rparr>)"
    and local_del: "I s \<Longrightarrow> I (s\<lparr>local_nodes := dict_delete n (local_nodes s)\<rparr>)"
    and remote_del: "I s \<Longrightarrow> I (s\<lparr>remote_nodes := dict_delete k (remote_nodes s)\<rparr>)"
    and local_add: "I s \<Longrightarrow> is_hostapd n \<Longrightarrow> get_local s n = None \<Longrightarrow> node_type (ln_node l) = NODE_TYPE_LOCAL \<Longrightarrow>
      I (s\<lparr>local_nodes := dict_insert n l (local_nodes s)\<rparr>)"
begin

lemma other_eq [simp]:
  "I (s\<lparr>current_time := x1\<rparr>) = I s" "I (s\<lparr>stations := x2\<rparr>) = I s" "I (s\<lparr>si_heap := x3\<rparr>) = I s"
  "I (s\<lparr>si_next := x4\<rparr>) = I s" "I (s\<lparr>config_ssid_list := x6\<rparr>) = I s"
  "I (s\<lparr>node_up_script := x7\<rparr>) = I s" "I (s\<lparr>local_id := x8\<rparr>) = I s" "I (s\<lparr>msg_seq := x9\<rparr>) = I s"
  "I (s\<lparr>remote_timer := x10\<rparr>) = I s" "I (s\<lparr>reload_timer := x11\<rparr>) = I s" "I (s\<lparr>vendor_timer := x12\<rparr>) = I s"
  "I (s\<lparr>remote_fd := x13\<rparr>) = I s" "I (s\<lparr>out := x14\<rparr>) = I s" "I (emit x s) = I s" "I (upd_sta m g s) = I s"
  by (auto intro: other [rotated 6] simp: emit_def upd_sta_def)

declare cancel [kept_intros] recalc [kept_intros] local_del [kept_intros] remote_del [kept_intros]

lemma upd_kept [kept_intros]:
  "I s \<Longrightarrow> (\<And>l. same_kind (ln_node l) (ln_node (f l))) \<Longrightarrow> I (upd_local n f s)"
  "I s \<Longrightarrow> (\<And>nd. same_kind nd (g nd)) \<Longrightarrow> I (upd_node r g s)"
  "I s \<Longrightarrow> (\<And>rn. get_remote s k = Some rn \<Longrightarrow> same_identity rn (h rn)) \<Longrightarrow> I (upd_remote k h s)"
  by (auto simp: upd_local_def upd_remote_def same_identity_def intro: local_upd remote_upd) (cases r; auto simp: same_identity_def intro: local_upd remote_upd)

lemma upd_si_kept [kept_dests]: "upd_si a f s = Some s' \<Longrightarrow> I s \<Longrightarrow> I s'"
  by (auto simp: upd_si_Some)

lemma for_each_kept:
  assumes "for_each f xs s = Some s'" "I s" "\<And>x t t'. x \<in> set xs \<Longrightarrow> f x t = Some t' \<Longrightarrow> I t \<Longrightarrow> I t'"
  shows "I s'"
  using for_each_invariant [OF assms(1), of I] assms(2,3) by blast

subsection \<open>Entries\<close>

lemma mod_tq_kept: "I s \<Longrightarrow> I (mod_tq (\<lambda>q. usteer_timeout_cancel q a) s)" "I s \<Longrightarrow> I (mod_tq (\<lambda>q. usteer_timeout_recalc q time) s)"
  by (simp_all add: mod_tq_def cancel recalc)

lemma report_cleanup_kept [kept_dests]: "usteer_beacon_report_cleanup a b s = Some s' \<Longrightarrow> I s \<Longrightarrow> I s'"
  by (auto simp: usteer_beacon_report_cleanup_def bind_eq_Some_conv Let_def dest!: kept_dests intro!: kept_intros split: option.splits if_splits prod.splits)

lemma sta_info_del_kept [kept_dests]: "usteer_sta_info_del a s = Some s' \<Longrightarrow> I s \<Longrightarrow> I s'"
  by (auto simp: usteer_sta_info_del_def usteer_sta_del_def same_kind_def bind_eq_Some_conv Let_def dest!: kept_dests intro!: kept_intros split: option.splits if_splits prod.splits)

lemma node_cleanup_kept [kept_dests]: "usteer_sta_node_cleanup r s = Some s' \<Longrightarrow> I s \<Longrightarrow> I s'"
  by (auto simp: usteer_sta_node_cleanup_def same_kind_def bind_eq_Some_conv Let_def intro!: kept_intros elim!: for_each_kept dest: kept_dests)

lemma sta_info_timeout_kept [kept_dests]: "usteer_sta_info_timeout a s = Some s' \<Longrightarrow> I s \<Longrightarrow> I s'"
  by (auto simp: usteer_sta_info_timeout_def bind_eq_Some_conv Let_def dest!: kept_dests intro!: kept_intros split: option.splits if_splits prod.splits)

lemma timeout_cb_kept: "usteer_timeout_cb tq mod_tq usteer_sta_info_timeout readings s = Some s' \<Longrightarrow> I s \<Longrightarrow> I s'"
proof (induction readings arbitrary: s)
  case (Cons r rs)
  then obtain t f where t: "timeout_sweep mod_tq usteer_sta_info_timeout r (tq_tree (tq s)) False s = Some (t, f)"
    by (auto split: option.splits)
  then have "for_each (\<lambda>t s. usteer_sta_info_timeout (snd t) (mod_tq (\<lambda>q. usteer_timeout_cancel q (snd t)) s))
      (takeWhile (timer_due r) (tq_tree (tq s))) s = Some t" by (simp add: timeout_sweep_eq)
  then have "I t" using Cons.prems(2) by (rule for_each_kept) (rule sta_info_timeout_kept, assumption, rule mod_tq_kept)
  with t Cons show ?case by (cases f) (auto intro: mod_tq_kept)
qed simp

lemma info_get_kept [kept_dests]: "usteer_sta_info_get m r c s = Some (x, y, s') \<Longrightarrow> I s \<Longrightarrow> I s'"
  by (auto simp: usteer_sta_info_get_def same_kind_def bind_eq_Some_conv Let_def dest!: kept_dests intro!: kept_intros split: option.splits if_splits prod.splits)

lemma obtain_kept [kept_dests]: "sta_info_obtain m r s = Some (a, c, s') \<Longrightarrow> I s \<Longrightarrow> I s'"
  by (auto simp: sta_info_obtain_def usteer_sta_get_def bind_eq_Some_conv Let_def dest!: kept_dests intro!: kept_intros split: option.splits if_splits prod.splits)

lemma request_send_kept [kept_dests]: "usteer_beacon_request_send a freq mode s = Some s' \<Longrightarrow> I s \<Longrightarrow> I s'"
  by (auto simp: usteer_beacon_request_send_def bind_eq_Some_conv Let_def dest!: kept_dests intro!: kept_intros split: option.splits if_splits prod.splits)

lemma request_check_kept [kept_dests]: "usteer_beacon_request_check fl a s = Some s' \<Longrightarrow> I s \<Longrightarrow> I s'"
  by (auto simp: usteer_beacon_request_check_def bind_eq_Some_conv Let_def dest!: kept_dests intro!: kept_intros split: option.splits if_splits prod.splits)

lemma report_kept [kept_dests]: "usteer_handle_event_beacon_report aton n msg s = Some s' \<Longrightarrow> I s \<Longrightarrow> I s'"
  by (auto simp: usteer_handle_event_beacon_report_def bind_eq_Some_conv Let_def dest!: kept_dests intro!: kept_intros split: option.splits if_splits prod.splits)

subsection \<open>Policy\<close>

lemma notify_kept [kept_dests]: "usteer_ubus_notify_client_disassoc nrp a s = Some s' \<Longrightarrow> I s \<Longrightarrow> I s'"
  by (auto simp: usteer_ubus_notify_client_disassoc_def bind_eq_Some_conv Let_def dest!: kept_dests intro!: kept_intros split: option.splits if_splits prod.splits)

lemma trigger_scan_kept [kept_dests]: "usteer_ubus_trigger_client_scan a s = Some s' \<Longrightarrow> I s \<Longrightarrow> I s'"
  by (auto simp: usteer_ubus_trigger_client_scan_def bind_eq_Some_conv Let_def dest!: kept_dests intro!: kept_intros split: option.splits if_splits prod.splits)

lemma kick_kept [kept_dests]: "usteer_ubus_kick_client a s = Some s' \<Longrightarrow> I s \<Longrightarrow> I s'"
  by (auto simp: usteer_ubus_kick_client_def bind_eq_Some_conv Let_def dest!: kept_dests intro!: kept_intros split: option.splits if_splits prod.splits)

lemma candidate_kept [kept_dests]: "find_better_candidate a s = Some (b, s') \<Longrightarrow> I s \<Longrightarrow> I s'"
  by (auto simp: find_better_candidate_def bind_eq_Some_conv Let_def dest!: kept_dests intro!: kept_intros split: option.splits if_splits prod.splits)

lemma check_request_kept [kept_dests]: "usteer_check_request a type s = Some (b, s') \<Longrightarrow> I s \<Longrightarrow> I s'"
  by (auto simp: usteer_check_request_def bind_eq_Some_conv Let_def dest!: kept_dests intro!: kept_intros split: option.splits if_splits prod.splits)

lemma set_state_kept [kept_dests]: "usteer_roam_set_state a st s = Some s' \<Longrightarrow> I s \<Longrightarrow> I s'"
  by (auto simp: usteer_roam_set_state_def bind_eq_Some_conv Let_def dest!: kept_dests intro!: kept_intros split: option.splits if_splits prod.splits)

lemma trigger_sm_kept [kept_dests]: "usteer_roam_trigger_sm nrp a s = Some (k, s') \<Longrightarrow> I s \<Longrightarrow> I s'"
  by (auto simp: usteer_roam_trigger_sm_def bind_eq_Some_conv Let_def dest!: kept_dests intro!: kept_intros split: option.splits if_splits prod.splits roam_trigger_state.splits)

lemma roam_loop_kept [kept_dests]: "roam_check_loop nrp ms as s = Some s' \<Longrightarrow> I s \<Longrightarrow> I s'"
proof (induction as arbitrary: s)
  case (Cons a as)
  then show ?case
    by (auto simp: bind_eq_Some_conv Let_def dest!: kept_dests Cons.IH split: if_splits)
qed simp

lemma roam_check_kept [kept_dests]: "usteer_local_node_roam_check nrp clk n s = Some s' \<Longrightarrow> I s \<Longrightarrow> I s'"
  by (auto simp: usteer_local_node_roam_check_def bind_eq_Some_conv Let_def dest!: kept_dests intro!: kept_intros split: option.splits if_splits prod.splits)

lemma kick_counted_kept [kept_dests]: "kick_counted a s = Some s' \<Longrightarrow> I s \<Longrightarrow> I s'"
  by (auto simp: kick_counted_def bind_eq_Some_conv Let_def dest!: kept_dests intro!: kept_intros split: option.splits if_splits prod.splits)

lemma snr_loop_kept [kept_dests]: "snr_kick_loop ms as s = Some s' \<Longrightarrow> I s \<Longrightarrow> I s'"
proof (induction as arbitrary: s)
  case (Cons a as)
  then show ?case
    by (auto simp: bind_eq_Some_conv Let_def dest!: kept_dests Cons.IH split: if_splits)
qed simp

lemma snr_kick_kept [kept_dests]: "usteer_local_node_snr_kick n s = Some s' \<Longrightarrow> I s \<Longrightarrow> I s'"
  by (auto simp: usteer_local_node_snr_kick_def bind_eq_Some_conv Let_def dest!: kept_dests intro!: kept_intros split: option.splits if_splits prod.splits)

lemma load_loop_kept [kept_dests]: "load_kick_loop as k1 k2 s = Some (x, y, s') \<Longrightarrow> I s \<Longrightarrow> I s'"
proof (induction as arbitrary: k1 k2 s)
  case (Cons a as)
  then show ?case
    by (auto simp: bind_eq_Some_conv Let_def dest!: kept_dests Cons.IH split: if_splits)
qed simp

lemma kick_choice_kept [kept_dests]:
  "(case k of None \<Rightarrow> Some s | Some a \<Rightarrow> kick_counted (f a) s) = Some s' \<Longrightarrow> I s \<Longrightarrow> I s'"
  by (auto split: option.splits dest!: kept_dests)

lemma load_kick_kept [kept_dests]: "usteer_local_node_load_kick n s = Some s' \<Longrightarrow> I s \<Longrightarrow> I s'"
  by (auto simp: usteer_local_node_load_kick_def same_kind_def bind_eq_Some_conv Let_def dest!: kept_dests intro!: kept_intros
      split: if_splits)

lemma node_kick_kept [kept_dests]: "usteer_local_node_kick nrp clk n s = Some s' \<Longrightarrow> I s \<Longrightarrow> I s'"
  by (auto simp: usteer_local_node_kick_def bind_eq_Some_conv Let_def dest!: kept_dests intro!: kept_intros split: option.splits if_splits prod.splits)

subsection \<open>Messages between instances\<close>

lemma update_send_kept [simp]: "I (usteer_update_send head nodes s) = I s"
  by (simp add: update_send_eq)

lemma send_sta_update_kept [kept_dests]: "usteer_send_sta_update ntoa a s = Some s' \<Longrightarrow> I s \<Longrightarrow> I s'"
  by (auto simp: usteer_send_sta_update_def usteer_update_init_def bind_eq_Some_conv Let_def dest!: kept_dests intro!: kept_intros split: option.splits if_splits prod.splits)

lemma remote_free_kept [kept_dests]: "remote_node_free k s = Some s' \<Longrightarrow> I s \<Longrightarrow> I s'"
  by (auto simp: remote_node_free_def bind_eq_Some_conv Let_def dest!: kept_dests intro!: kept_intros split: option.splits if_splits prod.splits)

lemma check_node_kept [kept_dests]: "check_node tmo k s = Some s' \<Longrightarrow> I s \<Longrightarrow> I s'"
  by (auto simp: check_node_def same_identity_def same_kind_def bind_eq_Some_conv Let_def dest!: kept_dests intro!: kept_intros split: option.splits if_splits prod.splits)

lemma check_timeout_kept [kept_dests]: "usteer_check_timeout s = Some s' \<Longrightarrow> I s \<Longrightarrow> I s'"
  by (auto simp: usteer_check_timeout_def bind_eq_Some_conv Let_def elim!: for_each_kept intro!: kept_intros dest: kept_dests split: if_splits)

lemma update_timer_kept [kept_dests]: "usteer_send_update_timer ntoa clk s = Some s' \<Longrightarrow> I s \<Longrightarrow> I s'"
  by (auto simp: usteer_send_update_timer_def usteer_update_init_def bind_eq_Some_conv Let_def dest!: kept_dests intro!: kept_intros split: option.splits if_splits prod.splits)

subsection \<open>Handlers\<close>

lemma netifd_update_kept [kept_dests]: "netifd_update_node lk n s = Some s' \<Longrightarrow> I s \<Longrightarrow> I s'"
  by (auto simp: netifd_update_node_def same_kind_def bind_eq_Some_conv Let_def dest!: kept_dests intro!: kept_intros split: option.splits if_splits prod.splits)

lemma netifd_init_kept [kept_dests]: "netifd_init_node lk n s = Some s' \<Longrightarrow> I s \<Longrightarrow> I s'"
  by (auto simp: netifd_init_node_def same_kind_def bind_eq_Some_conv Let_def dest!: kept_dests intro!: kept_intros split: option.splits if_splits prod.splits)

lemma netifd_free_kept [kept_dests]: "netifd_free_node n s = Some s' \<Longrightarrow> I s \<Longrightarrow> I s'"
  by (auto simp: netifd_free_node_def bind_eq_Some_conv Let_def dest!: kept_dests intro!: kept_intros split: option.splits if_splits prod.splits)

lemma parse_radios_kind: "node_type (ln_node (fold netifd_parse_radio radios l)) = node_type (ln_node l)"
  by (simp add: parse_radios_eq parse_interfaces_eq netifd_parse_interface_config_def Let_def)

lemma netifd_status_kept [kept_intros]: "I s \<Longrightarrow> I (netifd_status_cb n radios s)"
  unfolding netifd_status_cb_def by (auto simp: same_kind_def parse_radios_kind intro!: kept_intros)

lemma update_result_kind:
  "node_type (ln_node (nl80211_update_node_result fl dbl f2i d l)) = node_type (ln_node l)"
  by (auto simp: nl80211_update_node_result_def Let_def split: option.split)

lemma get_survey_kind:
  "node_type (ln_node (nl80211_get_survey survey (nl80211_update_node_result fl dbl f2i) l)) = node_type (ln_node l)"
proof -
  have "node_type (ln_node (fold (nl80211_update_node_result fl dbl f2i) ds l)) = node_type (ln_node l)" for ds
    by (induction ds arbitrary: l) (simp_all add: update_result_kind)
  then show ?thesis by (simp add: nl80211_get_survey_def)
qed

lemma survey_kept [kept_intros]: "I s \<Longrightarrow> I (upd_local n (nl80211_update_node K) s)"
  by (auto simp: same_kind_def nl80211_update_node_def get_survey_kind intro!: kept_intros)

lemma init_kind: "node_type (ln_node (init_local_node K l)) = node_type (ln_node l)"
  by (simp add: init_local_node_def Let_def nl80211_update_node_def get_survey_kind split: option.split)

lemma nl80211_init_kept [kept_dests]: "nl80211_init_node K n s = Some s' \<Longrightarrow> I s \<Longrightarrow> I s'"
  by (auto simp: nl80211_init_node_def same_kind_def init_kind bind_eq_Some_conv Let_def dest!: kept_dests intro!: kept_intros split: option.splits if_splits prod.splits)

lemma nl80211_free_kept [kept_dests]: "nl80211_free_node n s = Some s' \<Longrightarrow> I s \<Longrightarrow> I s'"
  by (auto simp: nl80211_free_node_def same_kind_def bind_eq_Some_conv Let_def dest!: kept_dests intro!: kept_intros split: option.splits if_splits prod.splits)

lemma handlers_init_kept [kept_dests]: "call_handlers h_init_node (node_handlers K ins rd lk) n s = Some s' \<Longrightarrow> I s \<Longrightarrow> I s'"
  by (auto simp: node_handlers_def nl80211_handler_def netifd_handler_def call_handlers_def bind_eq_Some_conv Let_def dest!: kept_dests intro!: kept_intros split: option.splits if_splits prod.splits)

lemma handlers_free_kept [kept_dests]: "call_handlers h_free_node (node_handlers K ins rd lk) n s = Some s' \<Longrightarrow> I s \<Longrightarrow> I s'"
  by (auto simp: node_handlers_def nl80211_handler_def netifd_handler_def call_handlers_def bind_eq_Some_conv Let_def dest!: kept_dests intro!: kept_intros split: option.splits if_splits prod.splits)

lemma handlers_update_kept [kept_dests]: "call_handlers h_update_node (node_handlers K ins rd lk) n s = Some s' \<Longrightarrow> I s \<Longrightarrow> I s'"
  by (auto simp: node_handlers_def nl80211_handler_def netifd_handler_def call_handlers_def bind_eq_Some_conv Let_def dest!: kept_dests intro!: kept_intros split: option.splits if_splits prod.splits)

subsection \<open>Local nodes\<close>

lemma state_reset_kept [kept_dests]: "usteer_local_node_state_reset n s = Some s' \<Longrightarrow> I s \<Longrightarrow> I s'"
  by (auto simp: usteer_local_node_state_reset_def same_kind_def bind_eq_Some_conv Let_def dest!: kept_dests intro!: kept_intros split: option.splits if_splits prod.splits)

lemma free_node_kept [kept_dests]: "usteer_free_node (node_handlers K ins rd lk) n s = Some s' \<Longrightarrow> I s \<Longrightarrow> I s'"
  by (auto simp: usteer_free_node_def same_kind_def bind_eq_Some_conv Let_def dest!: kept_dests intro!: kept_intros split: option.splits if_splits prod.splits)

lemma rrm_nr_kept [kept_dests]:
  "usteer_local_node_rrm_nr_cb B aton (node_handlers K ins rd lk) n tb ba0 ba1 s = Some s' \<Longrightarrow> I s \<Longrightarrow> I s'"
  by (cases tb; cases ba0; cases ba1)
    (auto simp: usteer_local_node_rrm_nr_cb_def same_kind_def bind_eq_Some_conv Let_def dest!: kept_dests intro!: kept_intros
      simp del: upd_node.simps split: if_splits)

lemma req_cb_kept [kept_intros]: "I s \<Longrightarrow> I (usteer_local_node_req_cb n s)"
  unfolding usteer_local_node_req_cb_def by (auto simp: same_kind_def intro!: kept_intros)

lemma state_next_kept [kept_dests]: "usteer_local_node_state_next n s = Some s' \<Longrightarrow> I s \<Longrightarrow> I s'"
proof -
  assume nx: "usteer_local_node_state_next n s = Some s'" and "I s"
  then obtain l where "get_local s n = Some l" by (auto simp: usteer_local_node_state_next_def bind_eq_Some_conv)
  with nx \<open>I s\<close> show "I s'"
    by (cases "ln_req_state l")
      (auto simp: usteer_local_node_state_next_def same_kind_def bind_eq_Some_conv Let_def intro!: kept_intros)
qed

lemma node_update_kept [kept_dests]: "usteer_local_node_update (node_handlers K ins rd lk) nrp clk n s = Some s' \<Longrightarrow> I s \<Longrightarrow> I s'"
  by (auto simp: usteer_local_node_update_def same_kind_def bind_eq_Some_conv Let_def dest!: kept_dests intro!: kept_intros split: option.splits if_splits prod.splits)

lemma get_node_kept [kept_intros]: "I s \<Longrightarrow> is_hostapd n \<Longrightarrow> I (usteer_get_node n s)"
  using local_add [of "emit (Ubus_register n) s" n "calloc_local_node\<lparr>ln_update_timer := Some 1\<rparr>"]
  by (auto simp: usteer_get_node_def calloc_local_node_def calloc_node_def get_local_def split: option.splits)

lemma run_script_kept [simp]: "I (usteer_node_run_update_script l s) = I s"
  by (auto simp: usteer_node_run_update_script_def split: option.split)

lemma register_kept [kept_dests]: "usteer_register_node (node_handlers K ins rd lk) idx obj s = Some s' \<Longrightarrow> I s \<Longrightarrow> I s'"
  by (auto simp: usteer_register_node_def same_kind_def is_hostapd_def bind_eq_Some_conv Let_def dest!: kept_dests intro!: kept_intros split: option.splits if_splits prod.splits)

lemma event_handler_kept [kept_dests]: "usteer_event_handler (node_handlers K ins rd lk) idx i p s = Some s' \<Longrightarrow> I s \<Longrightarrow> I s'"
  by (auto simp: usteer_event_handler_def bind_eq_Some_conv Let_def dest!: kept_dests intro!: kept_intros split: option.splits if_splits prod.splits)

lemma nodes_init_kept [kept_dests]: "usteer_local_nodes_init (node_handlers K ins rd lk) idx objs s = Some s' \<Longrightarrow> I s \<Longrightarrow> I s'"
  by (auto simp: usteer_local_nodes_init_def usteer_register_events_def node_list_cb_def bind_eq_Some_conv Let_def elim!: for_each_kept intro!: kept_intros dest: kept_dests split: if_splits)

lemma node_up_script_kept [kept_intros]: "I s \<Longrightarrow> I (config_set_node_up_script v s)"
proof -
  have "I (fold (\<lambda>(_, l). usteer_node_run_update_script l) ls t) = I t" for ls :: "(string \<times> usteer_local_node) list" and t
    by (induction ls arbitrary: t) (simp_all add: case_prod_unfold)
  then show "I s \<Longrightarrow> I (config_set_node_up_script v s)" by (simp add: config_set_node_up_script_def)
qed

lemma vendor_timer_kept [kept_dests]: "usteer_vendor_update_timer idx ifaddr clk s = Some s' \<Longrightarrow> I s \<Longrightarrow> I s'"
  by (auto simp: usteer_vendor_update_timer_def Let_def elim!: vendor_set_out)

lemma reload_kept [kept_intros]: "I s \<Longrightarrow> I (usteer_reload_timer fd bound s)"
  by (simp add: usteer_reload_timer_def Let_def)

end

section \<open>Setting timers\<close>

locale kept_timers = kept +
  fixes ins :: tree_insert and time_ok :: "u32 \<Rightarrow> bool" and ms_ok :: "s32 \<Rightarrow> bool"
  assumes timer_set: "I s \<Longrightarrow> time_ok now \<Longrightarrow> 0 < sint ms \<Longrightarrow> ms = local_sta_timeout (config s) \<or> ms_ok ms \<Longrightarrow>
      I (s\<lparr>tq := usteer_timeout_set ins (tq s) a ms now\<rparr>)"
begin

lemma update_timeout_kept [kept_dests]:
  "usteer_sta_info_update_timeout ins now a ms s = Some s' \<Longrightarrow> ms = local_sta_timeout (config s) \<or> ms_ok ms \<Longrightarrow>
   time_ok now \<Longrightarrow> I s \<Longrightarrow> I s'"
  by (auto simp: usteer_sta_info_update_timeout_def bind_eq_Some_conv dest!: sta_info_del_kept intro!: cancel timer_set
      split: if_splits)

lemma info_update_kept [kept_dests]:
  "usteer_sta_info_update ins now a signal avg s = Some s' \<Longrightarrow> time_ok now \<Longrightarrow> I s \<Longrightarrow> I s'"
  by (auto simp: usteer_sta_info_update_def bind_eq_Some_conv Let_def dest!: kept_dests)

lemma upd_stats_kept [kept_dests]: "upd_stats a type f s = Some s' \<Longrightarrow> I s \<Longrightarrow> I s'"
  by (auto simp: upd_stats_def bind_eq_Some_conv dest!: kept_dests)

lemma sta_event_kept [kept_dests]:
  "usteer_handle_sta_event ins ntoa now r addr type freq signal s = Some (ret, s') \<Longrightarrow> time_ok now \<Longrightarrow> I s \<Longrightarrow> I s'"
  by (auto simp: usteer_handle_sta_event_def usteer_sta_get_def bind_eq_Some_conv Let_def dest!: kept_dests
      split: option.splits if_splits)

lemma event_kept [kept_dests]:
  "usteer_handle_event aton ins ntoa clk now n kind msg s = Some (st, s') \<Longrightarrow> time_ok now \<Longrightarrow> I s \<Longrightarrow> I s'"
  by (auto simp: usteer_handle_event_def bind_eq_Some_conv Let_def dest!: kept_dests split: option.splits if_splits)

lemma update_sta_kept [kept_dests]:
  "nl80211_update_sta K ins now n a s = Some s' \<Longrightarrow> time_ok now \<Longrightarrow> I s \<Longrightarrow> I s'"
  by (auto simp: nl80211_update_sta_def bind_eq_Some_conv dest!: kept_dests split: if_splits option.splits)

lemma handlers_update_sta_kept [kept_dests]:
  "call_update_sta (node_handlers K ins rd lk) n a s = Some s' \<Longrightarrow> time_ok (rd a) \<Longrightarrow> I s \<Longrightarrow> I s'"
  by (auto simp: call_update_sta_def node_handlers_def nl80211_handler_def netifd_handler_def bind_eq_Some_conv dest!: kept_dests)

lemma assoc_update_kept [kept_dests]: "usteer_local_node_assoc_update a data s = Some s' \<Longrightarrow> I s \<Longrightarrow> I s'"
  by (auto simp: usteer_local_node_assoc_update_def bind_eq_Some_conv dest!: kept_dests split: option.splits if_splits)

lemma active_bytes_kept [kept_dests]: "usteer_update_client_active_bytes a data s = Some s' \<Longrightarrow> I s \<Longrightarrow> I s'"
  by (auto simp: usteer_update_client_active_bytes_def bind_eq_Some_conv Let_def dest!: kept_dests
      split: option.split_asm prod.split_asm if_split_asm)

lemma client_update_kept:
  "client_update aton (node_handlers K ins rd lk) fl n cur (k, s) = Some (k', s') \<Longrightarrow> (\<And>a. time_ok (rd a)) \<Longrightarrow> I s \<Longrightarrow> I s'"
  by (auto simp: client_update_def bind_eq_Some_conv Let_def case_prod_unfold dest!: kept_dests split: option.splits)

lemma mark_kept: "mark_connected a s = Some s' \<Longrightarrow> I s \<Longrightarrow> I s'"
  by (auto simp: mark_connected_def bind_eq_Some_conv dest!: kept_dests split: if_splits)

lemma sweep_kept: "sweep_disconnected ins now a s = Some s' \<Longrightarrow> time_ok now \<Longrightarrow> I s \<Longrightarrow> I s'"
  by (auto simp: sweep_disconnected_def bind_eq_Some_conv dest!: kept_dests split: if_splits)

lemma set_assoc_kept [kept_dests]:
  assumes "usteer_local_node_set_assoc aton (node_handlers K ins rd lk) fl ins now n cl s = Some s'" "I s"
    and ok: "\<And>a. time_ok (rd a)" "\<And>j. time_ok (now j)"
  shows "I s'"
proof -
  from assms(1) obtain nd where
    "get_node s (NLocal n) = Some nd" and r1: "do {
       s \<leftarrow> for_each mark_connected (node_sta_info nd) s;
       (k, s) \<leftarrow> for_each (client_update aton (node_handlers K ins rd lk) fl n) cl (0, s);
       let s = upd_node (NLocal n) (\<lambda>nd. nd\<lparr>node_n_assoc := k\<rparr>) s;
       nd \<leftarrow> get_node s (NLocal n);
       for_each (\<lambda>(j, a). sweep_disconnected ins (now j) a) (enumerate 0 (node_sta_info nd)) s
     } = Some s'"
    unfolding usteer_local_node_set_assoc_def by (rule bind_SomeE)
  from r1 obtain s1 where s1: "for_each mark_connected (node_sta_info nd) s = Some s1" and r2: "do {
       (k, s) \<leftarrow> for_each (client_update aton (node_handlers K ins rd lk) fl n) cl (0, s1);
       let s = upd_node (NLocal n) (\<lambda>nd. nd\<lparr>node_n_assoc := k\<rparr>) s;
       nd \<leftarrow> get_node s (NLocal n);
       for_each (\<lambda>(j, a). sweep_disconnected ins (now j) a) (enumerate 0 (node_sta_info nd)) s
     } = Some s'" by (rule bind_SomeE)
  obtain k s2 where s2: "for_each (client_update aton (node_handlers K ins rd lk) fl n) cl (0, s1) = Some (k, s2)"
    and r3: "do {
       nd \<leftarrow> get_node (upd_node (NLocal n) (\<lambda>nd. nd\<lparr>node_n_assoc := k\<rparr>) s2) (NLocal n);
       for_each (\<lambda>(j, a). sweep_disconnected ins (now j) a) (enumerate 0 (node_sta_info nd))
         (upd_node (NLocal n) (\<lambda>nd. nd\<lparr>node_n_assoc := k\<rparr>) s2)
     } = Some s'"
    using r2 by (rule bind_SomeE) (simp only: Let_def split: prod.splits)
  from r3 obtain nd' where "get_node (upd_node (NLocal n) (\<lambda>nd. nd\<lparr>node_n_assoc := k\<rparr>) s2) (NLocal n) = Some nd'"
    and s': "for_each (\<lambda>(j, a). sweep_disconnected ins (now j) a) (enumerate 0 (node_sta_info nd'))
      (upd_node (NLocal n) (\<lambda>nd. nd\<lparr>node_n_assoc := k\<rparr>) s2) = Some s'" by (rule bind_SomeE)
  have "I s1" by (rule for_each_kept [OF s1 assms(2)]) (rule mark_kept)
  have "I (snd (k, s2))" using s2
  proof (rule for_each_invariant [where P = "\<lambda>x. I (snd x)"])
    show "I (snd (0, s1))" using \<open>I s1\<close> by simp
    fix x t t' assume "I (snd t)" "client_update aton (node_handlers K ins rd lk) fl n x t = Some t'"
    then show "I (snd t')"
      using client_update_kept [of aton K rd lk fl n x "fst t" "snd t" "fst t'" "snd t'"] ok(1) by simp
  qed
  then have "I (upd_node (NLocal n) (\<lambda>nd. nd\<lparr>node_n_assoc := k\<rparr>) s2)"
    by (intro upd_kept(2)) (simp_all add: same_kind_def)
  with s' show "I s'" by (rule for_each_kept) (auto dest: sweep_kept [OF _ ok(2)])
qed

lemma list_cb_kept [kept_dests]:
  "usteer_local_node_list_cb aton (node_handlers K ins rd lk) fl ins now n freq clients s = Some s' \<Longrightarrow>
   (\<And>a. time_ok (rd a)) \<Longrightarrow> (\<And>j. time_ok (now j)) \<Longrightarrow> I s \<Longrightarrow> I s'"
  by (auto simp: usteer_local_node_list_cb_def same_kind_def simp del: upd_node.simps dest!: kept_dests intro!: upd_kept
      split: option.splits)

lemma add_station_kept:
  "interface_add_station B ins now k x s = Some s' \<Longrightarrow> (\<And>m. parse_apmsg_sta B x = Some m \<Longrightarrow> ms_ok (aps_timeout m)) \<Longrightarrow>
   time_ok now \<Longrightarrow> I s \<Longrightarrow> I s'"
  by (auto simp: interface_add_station_def bind_eq_Some_conv dest!: kept_dests split: option.splits if_splits)

end

section \<open>Remote nodes\<close>

text \<open>The timeouts of all stations in a node record.\<close>

definition record_timeouts :: "'b libblob \<Rightarrow> 'b \<Rightarrow> s32 set" where
  "record_timeouts B data = {aps_timeout m | m msg x. parse_apmsg_node B data = Some msg \<and>
     x \<in> set (blob_attrs B (apn_stations msg)) \<and> parse_apmsg_sta B x = Some m}"

locale kept_recv = kept_timers +
  fixes rins :: remote_insert and ids :: "u64 set"
  assumes remote_add: "I s \<Longrightarrow> i \<in> ids \<Longrightarrow>
      I (s\<lparr>remote_nodes := rins (rn_next s, new_remote_node addr i name) (remote_nodes s), rn_next := Suc (rn_next s)\<rparr>)"
begin

lemma interface_get_node_kept: "interface_get_node rfind rins addr i name s = (k, s') \<Longrightarrow> i \<in> ids \<Longrightarrow> I s \<Longrightarrow> I s'"
  by (auto simp: interface_get_node_def Let_def intro: remote_add split: option.splits)

lemma add_node_kept:
  assumes "interface_add_node B rfind rins ins aton now iface addr i data s = Some s'" "I s" "i \<in> ids"
    and ok: "\<And>j. time_ok (now j)" "\<And>ms. ms \<in> record_timeouts B data \<Longrightarrow> ms_ok ms"
  shows "I s'"
proof (cases "parse_apmsg_node B data")
  case None
  with assms show ?thesis by (simp add: interface_add_node_def)
next
  case (Some msg)
  from assms(1) Some obtain ssid where ssid: "apn_ssid msg = Some ssid"
    and body: "(if \<not> usteer_is_valid_ssid s ssid then Some s
      else do {
        name \<leftarrow> apn_name msg;
        let (k, s) = interface_get_node rfind rins addr i name s;
        rn \<leftarrow> get_remote s k;
        rn \<leftarrow> set_remote_node B iface msg ssid rn;
        str \<leftarrow> apn_bssid msg;
        bssid \<leftarrow> aton str;
        let s = upd_remote k (\<lambda>_. rn\<lparr>rn_node := (rn_node rn)\<lparr>node_bssid := bssid\<rparr>\<rparr>) s;
        for_each (\<lambda>(j, x). interface_add_station B ins (now j) k x)
          (enumerate 0 (blob_attrs B (apn_stations msg))) s
      }) = Some s'"
    by (simp add: interface_add_node_def bind_eq_Some_conv del: split_paired_Ex) blast
  show ?thesis
  proof (cases "usteer_is_valid_ssid s ssid")
    case False
    with body assms(2) show ?thesis by simp
  next
    case True
    with body obtain name where "apn_name msg = Some name" by (auto simp: bind_eq_Some_conv)
    obtain k s1 where s1: "interface_get_node rfind rins addr i name s = (k, s1)" by fastforce
    with body True \<open>apn_name msg = Some name\<close> obtain rn rn2 b where
      rn: "get_remote s1 k = Some rn" and rn2: "set_remote_node B iface msg ssid rn = Some rn2"
      and s': "for_each (\<lambda>(j, x). interface_add_station B ins (now j) k x) (enumerate 0 (blob_attrs B (apn_stations msg)))
        (upd_remote k (\<lambda>_. rn2\<lparr>rn_node := (rn_node rn2)\<lparr>node_bssid := b\<rparr>\<rparr>) s1) = Some s'"
      by (simp add: bind_eq_Some_conv) blast
    have "same_identity rn (rn2\<lparr>rn_node := (rn_node rn2)\<lparr>node_bssid := b\<rparr>\<rparr>)"
      using rn2 by (auto simp: set_remote_node_def bind_eq_Some_conv Let_def same_identity_def same_kind_def)
    with rn interface_get_node_kept [OF s1 assms(3,2)]
    have "I (upd_remote k (\<lambda>_. rn2\<lparr>rn_node := (rn_node rn2)\<lparr>node_bssid := b\<rparr>\<rparr>) s1)" by (intro upd_kept(3)) auto
    with s' show ?thesis
    proof (rule for_each_kept)
      fix x t t' assume "x \<in> set (enumerate 0 (blob_attrs B (apn_stations msg)))"
        "(\<lambda>(j, x). interface_add_station B ins (now j) k x) x t = Some t'" "I t"
      moreover from this(1) have "snd x \<in> set (blob_attrs B (apn_stations msg))" by (rule enumerate_mem)
      moreover obtain j y where "x = (j, y)" by fastforce
      ultimately show "I t'"
        using Some ok by (auto simp: record_timeouts_def elim!: add_station_kept)
    qed
  qed
qed

lemma recv_msg_kept:
  assumes "interface_recv_msg B rfind rins ins aton now iface addr data len s = Some s'" "I s"
    and "\<And>j l. time_ok (now j l)"
    and msg: "\<And>msg. parse_apmsg B data = Some msg \<Longrightarrow> ucast (apmsg_id msg) \<in> ids \<and>
      (\<forall>x \<in> set (blob_attrs B (apmsg_nodes msg)). \<forall>ms \<in> record_timeouts B x. ms_ok ms)"
  shows "I s'"
proof (cases "s' = s")
  case False
  with assms(1) obtain m where m: "parse_apmsg B data = Some m"
    and run: "for_each (\<lambda>(j, x). interface_add_node B rfind rins ins aton (now j) iface addr (ucast (apmsg_id m)) x)
      (enumerate 0 (blob_attrs B (apmsg_nodes m))) s = Some s'"
    by (auto simp: interface_recv_msg_def split: if_splits option.splits)
  from run assms(2) show ?thesis
  proof (rule for_each_kept)
    fix x t t' assume x: "x \<in> set (enumerate 0 (blob_attrs B (apmsg_nodes m)))"
      "(\<lambda>(j, x). interface_add_node B rfind rins ins aton (now j) iface addr (ucast (apmsg_id m)) x) x t = Some t'" "I t"
    from x(1) have "snd x \<in> set (blob_attrs B (apmsg_nodes m))" by (rule enumerate_mem)
    with msg [OF m] x(2,3) show "I t'"
      by (auto simp: case_prod_unfold intro: add_node_kept [OF _ _ _ assms(3)])
  qed
qed (use assms in simp)

lemma recv_loop_kept:
  assumes "recv_loop B rfind rins ins aton ntop now rs s = Some s'" "I s"
    and "\<And>n j l. time_ok (now n j l)"
    and "\<And>sc addr data len msg. Recv_packet sc addr data len \<in> set rs \<Longrightarrow> parse_apmsg B data = Some msg \<Longrightarrow>
      ucast (apmsg_id msg) \<in> ids \<and> (\<forall>x \<in> set (blob_attrs B (apmsg_nodes msg)). \<forall>ms \<in> record_timeouts B x. ms_ok ms)"
  shows "I s'"
  using assms
proof (induction rs arbitrary: now s)
  case (Cons r rs)
  have rest: "I s'" if "recv_loop B rfind rins ins aton ntop (\<lambda>n. now (Suc n)) rs t = Some s'" "I t" for t
    by (rule Cons.IH [OF that]) (rule Cons.prems(3), rule Cons.prems(4) [OF list.set_intros(2)])
  show ?case
  proof (cases r)
    case (Recv_error e)
    with Cons.prems rest show ?thesis by (cases e) auto
  next
    case (Recv_packet sc addr data len)
    show ?thesis
    proof (cases "interface_find_by_ifindex s sc")
      case None
      with Recv_packet Cons.prems rest show ?thesis by simp
    next
      case (Some iface)
      with Recv_packet Cons.prems(1) obtain t where
        t: "interface_recv_msg B rfind rins ins aton (now 0) iface (ntop addr) data len s = Some t"
          "recv_loop B rfind rins ins aton ntop (\<lambda>n. now (Suc n)) rs t = Some s'"
        by (auto simp: bind_eq_Some_conv)
      from recv_msg_kept [OF t(1) Cons.prems(2,3)] Cons.prems(4) [of sc addr data len] Recv_packet
      have "I t" by simp
      with t(2) show ?thesis by (rule rest)
    qed
  qed
qed simp

end

section \<open>Configuration\<close>

locale kept_config = kept +
  assumes config_upd: "I s \<Longrightarrow> I (s\<lparr>config := c\<rparr>)"
    and interfaces_upd: "I s \<Longrightarrow> (dict_ok (interfaces s) \<Longrightarrow> dict_ok ifs) \<Longrightarrow> I (s\<lparr>interfaces := ifs\<rparr>)"
begin

lemma update_cb_kept: "interfaces_update_cb idx new old s = Some s' \<Longrightarrow> I s \<Longrightarrow> I s'"
  by (cases new; cases old) (auto simp: interface_check_def interface_init_def interface_free_def intro!: interfaces_upd)

lemma interface_add_kept: "usteer_interface_add idx name s = Some s' \<Longrightarrow> I s \<Longrightarrow> I s'"
  by (auto simp: usteer_interface_add_def map_of_eq_None_iff simp del: interfaces_update_cb.simps
      dest!: update_cb_kept intro!: interfaces_upd split: option.splits)

lemma set_interfaces_kept: "config_set_interfaces idx data s = Some s' \<Longrightarrow> I s \<Longrightarrow> I s'"
  by (auto simp: config_set_interfaces_def bind_eq_Some_conv split: option.splits
      elim!: for_each_kept dest: interface_add_kept update_cb_kept simp del: interfaces_update_cb.simps)

lemma set_ssid_kept:
  "config_set_ssid env data s = Some s' \<Longrightarrow> env_handlers env = node_handlers K ins rd lk \<Longrightarrow> I s \<Longrightarrow> I s'"
  by (auto simp: config_set_ssid_def split: option.splits dest!: nodes_init_kept)

lemma set_item_kept:
  assumes "set_item msg it s = Some s'" "it \<in> set (config_data env)" "env_handlers env = node_handlers K ins rd lk" "I s"
  shows "I s'"
proof (cases it)
  case (CFG_ARRAY_CB name g cb)
  then have "cb = config_set_interfaces (env_nametoindex env) \<or> cb = config_set_ssid env"
    using assms(2) by (auto simp: config_data_def config_scalars_def)
  with CFG_ARRAY_CB assms show ?thesis
    by (auto split: option.splits dest: set_interfaces_kept set_ssid_kept)
next
  case (CFG_STRING_CB name g cb)
  then have "cb = (\<lambda>v s. Some (config_set_node_up_script v s))"
    using assms(2) by (auto simp: config_data_def config_scalars_def)
  with CFG_STRING_CB assms show ?thesis by (auto split: option.splits intro: node_up_script_kept)
qed (use assms in \<open>auto split: option.splits intro: config_upd\<close>)

lemma set_config_kept:
  assumes "usteer_ubus_set_config env name msg s = Some s'" "env_handlers env = node_handlers K ins rd lk" "I s"
  shows "I s'"
proof -
  let ?s = "if name = ''set_config'' then s\<lparr>config := usteer_init_defaults\<rparr> else s"
  have "for_each (set_item msg) (config_data env) ?s = Some s'"
    using assms(1) by (simp add: usteer_ubus_set_config_def)
  moreover have "I ?s" using assms(3) config_upd by simp
  ultimately show ?thesis by (rule for_each_kept) (rule set_item_kept [OF _ _ assms(2)])
qed

end

section \<open>The timers\<close>

text \<open>The queue is a tree without duplicates in the order of its reference time.\<close>

definition timers_ordered :: "usteer_state \<Rightarrow> bool" where
  "timers_ordered s \<longleftrightarrow> tq_wf (tq s) \<and> tq_sorted_at (tq_ref (tq s)) (tq s)"

text \<open>
  All pending timers lie within about twelve days of a time \<open>t0\<close>, the reference time within
  about six, and timeouts are shorter than that. (The clock of the queue has 32 bits of milliseconds, 49 days.)
\<close>

definition near :: "u32 \<Rightarrow> u32 \<Rightarrow> bool" where
  "near t0 r \<longleftrightarrow> \<bar>sint (r - t0)\<bar> < 2 ^ 29"

definition short :: "s32 \<Rightarrow> bool" where
  "short ms \<longleftrightarrow> sint ms < 2 ^ 29"

definition timely :: "u32 \<Rightarrow> usteer_state \<Rightarrow> bool" where
  "timely t0 s \<longleftrightarrow> short (local_sta_timeout (config s)) \<and>
     (tq_tree (tq s) \<noteq> [] \<longrightarrow> near t0 (tq_ref (tq s))) \<and> (\<forall>x \<in> set (tq_tree (tq s)). \<bar>sint (fst x - t0)\<bar> < 2 ^ 30)"

lemma sint_minus_via:
  fixes a b t0 :: "32 word"
  assumes "\<bar>sint (a - t0)\<bar> < 2 ^ 30" "\<bar>sint (b - t0)\<bar> < 2 ^ 30"
  shows "sint (a - b) = sint (a - t0) - sint (b - t0)"
  using sint32_diff [of "a - t0" "b - t0"] assms by simp

lemma timely_window:
  assumes "timely t0 s" "near t0 r"
  shows "tq_window (tq s) r"
  unfolding tq_window_def
proof
  fix x assume x: "x \<in> set (tq_tree (tq s))"
  then have "tq_tree (tq s) \<noteq> []" by auto
  with assms x have b: "\<bar>sint (fst x - t0)\<bar> < 2 ^ 30" "\<bar>sint (tq_ref (tq s) - t0)\<bar> < 2 ^ 29" "\<bar>sint (r - t0)\<bar> < 2 ^ 29"
    by (auto simp: timely_def near_def)
  then have "sint (fst x - tq_ref (tq s)) - sint (r - tq_ref (tq s)) = sint (fst x - t0) - sint (r - t0)"
    using sint_minus_via [of "fst x" t0 "tq_ref (tq s)"] sint_minus_via [of r t0 "tq_ref (tq s)"] by simp
  with b show "sint (fst x - tq_ref (tq s)) - sint (r - tq_ref (tq s)) \<in> {- (2 ^ 31)..<2 ^ 31}" by auto
qed

lemma timer_near:
  assumes "near t0 now" "0 < sint ms" "short ms"
  shows "\<bar>sint (now + ms - t0)\<bar> < 2 ^ 30"
proof -
  have "sint (- ms) = - sint ms"
    using sint32_diff [of 0 ms] assms(2,3) by (simp add: short_def)
  then have "sint (now - t0 - (- ms)) = sint (now - t0) + sint ms"
    using sint32_diff [of "now - t0" "- ms"] assms by (simp add: near_def short_def abs_less_iff)
  moreover have "sint (now + ms - t0) = sint (now - t0 - (- ms))" by (simp add: algebra_simps)
  ultimately show ?thesis using assms(1,2,3) by (auto simp: near_def short_def simp del: minus_diff_eq diff_minus_eq_add)
qed

lemma sorted_recalc [simp]: "tq_sorted_at t (usteer_timeout_recalc q time) = tq_sorted_at t q"
  by (simp add: tq_sorted_at_def)

lemma timers_ordered_set:
  assumes "avl_dups_tree ins" "timers_ordered s" "timely t0 s" "near t0 now"
  shows "timers_ordered (s\<lparr>tq := usteer_timeout_set ins (tq s) a ms now\<rparr>)"
  using assms avl_dups_tree.set_wf [OF assms(1)] avl_dups_tree.set_sorted [OF assms(1) _ _ timely_window [OF assms(3,4)]]
  by (simp add: timers_ordered_def avl_dups_tree.set_ref [OF assms(1)])

lemma timely_set:
  assumes "avl_dups_tree ins" "timers_ordered s" "timely t0 s" "near t0 now" "0 < sint ms" "short ms"
  shows "timely t0 (s\<lparr>tq := usteer_timeout_set ins (tq s) a ms now\<rparr>)"
  using assms timer_near [OF assms(4-6)]
  by (auto simp: timers_ordered_def timely_def avl_dups_tree.set_ref [OF assms(1)] avl_dups_tree.set_tree_set [OF assms(1)])

interpretation queue: kept_config timers_ordered
  by unfold_locales (auto simp: timers_ordered_def tq_wf_cancel cancel_tree elim: tq_sorted_at_filter)

lemma queue_kept:
  assumes "avl_dups_tree ins"
  shows "kept_recv (\<lambda>s. timers_ordered s \<and> timely t0 s) ins (near t0) short rins ids"
proof unfold_locales
  fix s now ms a
  assume s: "timers_ordered s \<and> timely t0 s" "near t0 now" "0 < sint ms" "ms = local_sta_timeout (config s) \<or> short ms"
  then have "short ms" by (auto simp: timely_def)
  with s timers_ordered_set [OF assms] timely_set [OF assms]
  show "timers_ordered (s\<lparr>tq := usteer_timeout_set ins (tq s) a ms now\<rparr>) \<and>
    timely t0 (s\<lparr>tq := usteer_timeout_set ins (tq s) a ms now\<rparr>)" by blast
qed (auto simp: timers_ordered_def timely_def tq_wf_cancel cancel_tree elim: tq_sorted_at_filter)

interpretation queue_list: kept_recv "\<lambda>s. timers_ordered s \<and> timely t0 s" ordered_insert "near t0" short remote_insert_list UNIV
  for t0
  by (rule queue_kept [OF ordered.avl_dups_tree_axioms])

section \<open>The remote nodes\<close>

text \<open>The tree is ordered, no node is in it twice, and an instance has one node of a name.\<close>

definition nodes_ordered :: "usteer_state \<Rightarrow> bool" where
  "nodes_ordered s \<longleftrightarrow> remote_sorted (remote_nodes s) \<and> distinct (map fst (remote_nodes s)) \<and> remote_unique s"

lemma unique_alt:
  "remote_unique s \<longleftrightarrow> (\<forall>k k' rn rn'. get_remote s k = Some rn \<longrightarrow> get_remote s k' = Some rn' \<longrightarrow>
     rn_key rn' = rn_key rn \<longrightarrow> rn_name rn' = rn_name rn \<longrightarrow> k' = k)"
  by (fastforce simp: remote_unique_def remote_view_def rn_attrs_def)

lemma modify_keys:
  assumes "distinct (map fst xs)" "\<And>rn. map_of xs k = Some rn \<Longrightarrow> rn_key (g rn) = rn_key rn"
  shows "map node_key (dict_modify k g xs) = map node_key xs"
  using assms by (auto simp: dict_modify_def)

lemma nodes_ordered_upd:
  assumes "nodes_ordered s" "\<And>rn. get_remote s k = Some rn \<Longrightarrow> same_identity rn (g rn)"
  shows "nodes_ordered (s\<lparr>remote_nodes := dict_modify k g (remote_nodes s)\<rparr>)"
proof -
  have "map node_key (dict_modify k g (remote_nodes s)) = map node_key (remote_nodes s)"
    using assms by (intro modify_keys) (auto simp: nodes_ordered_def get_remote_def same_identity_def)
  from sorted_keys_cong [OF this] assms show ?thesis
    unfolding nodes_ordered_def unique_alt
    by (auto simp: get_remote_def same_identity_def split: if_splits; metis)
qed

lemma nodes_ordered_del:
  assumes "nodes_ordered s"
  shows "nodes_ordered (s\<lparr>remote_nodes := dict_delete k (remote_nodes s)\<rparr>)"
proof -
  have "remote_sorted (dict_delete k (remote_nodes s))"
    using assms by (auto simp: nodes_ordered_def remote_sorted_def dict_delete_def sorted_wrt_filter elim: ids_ordered_mono)
  with assms show ?thesis
    unfolding nodes_ordered_def unique_alt by (auto simp: get_remote_def dict_delete_def distinct_map_filter)
qed

lemma nodes_ordered_frame:
  "remote_nodes s' = remote_nodes s \<Longrightarrow> nodes_ordered s \<Longrightarrow> nodes_ordered s'"
  "nodes_ordered (s\<lparr>tq := x1\<rparr>) = nodes_ordered s" "nodes_ordered (s\<lparr>local_nodes := x2\<rparr>) = nodes_ordered s"
  "nodes_ordered (s\<lparr>config := x3\<rparr>) = nodes_ordered s" "nodes_ordered (s\<lparr>interfaces := x4\<rparr>) = nodes_ordered s"
  by (simp_all add: nodes_ordered_def unique_alt get_remote_def)

interpretation nodes: kept_config nodes_ordered
  by unfold_locales (simp_all add: nodes_ordered_frame(2-) nodes_ordered_upd nodes_ordered_del, blast intro: nodes_ordered_frame(1))

interpretation nodes_timers: kept_timers nodes_ordered ins "\<lambda>_. True" "\<lambda>_. True" for ins
  by unfold_locales (simp add: nodes_ordered_frame(2))

section \<open>The types of the nodes\<close>

definition local_typed :: "string \<Rightarrow> usteer_local_node \<Rightarrow> bool" where
  "local_typed n l \<longleftrightarrow> is_hostapd n \<and> node_type (ln_node l) = NODE_TYPE_LOCAL"

definition remote_typed :: "usteer_remote_node \<Rightarrow> bool" where
  "remote_typed rn \<longleftrightarrow> node_type (rn_node rn) = NODE_TYPE_REMOTE \<and> (\<exists>addr. rn_full_name rn = addr @ ''#'' @ rn_name rn)"

text \<open>All nodes are in the right table, and the tables are dictionaries.\<close>

definition well_typed :: "usteer_state \<Rightarrow> bool" where
  "well_typed s \<longleftrightarrow> (\<forall>n l. get_local s n = Some l \<longrightarrow> local_typed n l) \<and>
     (\<forall>k rn. get_remote s k = Some rn \<longrightarrow> remote_typed rn \<and> k < rn_next s) \<and>
     distinct (map fst (remote_nodes s)) \<and> dict_ok (interfaces s)"

lemma well_typed_upd:
  assumes "well_typed s" "\<And>rn. get_remote s k = Some rn \<Longrightarrow> same_identity rn (g rn)"
  shows "well_typed (s\<lparr>remote_nodes := dict_modify k g (remote_nodes s)\<rparr>)"
  using assms
  by (auto simp: well_typed_def get_local_def get_remote_def same_identity_def same_kind_def remote_typed_def split: if_splits)

lemma well_typed_local:
  assumes "well_typed s" "\<And>l. same_kind (ln_node l) (ln_node (f l))"
  shows "well_typed (s\<lparr>local_nodes := dict_modify n f (local_nodes s)\<rparr>)"
  using assms by (auto simp: well_typed_def get_local_def get_remote_def same_kind_def local_typed_def split: if_splits)

lemma well_typed_add:
  assumes "well_typed s" "is_hostapd n" "get_local s n = None" "node_type (ln_node l) = NODE_TYPE_LOCAL"
  shows "well_typed (s\<lparr>local_nodes := dict_insert n l (local_nodes s)\<rparr>)"
  using assms by (auto simp: well_typed_def get_local_def get_remote_def local_typed_def map_of_eq_None_iff split: if_splits)

lemma well_typed_del:
  assumes "well_typed s"
  shows "well_typed (s\<lparr>local_nodes := dict_delete n (local_nodes s)\<rparr>)"
    "well_typed (s\<lparr>remote_nodes := dict_delete k (remote_nodes s)\<rparr>)"
  using assms by (auto simp: well_typed_def get_local_def get_remote_def dict_delete_def [of k] distinct_map_filter split: if_splits)

interpretation tables: kept_config well_typed
proof unfold_locales
  show "well_typed s'" if "tq s' = tq s" "local_nodes s' = local_nodes s" "remote_nodes s' = remote_nodes s"
    "rn_next s' = rn_next s" "interfaces s' = interfaces s" "config s' = config s" "well_typed s" for s s'
    using that by (simp add: well_typed_def get_local_def get_remote_def)
qed (simp_all add: well_typed_upd well_typed_local well_typed_add well_typed_del, simp_all add: well_typed_def get_local_def get_remote_def)

text \<open>A new node is entered under a fresh key; the identifiers in the tree come from \<open>ids\<close>.\<close>

lemma well_typed_remote_add:
  assumes "remote_tree rfind rins" "well_typed s"
  shows "well_typed (s\<lparr>remote_nodes := rins (rn_next s, new_remote_node addr i name) (remote_nodes s), rn_next := Suc (rn_next s)\<rparr>)"
proof -
  let ?x = "(rn_next s, new_remote_node addr i name)"
  have dist: "distinct (map fst (remote_nodes s))" using assms(2) by (simp add: well_typed_def)
  have fresh: "rn_next s \<notin> fst ` set (remote_nodes s)"
    using assms(2) map_of_eq_None_iff [of "remote_nodes s" "rn_next s"] by (force simp: well_typed_def get_remote_def)
  have "distinct (map fst (rins ?x (remote_nodes s)))"
    using remote_tree.ins_distinct [OF assms(1), of ?x] fresh dist by simp
  then show ?thesis using assms(2) remote_tree.ins_set [OF assms(1)]
    by (auto simp: well_typed_def get_local_def get_remote_def remote_typed_def new_remote_node_def calloc_node_def less_Suc_eq)
qed

definition ids_in :: "u64 set \<Rightarrow> usteer_state \<Rightarrow> bool" where
  "ids_in ids s \<longleftrightarrow> node_key ` set (remote_nodes s) \<subseteq> ids"

lemma ids_in_upd:
  assumes "well_typed s" "ids_in ids s" "\<And>rn. get_remote s k = Some rn \<Longrightarrow> same_identity rn (g rn)"
  shows "ids_in ids (s\<lparr>remote_nodes := dict_modify k g (remote_nodes s)\<rparr>)"
proof -
  have "map node_key (dict_modify k g (remote_nodes s)) = map node_key (remote_nodes s)"
    using assms by (intro modify_keys) (auto simp: well_typed_def get_remote_def same_identity_def)
  then have "node_key ` set (dict_modify k g (remote_nodes s)) = node_key ` set (remote_nodes s)"
    by (metis list.set_map)
  with assms(2) show ?thesis by (simp add: ids_in_def)
qed

lemma tables_kept:
  assumes "remote_tree rfind rins"
  shows "kept_recv (\<lambda>s. well_typed s \<and> ids_in ids s) ins (\<lambda>_. True) (\<lambda>_. True) rins ids"
proof unfold_locales
  fix s addr i name assume "well_typed s \<and> ids_in ids s" "i \<in> ids"
  then show "well_typed (s\<lparr>remote_nodes := rins (rn_next s, new_remote_node addr i name) (remote_nodes s), rn_next := Suc (rn_next s)\<rparr>) \<and>
      ids_in ids (s\<lparr>remote_nodes := rins (rn_next s, new_remote_node addr i name) (remote_nodes s), rn_next := Suc (rn_next s)\<rparr>)"
    using well_typed_remote_add [OF assms] remote_tree.ins_set [OF assms] by (simp add: ids_in_def new_remote_node_def)
next
  fix s s' :: usteer_state assume "tq s' = tq s" "local_nodes s' = local_nodes s" "remote_nodes s' = remote_nodes s"
    "rn_next s' = rn_next s" "interfaces s' = interfaces s" "config s' = config s" "well_typed s \<and> ids_in ids s"
  then show "well_typed s' \<and> ids_in ids s'" using tables.other [of s' s] by (simp add: ids_in_def)
qed (simp_all add: ids_in_upd well_typed_upd well_typed_local well_typed_add well_typed_del,
  auto simp: well_typed_def get_local_def get_remote_def ids_in_def dict_delete_def)

interpretation tables_list: kept_recv "\<lambda>s. well_typed s \<and> ids_in ids s" ins "\<lambda>_. True" "\<lambda>_. True" remote_insert_list ids
  for ids ins
  by (rule tables_kept [OF remote_list.remote_tree_axioms])

end
