(* ===== verification/Runtime.thy ===== *)
theory Runtime
  imports Usteer_State
begin

text \<open>
  The clocks (main.c and timeout.c read the same one, with 64 and with 32 bits of milliseconds) and the log of main.c.
\<close>

section \<open>Model\<close>

text \<open>The answer of \<^verbatim>\<open>clock_gettime\<close>; the nanoseconds are from 0 to 999999999.\<close>

record timespec =
  tv_sec :: u64
  tv_nsec :: nat

definition usteer_update_time :: "timespec \<Rightarrow> usteer_state \<Rightarrow> usteer_state" where
  "usteer_update_time ts s = s\<lparr>current_time := tv_sec ts * 1000 + of_nat (tv_nsec ts div 1000000)\<rparr>"

definition ampgr_timeout_current_time :: "timespec \<Rightarrow> u32" where
  "ampgr_timeout_current_time ts =
     (let val = ucast (tv_sec ts * 1000)
      in val + of_nat (tv_nsec ts div 1000000))"

subsection \<open>Log\<close>

datatype usteer_debug = MSG_FATAL | MSG_INFO | MSG_VERBOSE | MSG_DEBUG | MSG_NETWORK | MSG_DEBUG_ALL

fun debug_number :: "usteer_debug \<Rightarrow> u32" where
  "debug_number MSG_FATAL = 0"
| "debug_number MSG_INFO = 1"
| "debug_number MSG_VERBOSE = 2"
| "debug_number MSG_DEBUG = 3"
| "debug_number MSG_NETWORK = 4"
| "debug_number MSG_DEBUG_ALL = 5"

text \<open>What is written: the place in the source and the formatted text to stderr, or the text to the system log.\<close>

datatype log_output =
  Stderr_place string nat
| Stderr_text string
| Syslog_debug string
| Syslog_info string

definition debug_msg :: "usteer_config \<Rightarrow> usteer_debug \<Rightarrow> string \<Rightarrow> nat \<Rightarrow> string \<Rightarrow> log_output list" where
  "debug_msg c level func line text =
     (if debug_level c < debug_number level then []
      else (if \<not> syslog c then [Stderr_place func line] else []) @
        (if syslog c
         then [if debug_number level \<ge> debug_number MSG_DEBUG then Syslog_debug text else Syslog_info text]
         else [Stderr_text text]))"

definition debug_msg_cont :: "usteer_config \<Rightarrow> usteer_debug \<Rightarrow> string \<Rightarrow> log_output list" where
  "debug_msg_cont c level text = (if debug_level c < debug_number level then [] else [Stderr_text text])"

section \<open>Lemmas\<close>

definition milliseconds :: "timespec \<Rightarrow> nat" where
  "milliseconds ts = unat (tv_sec ts) * 1000 + tv_nsec ts div 1000000"

text \<open>Both clocks count the milliseconds; the one of the timers is the low half of the other.\<close>

lemma update_time_eq: "current_time (usteer_update_time ts s) = of_nat (milliseconds ts)"
  by (simp add: usteer_update_time_def milliseconds_def)

lemma ucast_of_nat: "(ucast (of_nat n :: u64) :: u32) = of_nat n"
  by (simp add: unsigned_of_nat word_of_nat_eq_iff)

lemma timeout_time_eq: "ampgr_timeout_current_time ts = of_nat (milliseconds ts)"
proof -
  have "tv_sec ts * 1000 = of_nat (unat (tv_sec ts) * 1000)" by simp
  then have "ampgr_timeout_current_time ts = ucast (of_nat (unat (tv_sec ts) * 1000) :: u64) + of_nat (tv_nsec ts div 1000000)"
    by (simp add: ampgr_timeout_current_time_def)
  then show ?thesis by (simp only: ucast_of_nat milliseconds_def of_nat_add)
qed

lemma clocks_agree: "ampgr_timeout_current_time ts = ucast (current_time (usteer_update_time ts s))"
  by (simp only: update_time_eq timeout_time_eq ucast_of_nat)

text \<open>Differences of the short clock are right up to 24 days.\<close>

lemma timeout_clock_difference:
  assumes "\<bar>int (milliseconds b) - int (milliseconds a)\<bar> < 2 ^ 31"
  shows "sint (ampgr_timeout_current_time b - ampgr_timeout_current_time a) = int (milliseconds b) - int (milliseconds a)"
proof -
  have "ampgr_timeout_current_time b - ampgr_timeout_current_time a = word_of_int (int (milliseconds b) - int (milliseconds a))"
    by (simp add: timeout_time_eq)
  then show ?thesis using assms by (simp only: signed_of_int) (simp add: signed_take_bit_int_eq_self abs_less_iff)
qed

text \<open>The long clock does not go back before the year 584 million.\<close>

lemma update_time_monotone:
  assumes "milliseconds a \<le> milliseconds b" "milliseconds b < 2 ^ 64"
  shows "current_time (usteer_update_time a s) \<le> current_time (usteer_update_time b s)"
  using assms by (simp add: update_time_eq word_le_nat_alt unsigned_of_nat take_bit_nat_eq_self)

text \<open>A message is written exactly when the level is high enough.\<close>

lemma debug_msg_written:
  "debug_msg c level func line text = [] \<longleftrightarrow> debug_level c < debug_number level"
  by (auto simp: debug_msg_def)

end
