(* ===== verification/Daemon.thy ===== *)
theory Daemon
  imports Kept Runtime
begin

text \<open>
  The whole daemon: its start (main.c) and the callbacks the event loop runs, one after the other. Every callback
  is one of the operations of the other theories; \<open>dispatch\<close> runs it, \<open>admissible\<close> says which
  inputs the code can cope with. The main theorems are the invariants of all reachable states: no pointer
  dangles, the trees are ordered, the nodes have their types.
\<close>

section \<open>Model\<close>

text \<open>What the daemon gets from outside.\<close>

record 'b daemon_env =
  e_aton :: "string \<Rightarrow> mac option"
  e_ntoa :: "mac \<Rightarrow> string"
  e_ins :: tree_insert
  e_rd :: "nat \<Rightarrow> u32"
  e_kernel :: kernel
  e_lookup :: "string \<Rightarrow> u32 option"
  e_fl :: "rat \<Rightarrow> rat"
  e_nrp :: nr_parser
  e_nametoindex :: "string \<Rightarrow> u32"
  e_objects :: "(string \<times> u32) list"
  e_blob :: "'b libblob"
  e_ntop :: "u8 list \<Rightarrow> string"
  e_find :: remote_find
  e_insert :: remote_insert

definition e_handlers :: "'b daemon_env \<Rightarrow> usteer_node_handler list" where
  "e_handlers E = node_handlers (e_kernel E) (e_ins E) (e_rd E) (e_lookup E)"

definition e_config :: "'b daemon_env \<Rightarrow> cfg_env" where
  "e_config E = \<lparr>env_handlers = e_handlers E, env_nametoindex = e_nametoindex E, env_objects = e_objects E\<rparr>"

subsection \<open>Callbacks\<close>

datatype 'b callback =
  Sta_timers "u32 list"
| Hostapd_event string string event_msg u64 u32
| Client_list string u32 "(string \<times> client_msg) list" "nat \<Rightarrow> u32"
| Own_report string 'b "string option" "string option"
| Request_done string
| Request_timer string
| Update_timer string u64
| Node_gone string
| Object_added u32 string
| Netifd_status string "netifd_radio list"
| Survey_timer string
| Remote_timer u64
| Reload_timer int int
| Vendor_timer "(string \<times> ifa_addr) list option" u64
| Received "nat \<Rightarrow> nat \<Rightarrow> nat \<Rightarrow> u32" "'b recv_result list"
| Get_clients
| Get_client_info "string option"
| Local_info
| Remote_info
| Get_config
| Set_config string config_msg

text \<open>The methods of the usteer object: the attributes of the request, and the callback for each name.\<close>

record method_args =
  ma_address :: "string option"
  ma_config :: config_msg

definition usteer_methods :: "(string \<times> (string \<Rightarrow> method_args \<Rightarrow> 'b callback)) list" where
  "usteer_methods = [
     (''local_info'', \<lambda>name msg. Local_info),
     (''remote_info'', \<lambda>name msg. Remote_info),
     (''get_clients'', \<lambda>name msg. Get_clients),
     (''get_client_info'', \<lambda>name msg. Get_client_info (ma_address msg)),
     (''get_config'', \<lambda>name msg. Get_config),
     (''set_config'', \<lambda>name msg. Set_config name (ma_config msg)),
     (''update_config'', \<lambda>name msg. Set_config name (ma_config msg))]"

text \<open>The reload timer is not pending any more when its callback runs; the other timers are set again by theirs.\<close>

fun dispatch :: "'b daemon_env \<Rightarrow> 'b callback \<Rightarrow> usteer_state \<Rightarrow> usteer_state option" where
  "dispatch E (Sta_timers readings) s = usteer_timeout_cb tq mod_tq usteer_sta_info_timeout readings s"
| "dispatch E (Hostapd_event n method msg clk now) s =
     map_option snd (usteer_handle_event (e_aton E) (e_ins E) (e_ntoa E) clk now n method msg s)"
| "dispatch E (Client_list n freq clients now) s =
     usteer_local_node_list_cb (e_aton E) (e_handlers E) (e_fl E) (e_ins E) now n (Some freq) (Some clients) s"
| "dispatch E (Own_report n tb ba0 ba1) s =
     usteer_local_node_rrm_nr_cb (e_blob E) (e_aton E) (e_handlers E) n (Some tb) ba0 ba1 s"
| "dispatch E (Request_done n) s = Some (usteer_local_node_req_cb n s)"
| "dispatch E (Request_timer n) s = usteer_local_node_state_next n s"
| "dispatch E (Update_timer n clk) s = usteer_local_node_update (e_handlers E) (e_nrp E) clk n s"
| "dispatch E (Node_gone n) s = usteer_handle_remove (e_handlers E) n s"
| "dispatch E (Object_added i path) s =
     usteer_event_handler (e_handlers E) (e_nametoindex E) (Some i) (Some path) s"
| "dispatch E (Netifd_status n radios) s = Some (netifd_status_cb n radios s)"
| "dispatch E (Survey_timer n) s = Some (upd_local n (nl80211_update_node (e_kernel E)) s)"
| "dispatch E (Remote_timer clk) s = usteer_send_update_timer (e_ntoa E) clk s"
| "dispatch E (Reload_timer fd bound) s = Some (usteer_reload_timer fd bound (s\<lparr>reload_timer := None\<rparr>))"
| "dispatch E (Vendor_timer ifaddr clk) s = usteer_vendor_update_timer (e_nametoindex E) ifaddr clk s"
| "dispatch E (Received now rs) s =
     interface_recv (e_blob E) (e_find E) (e_insert E) (e_ins E) (e_aton E) (e_ntop E) now rs s"
| "dispatch E Get_clients s = usteer_ubus_get_clients s"
| "dispatch E (Get_client_info mac_str) s =
     map_option snd (usteer_ubus_get_client_info (e_aton E) (e_ntoa E) mac_str s)"
| "dispatch E Local_info s = Some (usteer_ubus_local_info s)"
| "dispatch E Remote_info s = Some (usteer_ubus_remote_info s)"
| "dispatch E Get_config s = usteer_ubus_get_config (e_config E) s"
| "dispatch E (Set_config method msg) s = usteer_ubus_set_config (e_config E) method msg s"

text \<open>
  The inputs the code can cope with. A callback of a node is only run while the node exists; the station
  timeout must be positive, the intervals it divides by not zero; addresses in messages can be read; a report
  is complete; the pending timers and the clock lie within a few days of each other; the identifiers of the remote
  nodes can be compared; a client is listed once; a node is not refused by its own neighbor report (it would be
  freed while libubus still uses its request).
\<close>

definition clocks_fit :: "usteer_state \<Rightarrow> u32 set \<Rightarrow> bool" where
  "clocks_fit s R \<longleftrightarrow> (\<exists>t0. timely t0 s \<and> (\<forall>r \<in> R. near t0 r))"

definition report_complete :: "(string \<Rightarrow> mac option) \<Rightarrow> beacon_rep_msg \<Rightarrow> bool" where
  "report_complete aton msg \<longleftrightarrow> Option.bind (rep_bssid msg) aton \<noteq> None \<and> Option.bind (rep_addr msg) aton \<noteq> None \<and>
     rep_rcpi msg \<noteq> None \<and> rep_rsni msg \<noteq> None \<and> rep_op_class msg \<noteq> None \<and> rep_channel msg \<noteq> None"

definition message_readable :: "'b daemon_env \<Rightarrow> 'b \<Rightarrow> bool" where
  "message_readable E data \<longleftrightarrow> (\<forall>msg. parse_apmsg (e_blob E) data = Some msg \<longrightarrow>
     (\<forall>x \<in> set (blob_attrs (e_blob E) (apmsg_nodes msg)). node_readable (e_blob E) (e_aton E) x \<and>
       (\<forall>ms \<in> record_timeouts (e_blob E) x. short ms)))"

text \<open>What a socket gives: readable messages and at last an error that ends the loop.\<close>

definition datagrams_ok :: "'b daemon_env \<Rightarrow> 'b recv_result list \<Rightarrow> bool" where
  "datagrams_ok E rs \<longleftrightarrow>
     (\<forall>r \<in> set rs. case r of Recv_packet scope addr data len \<Rightarrow> message_readable E data | Recv_error e \<Rightarrow> True) \<and>
     (\<exists>r \<in> set rs. case r of Recv_packet scope addr data len \<Rightarrow> False | Recv_error e \<Rightarrow> e \<noteq> EINTR)"

text \<open>The identifiers of the instances that have sent the messages.\<close>

definition sender_ids :: "'b daemon_env \<Rightarrow> 'b recv_result list \<Rightarrow> u64 set" where
  "sender_ids E rs = {ucast (apmsg_id msg) | scope addr data len msg.
     Recv_packet scope addr data len \<in> set rs \<and> parse_apmsg (e_blob E) data = Some msg}"

text \<open>All readings of the clock in a callback that sets timers.\<close>

fun clock_readings :: "'b daemon_env \<Rightarrow> 'b callback \<Rightarrow> u32 set" where
  "clock_readings E (Hostapd_event n kind msg clk now) = {now}"
| "clock_readings E (Client_list n freq clients now) = range now \<union> range (e_rd E)"
| "clock_readings E (Received now rs) = {now i j k | i j k. True}"
| "clock_readings E cb = {}"

definition addresses_fit :: "(string \<Rightarrow> u32) \<Rightarrow> usteer_state \<Rightarrow> (string \<times> ifa_addr) list option \<Rightarrow> bool" where
  "addresses_fit idx s ifaddr \<longleftrightarrow> (case ifaddr of
     None \<Rightarrow> True
   | Some ifas \<Rightarrow> (\<forall>a \<in> set (vendor_addresses idx s ifas). length a = 16) \<and> length (vendor_addresses idx s ifas) < 16)"

fun admissible :: "'b daemon_env \<Rightarrow> 'b callback \<Rightarrow> usteer_state \<Rightarrow> bool" where
  "admissible E (Sta_timers readings) s \<longleftrightarrow> (\<forall>r \<in> set readings. tq_window (tq s) r) \<and> length (tq_tree (tq s)) < length readings"
| "admissible E (Hostapd_event n method msg clk now) s \<longleftrightarrow> get_local s n \<noteq> None \<and> timeouts_positive s \<and>
     clocks_fit s (clock_readings E (Hostapd_event n method msg clk now)) \<and>
     (method \<in> set answered_events \<or> method = ''beacon-report'' \<and> report_complete (e_aton E) (ev_report msg))"
| "admissible E (Client_list n freq clients now) s \<longleftrightarrow> get_local s n \<noteq> None \<and> timeouts_positive s \<and>
     clocks_fit s (clock_readings E (Client_list n freq clients now)) \<and>
     distinct (listed (e_aton E) clients)"
| "admissible E (Own_report n tb ba0 ba1) s \<longleftrightarrow> get_local s n \<noteq> None \<and>
     (\<forall>str. ba0 = Some str \<longrightarrow> e_aton E str \<noteq> None) \<and> (\<forall>ssid. ba1 = Some ssid \<longrightarrow> usteer_is_valid_ssid s ssid)"
| "admissible E (Request_done n) s \<longleftrightarrow> get_local s n \<noteq> None"
| "admissible E (Request_timer n) s \<longleftrightarrow> get_local s n \<noteq> None"
| "admissible E (Update_timer n clk) s \<longleftrightarrow> get_local s n \<noteq> None \<and> kick_client_active_sec (config s) \<noteq> 0 \<and>
     local_sta_update (config s) \<noteq> 0"
| "admissible E (Node_gone n) s \<longleftrightarrow> get_local s n \<noteq> None"
| "admissible E (Object_added i path) s \<longleftrightarrow> True"
| "admissible E (Netifd_status n radios) s \<longleftrightarrow> get_local s n \<noteq> None"
| "admissible E (Survey_timer n) s \<longleftrightarrow> get_local s n \<noteq> None"
| "admissible E (Remote_timer clk) s \<longleftrightarrow> remote_update_interval (config s) \<noteq> 0"
| "admissible E (Reload_timer fd bound) s \<longleftrightarrow> True"
| "admissible E (Vendor_timer ifaddr clk) s \<longleftrightarrow> addresses_fit (e_nametoindex E) s ifaddr"
| "admissible E (Received now rs) s \<longleftrightarrow> remote_disabled (config s) \<or> datagrams_ok E rs \<and>
     clocks_fit s (clock_readings E (Received now rs)) \<and>
     ids_ordered (sender_ids E rs \<union> node_key ` set (remote_nodes s))"
| "admissible E Get_clients s \<longleftrightarrow> True"
| "admissible E (Get_client_info mac_str) s \<longleftrightarrow> kick_client_active_sec (config s) \<noteq> 0"
| "admissible E Local_info s \<longleftrightarrow> True"
| "admissible E Remote_info s \<longleftrightarrow> True"
| "admissible E Get_config s \<longleftrightarrow> (\<exists>us. config_ssid_list s = Some us \<and> (\<forall>u \<in> set us. length u < 33))"
| "admissible E (Set_config method msg) s \<longleftrightarrow> True"

subsection \<open>Start\<close>

text \<open>The memory of the program before \<^verbatim>\<open>main\<close>: everything empty, the queue initialised (sta.c).\<close>

definition initial_state :: usteer_state where
  "initial_state = \<lparr>
     config = usteer_init_defaults, current_time = 0, stations = [], si_heap = Map.empty, si_next = 0,
     tq = usteer_timeout_init, local_nodes = [], remote_nodes = [], rn_next = 0, config_ssid_list = None,
     node_up_script = None, interfaces = [], local_id = 0, msg_seq = 0,
     remote_timer = None, reload_timer = None, vendor_timer = None,
     remote_fd = \<lparr>fd_num = 0, fd_registered = False\<rparr>, out = []\<rparr>"

text \<open>The options; an unknown one ends the program.\<close>

datatype main_option = Opt_v | Opt_s | Opt_i string | Opt_unknown

fun main_options :: "(string \<Rightarrow> u32) \<Rightarrow> main_option list \<Rightarrow> usteer_state \<Rightarrow> usteer_state option option" where
  "main_options idx [] s = Some (Some s)"
| "main_options idx (Opt_v # os) s =
     main_options idx os (s\<lparr>config := (config s)\<lparr>debug_level := debug_level (config s) + 1\<rparr>\<rparr>)"
| "main_options idx (Opt_s # os) s = main_options idx os (s\<lparr>config := (config s)\<lparr>syslog := True\<rparr>\<rparr>)"
| "main_options idx (Opt_i name # os) s = do { s \<leftarrow> usteer_interface_add idx name s; main_options idx os s }"
| "main_options idx (Opt_unknown # os) s = Some None"

record start_input =
  st_options :: "main_option list"
  st_clock :: timespec
  st_ubus :: bool
  st_random :: "u32 option"
  st_update_clock :: u64
  st_socket :: int
  st_bound :: int
  st_vendor_clock :: u64
  st_ifaddr :: "(string \<times> ifa_addr) list option"

definition usteer_interface_init :: "'b daemon_env \<Rightarrow> start_input \<Rightarrow> usteer_state \<Rightarrow> (int \<times> usteer_state) option" where
  "usteer_interface_init E I s =
     (case usteer_init_local_id (st_random I) s of (ret, s) \<Rightarrow>
        if ret \<noteq> 0 then Some (- 1, s)
        else do {
          s \<leftarrow> usteer_send_update_timer (e_ntoa E) (st_update_clock I) s;
          let s = usteer_reload_timer (st_socket I) (st_bound I) s;
          s \<leftarrow> usteer_vendor_update_timer (e_nametoindex E) (st_ifaddr I) (st_vendor_clock I) s;
          Some (0, s)
        })"

definition usteer_main :: "'b daemon_env \<Rightarrow> start_input \<Rightarrow> (int + usteer_state) option" where
  "usteer_main E I = do {
     let s = initial_state\<lparr>config := usteer_init_defaults\<rparr>;
     r \<leftarrow> main_options (e_nametoindex E) (st_options I) s;
     (case r of
        None \<Rightarrow> Some (Inl 1)
      | Some s \<Rightarrow>
          (let s = usteer_update_time (st_clock I) s
           in if \<not> st_ubus I then Some (Inl (- 1))
              else do {
                (ret, s) \<leftarrow> usteer_interface_init E I s;
                s \<leftarrow> usteer_local_nodes_init (e_handlers E) (e_nametoindex E) (e_objects E) s;
                Some (Inr s)
              }))
   }"

text \<open>IPv6 addresses have sixteen bytes, and there are fewer than sixteen addresses.\<close>

definition start_ok :: "start_input \<Rightarrow> bool" where
  "start_ok I \<longleftrightarrow> (case st_ifaddr I of
     None \<Rightarrow> True
   | Some ifas \<Rightarrow> length ifas < 16 \<and> (\<forall>x \<in> set ifas. case snd x of In6 a \<Rightarrow> length a = 16 | _ \<Rightarrow> True))"

text \<open>
  The states of the daemon: the one after the start, then one callback after the other. What the system
  answers may change from one callback to the next: each of them runs in some environment of \<open>Es\<close>.
\<close>

inductive reachable :: "'b daemon_env set \<Rightarrow> usteer_state \<Rightarrow> bool" for Es where
  start: "E \<in> Es \<Longrightarrow> start_ok I \<Longrightarrow> usteer_main E I = Some (Inr s) \<Longrightarrow> reachable Es s"
| step: "reachable Es s \<Longrightarrow> E \<in> Es \<Longrightarrow> admissible E cb s \<Longrightarrow> dispatch E cb s = Some s' \<Longrightarrow> reachable Es s'"

text \<open>The invariant.\<close>

definition daemon_inv :: "usteer_state \<Rightarrow> bool" where
  "daemon_inv s \<longleftrightarrow> wf_state s \<and> timers_ordered s \<and> nodes_ordered s \<and> well_typed s"

section \<open>Lemmas\<close>

lemma report_total:
  assumes wf: "wf_state s" and ok: "report_complete aton msg"
  shows "\<exists>s'. usteer_handle_event_beacon_report aton n msg s = Some s' \<and> wf_state s'"
proof -
  from ok obtain bs ad b m rcpi rsni oc ch where msg:
    "rep_bssid msg = Some bs" "rep_addr msg = Some ad" "rep_rcpi msg = Some rcpi" "rep_rsni msg = Some rsni"
    "rep_op_class msg = Some oc" "rep_channel msg = Some ch" "aton ad = Some m" "aton bs = Some b"
    by (auto simp: report_complete_def bind_eq_Some_conv)
  show ?thesis
  proof (cases "entry s m (NLocal n)")
    case None
    with handle_report_effect [OF wf msg, of n] wf show ?thesis by simp
  next
    case (Some a)
    then obtain si where si: "si_heap s a = Some si" using entry_iff wf by (metis wf_state_def)
    have "wf_state (s\<lparr>si_heap := (si_heap s)(a \<mapsto> report_entry s br si)\<rparr>)" if "br_address br = a" for br
      by (rule wf_state_heap_upd [OF wf si same_entry_report [OF that]])
    with handle_report_effect [OF wf msg, of n] Some si wf show ?thesis by simp
  qed
qed

lemma hostapd_event_total:
  assumes ins: "avl_dups_tree ins" and wf: "wf_state s" and pos: "timeouts_positive s" and live: "get_local s n \<noteq> None"
    and m: "method \<in> set answered_events \<or> method = ''beacon-report'' \<and> report_complete aton (ev_report msg)"
  shows "\<exists>s'. map_option snd (usteer_handle_event aton ins ntoa clk now n method msg s) = Some s' \<and> wf_state s'"
proof (cases "method \<in> set answered_events")
  case True
  show ?thesis
    using event_answer [OF ins wf pos live True, where msg = msg and ether_aton = aton and ether_ntoa = ntoa and clk = clk and now = now] wf
    by (auto split: option.splits)
next
  case False
  with m have b: "method = ''beacon-report''" "report_complete aton (ev_report msg)" by auto
  have "wf_state (s\<lparr>current_time := clk\<rparr>)" using wf by simp
  from report_total [OF this b(2), of n] b(1) show ?thesis
    by (auto simp: usteer_handle_event_def Let_def)
qed

lemma handler_step_upd_node:
  "(\<And>nd. node_sta_info (f nd) = node_sta_info nd) \<Longrightarrow> handler_step n s (upd_node (NLocal n) f s)"
  using handler_step_upd [of "\<lambda>l. l\<lparr>ln_node := f (ln_node l)\<rparr>" n s] by (simp add: upd_local_def)

lemma own_report_total:
  assumes wf: "wf_state s" and live: "get_local s n \<noteq> None"
    and a: "\<forall>str. ba0 = Some str \<longrightarrow> aton str \<noteq> None" and v: "\<forall>ssid. ba1 = Some ssid \<longrightarrow> usteer_is_valid_ssid s ssid"
  shows "\<exists>s'. usteer_local_node_rrm_nr_cb B aton hs n (Some tb) ba0 ba1 s = Some s' \<and> wf_state s'"
proof -
  from live obtain nd where nd: "get_node s (NLocal n) = Some nd" by auto
  let ?s1 = "upd_node (NLocal n) (\<lambda>nd. nd\<lparr>node_rrm_nr := Some (blob_copy B tb)\<rparr>) s"
  let ?s2 = "case ba0 of None \<Rightarrow> ?s1 | Some str \<Rightarrow> upd_node (NLocal n) (\<lambda>nd. nd\<lparr>node_bssid := the (aton str)\<rparr>) ?s1"
  have "handler_step n s ?s1" by (rule handler_step_upd_node) simp
  moreover have "handler_step n ?s1 (upd_node (NLocal n) (\<lambda>nd. nd\<lparr>node_bssid := b\<rparr>) ?s1)" for b
    by (rule handler_step_upd_node) simp
  ultimately have step: "handler_step n s ?s2" by (auto simp del: upd_node.simps split: option.split intro: handler_step_trans)
  have "usteer_is_valid_ssid ?s2 = usteer_is_valid_ssid s"
    using handler_step_views(13) [OF step] by (simp add: usteer_is_valid_ssid_def fun_eq_iff)
  then have "usteer_local_node_rrm_nr_cb B aton hs n (Some tb) ba0 ba1 s = Some ?s2"
    using nd a v by (auto simp: usteer_local_node_rrm_nr_cb_def set_blob_eq Let_def simp del: get_node.simps upd_node.simps split: option.splits)
  with handler_step_wf(1) [OF step] wf show ?thesis by auto
qed

lemma vendor_timer_total:
  assumes "wf_state s" "addresses_fit idx s ifaddr"
  shows "\<exists>s'. usteer_vendor_update_timer idx ifaddr clk s = Some s' \<and> wf_state s'"
proof -
  let ?s = "s\<lparr>current_time := clk, vendor_timer := Some (vendor_update_interval (config s))\<rparr>"
  have "vendor_address idx ?s = vendor_address idx s"
    by (simp add: vendor_address_def interface_find_by_ifindex_def fun_eq_iff)
  then have same: "vendor_addresses idx ?s = vendor_addresses idx s" by (intro ext) (simp add: vendor_addresses_def)
  have wf: "wf_state (?s\<lparr>out := ou\<rparr>) = wf_state s" "wf_state ?s = wf_state s" for ou by (rule wf_same_data; simp)+
  show ?thesis
  proof (cases ifaddr)
    case None
    then show ?thesis
      using assms(1) wf by (simp add: usteer_vendor_update_timer_def usteer_vendor_set_def usteer_vendor_get_def)
  next
    case (Some ifas)
    with assms(2) have "\<forall>a \<in> set (vendor_addresses idx ?s ifas). length a = 16" "length (vendor_addresses idx ?s ifas) < 16"
      by (simp_all add: addresses_fit_def same)
    with vendor_get_eq [of idx ?s ifas] have "\<exists>x. usteer_vendor_get idx (Some ifas) ?s = Some x" by simp
    then show ?thesis
      using assms(1) wf Some
      by (auto simp: usteer_vendor_update_timer_def usteer_vendor_set_def case_prod_unfold emit_each Let_def)
  qed
qed

lemma received_total:
  assumes env: "avl_dups_tree ins" "remote_tree (e_find E) (e_insert E)" and wf: "wf_state s" "nodes_ordered s"
    and ok: "message_readable E data" and ids: "ids_ordered ids" "ids_in ids s"
      "\<And>msg. parse_apmsg (e_blob E) data = Some msg \<Longrightarrow> ucast (apmsg_id msg) \<in> ids"
  shows "\<exists>s'. interface_recv_msg (e_blob E) (e_find E) (e_insert E) ins (e_aton E) now iface addr data len s = Some s' \<and>
    wf_state s' \<and> nodes_ordered s'"
proof (cases "parse_apmsg (e_blob E) data")
  case None
  then show ?thesis using wf by (simp add: interface_recv_msg_def)
next
  case (Some msg)
  let ?i = "ucast (apmsg_id msg) :: u64"
  have "insert ?i (node_key ` set (remote_nodes s)) \<subseteq> ids" using ids(2) ids(3) [OF Some] by (simp add: ids_in_def)
  then have r: "recv_ok ?i s"
    using wf ids_ordered_mono [OF ids(1)] by (auto simp: recv_ok_def nodes_ordered_def)
  have "\<exists>s'. for_each (\<lambda>(j, x). interface_add_node (e_blob E) (e_find E) (e_insert E) ins (e_aton E) (now j) iface addr ?i x)
      (enumerate 0 (blob_attrs (e_blob E) (apmsg_nodes msg))) s = Some s' \<and> recv_ok ?i s'"
  proof (rule for_each_total [where P = "recv_ok ?i"])
    show "recv_ok ?i s" by (rule r)
    fix x t assume x: "x \<in> set (enumerate 0 (blob_attrs (e_blob E) (apmsg_nodes msg)))" "recv_ok ?i t"
    have "node_readable (e_blob E) (e_aton E) (snd x)"
      using ok Some enumerate_mem [OF x(1)] by (simp add: message_readable_def)
    from remote_tree.add_node_step [OF env(2,1) x(2) this]
    show "\<exists>t'. (\<lambda>(j, x). interface_add_node (e_blob E) (e_find E) (e_insert E) ins (e_aton E) (now j) iface addr ?i x) x t =
        Some t' \<and> recv_ok ?i t'" by (simp add: case_prod_unfold) blast
  qed
  then obtain s' where s': "for_each (\<lambda>(j, x). interface_add_node (e_blob E) (e_find E) (e_insert E) ins (e_aton E) (now j) iface
      addr ?i x) (enumerate 0 (blob_attrs (e_blob E) (apmsg_nodes msg))) s = Some s'" "recv_ok ?i s'" by blast
  moreover have "distinct (map fst (remote_nodes s'))" using s'(2) by (simp add: recv_ok_def wf_state_def wf_core_def keys_ok_def)
  ultimately show ?thesis using Some wf by (simp add: interface_recv_msg_def recv_ok_def nodes_ordered_def)
qed

lemma wf_remote_fd [simp]: "wf_state (s\<lparr>remote_fd := x\<rparr>) = wf_state s"
  by (rule wf_same_data) simp_all

lemma recv_loop_total:
  assumes "avl_dups_tree (e_ins E)" "remote_tree (e_find E) (e_insert E)"
    and "wf_state s" "nodes_ordered s" "well_typed s" "datagrams_ok E rs" "ids_ordered ids" "ids_in ids s" "sender_ids E rs \<subseteq> ids"
  shows "\<exists>s'. recv_loop (e_blob E) (e_find E) (e_insert E) (e_ins E) (e_aton E) (e_ntop E) now rs s = Some s' \<and>
    wf_state s' \<and> nodes_ordered s'"
  using assms
proof (induction rs arbitrary: now s)
  case (Cons r rs)
  have "sender_ids E rs \<subseteq> sender_ids E (r # rs)" unfolding sender_ids_def list.set by blast
  then have sub: "sender_ids E rs \<subseteq> ids" using Cons.prems(9) by (rule subset_trans)
  show ?case
  proof (cases r)
    case (Recv_error e)
    with Cons.prems Cons.IH [OF Cons.prems(1-5) _ Cons.prems(7,8) sub] show ?thesis
      by (cases e) (auto simp: datagrams_ok_def)
  next
    case (Recv_packet sc addr data len)
    have ok: "message_readable E data" "datagrams_ok E rs"
      using Cons.prems(6) Recv_packet by (auto simp: datagrams_ok_def)
    have i: "ucast (apmsg_id msg) \<in> ids" if "parse_apmsg (e_blob E) data = Some msg" for msg
      using Cons.prems(9) Recv_packet that by (force simp: sender_ids_def)
    show ?thesis
    proof (cases "interface_find_by_ifindex s sc")
      case None
      with Recv_packet Cons.IH [OF Cons.prems(1-5) ok(2) Cons.prems(7,8) sub] show ?thesis by simp
    next
      case (Some iface)
      from received_total [OF Cons.prems(1-4) ok(1) Cons.prems(7,8) i, of "now 0" iface "e_ntop E addr" len] obtain t where
        t: "interface_recv_msg (e_blob E) (e_find E) (e_insert E) (e_ins E) (e_aton E) (now 0) iface (e_ntop E addr) data len s = Some t"
        "wf_state t" "nodes_ordered t" by blast
      have "well_typed t \<and> ids_in ids t"
        by (rule kept_recv.recv_msg_kept [OF tables_kept [OF Cons.prems(2)] t(1)]) (use Cons.prems(5,8) i in auto)
      with Cons.IH [OF Cons.prems(1,2) t(2,3) _ ok(2) Cons.prems(7) _ sub] Recv_packet Some t(1) show ?thesis by simp
    qed
  qed
qed (simp add: datagrams_ok_def)

lemma interface_add_Some: "\<exists>ifs t. usteer_interface_add idx name s = Some (s\<lparr>interfaces := ifs, reload_timer := t\<rparr>)"
  by (auto simp: usteer_interface_add_def interface_check_def interface_init_def split: option.split)

lemma set_interfaces_total:
  assumes "wf_state s"
  shows "\<exists>s'. config_set_interfaces idx data s = Some s' \<and> wf_state s'"
proof (cases data)
  case (Some names)
  have "\<exists>t. for_each (usteer_interface_add idx) names s = Some t \<and> wf_state t"
  proof (rule for_each_total)
    show "wf_state s" by (rule assms)
    fix name and t :: usteer_state assume "wf_state t"
    moreover obtain ifs tm where "usteer_interface_add idx name t = Some (t\<lparr>interfaces := ifs, reload_timer := tm\<rparr>)"
      using interface_add_Some by blast
    moreover have "wf_state (t\<lparr>interfaces := ifs, reload_timer := tm\<rparr>) = wf_state t" by (rule wf_same_data) simp_all
    ultimately show "\<exists>t'. usteer_interface_add idx name t = Some t' \<and> wf_state t'" by auto
  qed
  then show ?thesis using Some by (auto simp: config_set_interfaces_def interfaces_flushed)
qed (simp add: config_set_interfaces_def assms)

lemma set_item_total:
  assumes ins: "avl_dups_tree (e_ins E)" and wf: "wf_state s" and it: "it \<in> set (config_data (e_config E))"
  shows "\<exists>s'. set_item msg it s = Some s' \<and> wf_state s'"
proof -
  have ssid: "\<exists>s'. config_set_ssid (e_config E) data s = Some s' \<and> wf_state s'" for data
  proof (cases data)
    case (Some names)
    have "wf_state (s\<lparr>config_ssid_list := x\<rparr>) = wf_state s" for x by (rule wf_same_data) simp_all
    with wf nodes_started [OF ins, of "s\<lparr>config_ssid_list := Some (build_ssid_list names)\<rparr>"] Some show ?thesis
      by (fastforce simp: config_set_ssid_def e_config_def e_handlers_def)
  qed (simp add: config_set_ssid_def wf)
  show ?thesis
  proof (cases "is_scalar it")
    case True
    then show ?thesis using wf by (cases it) (auto split: option.split)
  next
    case False
    with it scalars have "it \<in> set (drop (length config_scalars) (config_data (e_config E)))"
      by (auto simp: config_data_def)
    then show ?thesis
      using wf ssid set_interfaces_total [OF wf] script_set_frame(3)
      by (auto simp: config_data_def split: option.split)
  qed
qed

lemma set_config_total:
  assumes ins: "avl_dups_tree (e_ins E)" and wf: "wf_state s"
  shows "\<exists>s'. usteer_ubus_set_config (e_config E) method msg s = Some s' \<and> wf_state s'"
  unfolding usteer_ubus_set_config_def Let_def
  by (rule for_each_total) (use wf set_item_total [OF ins] in auto)

lemma client_info_total:
  assumes "wf_state s" "kick_client_active_sec (config s) \<noteq> 0"
  shows "\<exists>s'. map_option snd (usteer_ubus_get_client_info aton ntoa mac_str s) = Some s' \<and> wf_state s'"
proof (cases "Option.bind mac_str aton")
  case None
  then show ?thesis using assms by (simp add: usteer_ubus_get_client_info_def)
next
  case (Some m)
  show ?thesis
  proof (cases "get_sta s m")
    case None
    with Some show ?thesis using assms by (simp add: usteer_ubus_get_client_info_def usteer_sta_get_def)
  next
    case (Some st)
    have "those (map (client_info_entry ntoa s) (st_nodes st)) \<noteq> None"
      by (subst those_total)
        (use station_entries [OF assms(1) Some] client_info_entry_total [OF assms(1) _ assms(2)] in \<open>metis option.distinct(1)\<close>, simp)
    with Some \<open>Option.bind mac_str aton = Some m\<close> show ?thesis
      using assms by (auto simp: usteer_ubus_get_client_info_def usteer_sta_get_def)
  qed
qed

lemma get_clients_total: "wf_state s \<Longrightarrow> \<exists>s'. usteer_ubus_get_clients s = Some s' \<and> wf_state s'"
proof -
  assume wf: "wf_state s"
  have "those (map (client_row s) (stations s)) \<noteq> None"
    by (subst those_total) (use client_row_eq [OF wf] in auto)
  with wf show ?thesis by (auto simp: get_clients_rows)
qed

subsection \<open>Every callback\<close>

definition env_ok :: "'b daemon_env \<Rightarrow> bool" where
  "env_ok E \<longleftrightarrow> avl_dups_tree (e_ins E) \<and> remote_tree (e_find E) (e_insert E)"

lemma request_timer_total:
  assumes "wf_state s" "get_local s n \<noteq> None"
  shows "\<exists>s'. usteer_local_node_state_next n s = Some s' \<and> wf_state s'"
proof -
  from assms(2) obtain l where l: "get_local s n = Some l" by blast
  obtain list where list: "usteer_local_node_prepare_rrm_set n s = Some list"
    using l by (simp add: usteer_local_node_prepare_rrm_set_def)
  have step: "handler_step n s (at_state n st m s)" for st m
    unfolding handler_step_def at_state_def by (intro exI conjI) (rule refl, simp)
  from state_next_eq [OF l list] handler_step_wf(1) [OF step] assms(1) show ?thesis
    by (auto split: option.splits)
qed

lemma object_added_total:
  assumes "handler_contract hs" "wf_state s"
  shows "\<exists>s'. usteer_event_handler hs idx (Some i) (Some path) s = Some s' \<and> wf_state s'"
proof (cases "take 8 path = ''hostapd.''")
  case True
  from handler_contract.register_node_total [OF assms True, of idx i] show ?thesis
    by (auto simp: usteer_event_handler_def)
qed (simp add: usteer_event_handler_def usteer_register_node_def assms(2))

lemma local_step_wf:
  assumes "wf_state s" "\<And>l. node_sta_info (ln_node (f l)) = node_sta_info (ln_node l)"
  shows "wf_state (upd_local n f s)"
  using handler_step_wf(1) [OF handler_step_upd [where f = f, OF assms(2)]] assms(1) by blast

lemma netifd_status_sta_info:
  "node_sta_info (ln_node (fold netifd_parse_radio radios l)) = node_sta_info (ln_node l)"
  by (simp add: parse_radios_eq parse_interfaces_eq netifd_parse_interface_config_def Let_def)

lemma reload_wf [simp]: "wf_state (usteer_reload_timer fd bound (s\<lparr>reload_timer := t\<rparr>)) = wf_state s"
  by (rule wf_same_data) (simp_all add: usteer_reload_timer_def Let_def)

lemma received_callback:
  assumes "env_ok E" "daemon_inv s" "admissible E (Received now rs) s"
  shows "\<exists>s'. dispatch E (Received now rs) s = Some s' \<and> wf_state s' \<and> nodes_ordered s'"
proof (cases "remote_disabled (config s)")
  case False
  let ?ids = "sender_ids E rs \<union> node_key ` set (remote_nodes s)"
  have "datagrams_ok E rs" "ids_ordered ?ids" "ids_in ?ids s" using assms(3) False by (simp_all add: ids_in_def)
  with recv_loop_total [of E s rs ?ids now] assms(1,2) False show ?thesis
    by (simp add: env_ok_def daemon_inv_def interface_recv_def)
qed (use assms(2) in \<open>simp add: interface_recv_def daemon_inv_def\<close>)

lemma dispatch_total:
  assumes env: "env_ok E" and inv: "daemon_inv s" and ok: "admissible E cb s"
  shows "\<exists>s'. dispatch E cb s = Some s' \<and> wf_state s'"
proof -
  have wf: "wf_state s" and srt: "tq_sorted_at (tq_ref (tq s)) (tq s)" using inv by (auto simp: daemon_inv_def timers_ordered_def)
  have ins: "avl_dups_tree (e_ins E)" and tree: "remote_tree (e_find E) (e_insert E)" using env by (auto simp: env_ok_def)
  have hc: "handler_contract (e_handlers E)" unfolding e_handlers_def by (rule node_handlers_contract [OF ins])
  show ?thesis
  proof (cases cb)
    case (Sta_timers rs)
    with sta_timers.cb_returns [OF wf srt, of rs] ok show ?thesis by auto
  next
    case (Hostapd_event n kind msg clk now)
    with hostapd_event_total [OF ins wf, of n kind "e_aton E" msg "e_ntoa E" clk now] ok show ?thesis by simp
  next
    case (Client_list n freq clients now)
    with handler_contract.list_cb_total [OF hc ins wf, of n "e_aton E" clients "e_fl E" now freq] ok show ?thesis by auto
  next
    case (Own_report n tb ba0 ba1)
    with own_report_total [OF wf, of n ba0 "e_aton E" ba1 "e_blob E" "e_handlers E" tb] ok show ?thesis by simp
  next
    case (Request_done n)
    then show ?thesis using local_step_wf [OF wf] by (simp add: usteer_local_node_req_cb_def)
  next
    case (Request_timer n)
    with request_timer_total [OF wf, of n] ok show ?thesis by simp
  next
    case (Update_timer n clk)
    with ok handler_contract.node_update_total [OF hc wf, of n _ "e_nrp E" clk] show ?thesis by auto
  next
    case (Node_gone n)
    with ok handler_contract.free_node_total [OF hc wf, of n] show ?thesis by (auto simp: usteer_handle_remove_def)
  next
    case (Object_added i path)
    with object_added_total [OF hc wf] show ?thesis by simp
  next
    case (Netifd_status n radios)
    then show ?thesis using local_step_wf [OF wf] by (simp add: netifd_status_cb_def netifd_status_sta_info)
  next
    case (Survey_timer n)
    then show ?thesis using local_step_wf [OF wf] by simp
  next
    case (Remote_timer clk)
    with update_timer_total [OF wf, of "e_ntoa E" clk] ok show ?thesis by simp
  next
    case (Vendor_timer ifaddr clk)
    with vendor_timer_total [OF wf, of "e_nametoindex E" ifaddr clk] ok show ?thesis by simp
  next
    case (Received now rs)
    with received_callback [OF env inv, of now rs] ok show ?thesis by blast
  next
    case Get_clients
    with get_clients_total [OF wf] show ?thesis by simp
  next
    case (Get_client_info mac_str)
    with client_info_total [OF wf, of "e_aton E" "e_ntoa E" mac_str] ok show ?thesis by simp
  next
    case Get_config
    with ok obtain us where us: "config_ssid_list s = Some us" "\<forall>u \<in> set us. length u < 33" by auto
    then have "\<not> (\<exists>u \<in> set us. 33 \<le> length u)" by (simp add: not_le)
    with Get_config us(1) wf show ?thesis by (simp add: get_config_eq)
  next
    case (Set_config name msg)
    with set_config_total [OF ins wf, of name msg] show ?thesis by simp
  qed (use wf in \<open>simp_all add: usteer_ubus_local_info_def usteer_ubus_remote_info_def\<close>)
qed

subsection \<open>What every callback keeps\<close>

text \<open>Only three callbacks set timers of stations.\<close>

fun sets_timers :: "'b callback \<Rightarrow> bool" where
  "sets_timers (Hostapd_event n kind msg clk now) \<longleftrightarrow> True"
| "sets_timers (Client_list n freq clients now) \<longleftrightarrow> True"
| "sets_timers (Received now rs) \<longleftrightarrow> True"
| "sets_timers cb \<longleftrightarrow> False"

fun sets_config :: "'b callback \<Rightarrow> bool" where
  "sets_config (Set_config name msg) \<longleftrightarrow> True"
| "sets_config cb \<longleftrightarrow> False"

context kept
begin

lemma queries_kept [kept_dests]:
  "usteer_ubus_get_clients s = Some s' \<Longrightarrow> I s \<Longrightarrow> I s'"
  "usteer_ubus_get_client_info aton ntoa mac_str s = Some (a, s') \<Longrightarrow> I s \<Longrightarrow> I s'"
  "usteer_ubus_get_config env s = Some s' \<Longrightarrow> I s \<Longrightarrow> I s'"
  by (auto simp: usteer_ubus_get_clients_def usteer_ubus_get_client_info_def usteer_ubus_get_config_def bind_eq_Some_conv Let_def
      split: option.splits if_splits prod.splits)

lemma quiet_callback_kept:
  assumes "dispatch E cb s = Some s'" "\<not> sets_timers cb" "\<not> sets_config cb" "I s"
  shows "I s'"
  using assms
  by (cases cb) (auto simp: usteer_ubus_local_info_def usteer_ubus_remote_info_def usteer_handle_remove_def e_handlers_def
      intro: timeout_cb_kept kept_intros dest: kept_dests)

end

context kept_config
begin

lemma options_kept: "main_options idx os s = Some (Some s') \<Longrightarrow> I s \<Longrightarrow> I s'"
  by (induction idx os s rule: main_options.induct) (auto simp: bind_eq_Some_conv dest: interface_add_kept intro: config_upd)

lemma main_kept:
  assumes "usteer_main E st = Some (Inr s)" "I initial_state"
  shows "I s"
proof -
  from assms(1) obtain t ret u where
    t: "main_options (e_nametoindex E) (st_options st) (initial_state\<lparr>config := usteer_init_defaults\<rparr>) = Some (Some t)"
    and u: "usteer_interface_init E st (usteer_update_time (st_clock st) t) = Some (ret, u)"
    and s: "usteer_local_nodes_init (e_handlers E) (e_nametoindex E) (e_objects E) u = Some s"
    by (auto simp: usteer_main_def bind_eq_Some_conv Let_def split: option.splits if_splits)
  have "I (usteer_update_time (st_clock st) t)"
    using options_kept [OF t] assms(2) config_upd by (simp add: usteer_update_time_def)
  with u have "I u"
    by (auto simp: usteer_interface_init_def usteer_init_local_id_def bind_eq_Some_conv Let_def
        split: prod.splits option.splits if_splits dest!: update_timer_kept vendor_timer_kept intro!: reload_kept)
  with s show ?thesis unfolding e_handlers_def by (rule nodes_init_kept)
qed

lemma plain_callback_kept:
  assumes "dispatch E cb s = Some s'" "\<not> sets_timers cb" "I s"
  shows "I s'"
proof (cases "sets_config cb")
  case True
  then obtain name msg where "cb = Set_config name msg" by (cases cb) auto
  with assms set_config_kept [of "e_config E" name msg s s'] show ?thesis by (auto simp: e_config_def e_handlers_def)
next
  case False
  with assms show ?thesis by (blast intro: quiet_callback_kept)
qed

end

context kept_timers
begin

lemma timed_callback_kept:
  assumes "dispatch E cb s = Some s'" "\<nexists>now rs. cb = Received now rs" "sets_timers cb" "e_ins E = ins"
    and "\<forall>r \<in> clock_readings E cb. time_ok r" "I s"
  shows "I s'"
proof (cases cb)
  case (Hostapd_event n kind msg clk now)
  with assms(1) obtain ret where "usteer_handle_event (e_aton E) ins (e_ntoa E) clk now n kind msg s = Some (ret, s')"
    unfolding assms(4) [symmetric] by auto
  then show ?thesis by (rule event_kept) (use assms(5,6) Hostapd_event in auto)
next
  case (Client_list n freq clients now)
  with assms list_cb_kept [of "e_aton E" "e_kernel E" "e_rd E" "e_lookup E" "e_fl E" now n "Some freq" "Some clients" s s']
  show ?thesis by (auto simp: e_handlers_def)
qed (use assms in auto)

end

context kept_recv
begin

lemma received_kept:
  assumes "dispatch E (Received now rs) s = Some s'" "e_ins E = ins" "e_insert E = rins"
    and "\<forall>r \<in> clock_readings E (Received now rs). time_ok r" "sender_ids E rs \<subseteq> ids"
    and "\<And>ms. short ms \<Longrightarrow> ms_ok ms" "datagrams_ok E rs" "I s"
  shows "I s'"
proof (cases "remote_disabled (config s)")
  case False
  with assms(1-3) have run: "recv_loop (e_blob E) (e_find E) rins ins (e_aton E) (e_ntop E) now rs s = Some s'"
    by (simp add: interface_recv_def)
  show ?thesis
  proof (rule recv_loop_kept [OF run assms(8)])
    show "time_ok (now n j l)" for n j l using assms(4) by auto
    fix sc addr data len msg assume p: "Recv_packet sc addr data len \<in> set rs" "parse_apmsg (e_blob E) data = Some msg"
    then have "ucast (apmsg_id msg) \<in> ids" using assms(5) unfolding sender_ids_def by blast
    moreover from p(1) assms(7) have "message_readable E data" by (force simp: datagrams_ok_def)
    ultimately show "ucast (apmsg_id msg) \<in> ids \<and>
        (\<forall>x \<in> set (blob_attrs (e_blob E) (apmsg_nodes msg)). \<forall>ms \<in> record_timeouts (e_blob E) x. ms_ok ms)"
      using p(2) assms(6) by (simp add: message_readable_def)
  qed
qed (use assms in \<open>simp add: interface_recv_def\<close>)

end

subsection \<open>Start\<close>

text \<open>No stations and no nodes yet.\<close>

definition blank :: "usteer_state \<Rightarrow> bool" where
  "blank s \<longleftrightarrow> stations s = [] \<and> si_heap s = Map.empty \<and> tq s = usteer_timeout_init \<and> local_nodes s = [] \<and>
     remote_nodes s = [] \<and> remote_update_interval (config s) \<noteq> 0"

lemma blank_wf: "blank s \<Longrightarrow> wf_state s"
proof -
  assume b: "blank s"
  then have "get_node s r = None" for r by (cases r) (simp_all add: blank_def get_local_def get_remote_def)
  with b show "wf_state s"
    by (simp add: blank_def wf_state_def wf_core_def sta_ok_def node_ok_def si_ok_def si_unique_def timers_ok_def tq_wf_def
        keys_ok_def no_empty_sta_def sta_view_def node_view_def get_sta_def usteer_timeout_init_def)
qed

lemma blank_options:
  assumes "blank s"
  shows "\<exists>r. main_options idx os s = Some r \<and> (\<forall>s'. r = Some s' \<longrightarrow> blank s') \<and> (r = None \<longleftrightarrow> Opt_unknown \<in> set os)"
  using assms
proof (induction idx os s rule: main_options.induct)
  case (4 idx name os s)
  obtain ifs t where add: "usteer_interface_add idx name s = Some (s\<lparr>interfaces := ifs, reload_timer := t\<rparr>)"
    using interface_add_Some by blast
  have "blank (s\<lparr>interfaces := ifs, reload_timer := t\<rparr>)" using 4(2) by (simp add: blank_def)
  from 4(1) [OF add this] add show ?case by simp
qed (simp_all add: blank_def)

lemma blank_update_timer:
  assumes "blank s"
  shows "\<exists>s'. usteer_send_update_timer ntoa clk s = Some s' \<and> blank s'"
  using assms
  by (auto simp: usteer_send_update_timer_def usteer_update_init_def usteer_check_timeout_def blank_def update_send_eq Let_def)

lemma vendor_addresses_length: "length (vendor_addresses idx s ifas) \<le> length ifas"
  by (induction ifas) (auto split: option.split)

lemma vendor_addresses_mem: "a \<in> set (vendor_addresses idx s ifas) \<Longrightarrow> \<exists>x \<in> set ifas. snd x = In6 a"
  by (induction ifas) (auto simp: vendor_address_def split: option.splits if_splits ifa_addr.splits)

lemma start_addresses_fit: "start_ok I \<Longrightarrow> addresses_fit idx s (st_ifaddr I)"
proof (cases "st_ifaddr I")
  case (Some ifas)
  assume "start_ok I"
  with Some have "length ifas < 16" "\<forall>x \<in> set ifas. case snd x of In6 a \<Rightarrow> length a = 16 | _ \<Rightarrow> True"
    by (auto simp: start_ok_def)
  moreover have "length a = 16" if "a \<in> set (vendor_addresses idx s ifas)" for a
  proof -
    from vendor_addresses_mem [OF that] obtain x where "x \<in> set ifas" "snd x = In6 a" by blast
    with calculation(2) show ?thesis by fastforce
  qed
  moreover have "length (vendor_addresses idx s ifas) < 16"
    using calculation(1) vendor_addresses_length [of idx s ifas] by simp
  ultimately show ?thesis using Some by (simp add: addresses_fit_def)
qed (simp add: addresses_fit_def)

lemma blank_vendor_timer:
  assumes "blank s" "addresses_fit idx s ifaddr"
  shows "\<exists>s'. usteer_vendor_update_timer idx ifaddr clk s = Some s' \<and> blank s'"
proof -
  from vendor_timer_total [OF blank_wf [OF assms(1)] assms(2), of clk] obtain s' where
    s': "usteer_vendor_update_timer idx ifaddr clk s = Some s'" by blast
  let ?s = "s\<lparr>current_time := clk, vendor_timer := Some (vendor_update_interval (config s))\<rparr>"
  have "usteer_vendor_set idx ifaddr ?s = Some s'" using s' by (simp add: usteer_vendor_update_timer_def Let_def)
  then obtain ou where "s' = ?s\<lparr>out := ou\<rparr>" by (rule vendor_set_out)
  with s' assms(1) show ?thesis by (auto simp: blank_def)
qed

lemma interface_init_total:
  assumes "start_ok I" "blank s"
  shows "\<exists>ret s'. usteer_interface_init E I s = Some (ret, s') \<and> blank s'"
proof (cases "st_random I")
  case None
  then show ?thesis using assms(2) by (simp add: usteer_interface_init_def usteer_init_local_id_def)
next
  case (Some x)
  let ?s = "s\<lparr>local_id := x\<rparr>"
  have "blank ?s" using assms(2) by (simp add: blank_def)
  from blank_update_timer [OF this, of "e_ntoa E" "st_update_clock I"] obtain t where
    t: "usteer_send_update_timer (e_ntoa E) (st_update_clock I) ?s = Some t" "blank t" by blast
  have "blank (usteer_reload_timer (st_socket I) (st_bound I) t)"
    using t(2) by (simp add: blank_def usteer_reload_timer_def Let_def)
  from blank_vendor_timer [OF this start_addresses_fit [OF assms(1)], of "e_nametoindex E" "st_vendor_clock I"] t(1) Some
  show ?thesis by (auto simp: usteer_interface_init_def usteer_init_local_id_def)
qed

lemma main_total:
  assumes env: "env_ok E" and st: "start_ok I"
  shows "\<exists>r. usteer_main E I = Some r \<and> (isl r \<longleftrightarrow> Opt_unknown \<in> set (st_options I) \<or> \<not> st_ubus I) \<and>
    (\<forall>s. r = Inr s \<longrightarrow> wf_state s \<and> (\<forall>n. get_local s n \<noteq> None \<longleftrightarrow> is_hostapd n \<and> n \<in> fst ` set (e_objects E)))"
proof -
  have "blank (initial_state\<lparr>config := usteer_init_defaults\<rparr>)"
    by (simp add: blank_def initial_state_def usteer_init_defaults_def)
  from blank_options [OF this, of "e_nametoindex E" "st_options I"] obtain r where
    r: "main_options (e_nametoindex E) (st_options I) (initial_state\<lparr>config := usteer_init_defaults\<rparr>) = Some r"
      "\<And>s. r = Some s \<Longrightarrow> blank s" "r = None \<longleftrightarrow> Opt_unknown \<in> set (st_options I)" by blast
  show ?thesis
  proof (cases r)
    case None
    with r show ?thesis by (simp add: usteer_main_def)
  next
    case (Some s)
    let ?s = "usteer_update_time (st_clock I) s"
    have "blank ?s" using r(2) [OF Some] by (simp add: blank_def usteer_update_time_def)
    from interface_init_total [OF st this, of E] obtain ret t where
      t: "usteer_interface_init E I ?s = Some (ret, t)" "blank t" by blast
    have ins: "avl_dups_tree (e_ins E)" using env by (simp add: env_ok_def)
    have "get_local t n = None" for n using t(2) by (simp add: blank_def get_local_def)
    with handler_contract.nodes_init_total [OF node_handlers_contract [OF ins] blank_wf [OF t(2)], of "e_kernel E" "e_rd E"
        "e_lookup E" "e_nametoindex E" "e_objects E"] obtain u where
      "usteer_local_nodes_init (e_handlers E) (e_nametoindex E) (e_objects E) t = Some u" "wf_state u"
      "\<forall>n. get_local u n \<noteq> None \<longleftrightarrow> is_hostapd n \<and> n \<in> fst ` set (e_objects E)" unfolding e_handlers_def by auto
    with r Some t(1) show ?thesis by (cases "st_ubus I") (simp_all add: usteer_main_def)
  qed
qed

lemma start_inv: "timers_ordered initial_state" "nodes_ordered initial_state" "well_typed initial_state"
  by (simp_all add: timers_ordered_def nodes_ordered_def unique_alt well_typed_def initial_state_def tq_wf_def tq_sorted_at_def
      usteer_timeout_init_def remote_sorted_def ids_ordered_def get_local_def get_remote_def)

lemma received_inv:
  assumes env: "env_ok E" and inv: "daemon_inv s" and ok: "admissible E (Received now rs) s"
    and s': "dispatch E (Received now rs) s = Some s'"
  shows "daemon_inv s'"
proof (cases "remote_disabled (config s)")
  case True
  with s' inv show ?thesis by (simp add: interface_recv_def)
next
  case False
  have ins: "avl_dups_tree (e_ins E)" and tree: "remote_tree (e_find E) (e_insert E)" using env by (auto simp: env_ok_def)
  from ok False obtain t0 where t0: "timely t0 s" "\<forall>r \<in> clock_readings E (Received now rs). near t0 r" "datagrams_ok E rs"
    by (auto simp: clocks_fit_def simp del: clock_readings.simps)
  have "timers_ordered s' \<and> timely t0 s'"
    using kept_recv.received_kept [OF queue_kept [OF ins, of t0 "e_insert E" UNIV] s' refl refl t0(2)] t0(1,3) inv
    by (simp add: daemon_inv_def)
  moreover have "well_typed s' \<and> ids_in UNIV s'"
    using kept_recv.received_kept [OF tables_kept [OF tree, where ids = UNIV] s' refl refl] t0(3) inv
    by (simp add: daemon_inv_def ids_in_def)
  moreover have "wf_state s'" "nodes_ordered s'" using received_callback [OF env inv ok] s' by auto
  ultimately show ?thesis by (simp add: daemon_inv_def)
qed

lemma timed_inv:
  assumes env: "env_ok E" and inv: "daemon_inv s" and ok: "admissible E cb s" and s': "dispatch E cb s = Some s'"
    and cb: "\<nexists>now rs. cb = Received now rs" "sets_timers cb"
  shows "daemon_inv s'"
proof -
  have ins: "avl_dups_tree (e_ins E)" and tree: "remote_tree (e_find E) (e_insert E)" using env by (auto simp: env_ok_def)
  from cb ok obtain t0 where t0: "timely t0 s" "\<forall>r \<in> clock_readings E cb. near t0 r"
    by (cases cb) (auto simp: clocks_fit_def simp del: clock_readings.simps)
  have "timers_ordered s' \<and> timely t0 s'"
    using kept_timers.timed_callback_kept [OF kept_recv.axioms(1) [OF queue_kept [OF ins, of t0]] s' cb refl t0(2)] inv t0(1)
    by (simp add: daemon_inv_def)
  moreover have "well_typed s' \<and> ids_in UNIV s'"
    using kept_timers.timed_callback_kept [OF kept_recv.axioms(1) [OF tables_kept [OF tree, where ids = UNIV]] s' cb refl] inv
    by (simp add: daemon_inv_def ids_in_def)
  moreover have "nodes_ordered s'"
    using nodes_timers.timed_callback_kept [OF s' cb refl] inv by (simp add: daemon_inv_def)
  ultimately show ?thesis using dispatch_total [OF env inv ok] s' by (simp add: daemon_inv_def)
qed

lemma dispatch_inv:
  assumes env: "env_ok E" and inv: "daemon_inv s" and ok: "admissible E cb s" and s': "dispatch E cb s = Some s'"
  shows "daemon_inv s'"
proof (cases "sets_timers cb")
  case False
  with dispatch_total [OF env inv ok] s' inv queue.plain_callback_kept [OF s'] nodes.plain_callback_kept [OF s']
    tables.plain_callback_kept [OF s']
  show ?thesis by (auto simp: daemon_inv_def)
next
  case True
  with received_inv [OF env inv] timed_inv [OF env inv ok s'] ok s' show ?thesis by metis
qed

text \<open>Only a request to set them changes the configuration and the interfaces.\<close>

interpretation settings: kept_recv "\<lambda>s. config s = c \<and> interfaces s = ifs" ins "\<lambda>_. True" "\<lambda>_. True" rins UNIV
  for c ifs ins rins
  by unfold_locales auto

lemma settings_frame:
  assumes "dispatch E cb s = Some s'" "\<not> sets_config cb" "admissible E cb s"
  shows "config s' = config s \<and> interfaces s' = interfaces s"
proof -
  consider now rs where "cb = Received now rs" | "sets_timers cb" "\<nexists>now rs. cb = Received now rs" | "\<not> sets_timers cb"
    by blast
  then show ?thesis
  proof cases
    case 1
    show ?thesis
    proof (cases "remote_disabled (config s)")
      case False
      with 1 assms(3) have "datagrams_ok E rs" by simp
      with settings.received_kept [OF assms(1) [unfolded 1] refl refl] show ?thesis by simp
    qed (use 1 assms(1) in \<open>simp add: interface_recv_def\<close>)
  next
    case 2
    show ?thesis by (rule settings.timed_callback_kept [OF assms(1) 2(2,1) refl]) simp_all
  next
    case 3
    show ?thesis by (rule settings.quiet_callback_kept [OF assms(1) 3 assms(2)]) simp
  qed
qed

lemma reachable_inv:
  assumes "\<forall>E \<in> Es. env_ok E" "reachable Es s"
  shows "daemon_inv s"
  using assms(2)
proof induction
  case (start E I s)
  with main_total [of E I] assms(1) have "wf_state s" by auto
  with start(3) start_inv show ?case
    by (auto simp: daemon_inv_def dest: queue.main_kept nodes.main_kept tables.main_kept)
next
  case (step s E cb s')
  with dispatch_inv assms(1) show ?case by blast
qed

text \<open>
  A request for a method of the object is one of the callbacks; it is defined in every reachable state, but for the two
  that need a list of SSIDs or a positive measuring time.
\<close>

lemma methods_total:
  assumes "env_ok E" "daemon_inv s" "(name, cb) \<in> set usteer_methods"
    and "kick_client_active_sec (config s) \<noteq> 0" "\<exists>us. config_ssid_list s = Some us \<and> (\<forall>u \<in> set us. length u < 33)"
  shows "\<exists>s'. dispatch E (cb name msg) s = Some s' \<and> daemon_inv s'"
proof -
  have "admissible E (cb name msg) s" using assms(3-5) by (auto simp: usteer_methods_def)
  with dispatch_total [OF assms(1,2)] dispatch_inv [OF assms(1,2)] show ?thesis by blast
qed

section \<open>A concrete daemon\<close>

definition sample_env :: "blob_item daemon_env" where
  "sample_env = \<lparr>e_aton = network_aton, e_ntoa = mac_addr_fmt, e_ins = ordered_insert, e_rd = (\<lambda>_. 0),
     e_kernel = silent_kernel, e_lookup = (\<lambda>_. None), e_fl = (\<lambda>x. x), e_nrp = (\<lambda>_. (None, None, None)),
     e_nametoindex = (\<lambda>_. 3), e_objects = [(''hostapd.wlan0'', 7)], e_blob = item_reader (\<lambda>_. []), e_ntop = (\<lambda>_. []),
     e_find = remote_find_list, e_insert = remote_insert_list\<rparr>"

definition sample_start :: start_input where
  "sample_start = \<lparr>st_options = [Opt_v, Opt_i ''lan''], st_clock = \<lparr>tv_sec = 1, tv_nsec = 0\<rparr>, st_ubus = True, st_random = Some 42,
     st_update_clock = 1001, st_socket = 5, st_bound = 0, st_vendor_clock = 1002, st_ifaddr = None\<rparr>"

lemma sample_env_ok: "env_ok sample_env"
  by (simp add: env_ok_def sample_env_def ordered.avl_dups_tree_axioms remote_list.remote_tree_axioms)

lemma sample_start_ok: "start_ok sample_start"
  by (simp add: start_ok_def sample_start_def)

lemma sample_runs:
  "\<exists>s. usteer_main sample_env sample_start = Some (Inr s) \<and> get_local s ''hostapd.wlan0'' \<noteq> None"
proof -
  have "Opt_unknown \<notin> set (st_options sample_start)" "st_ubus sample_start" by (simp_all add: sample_start_def)
  with main_total [OF sample_env_ok sample_start_ok] obtain s where s: "usteer_main sample_env sample_start = Some (Inr s)"
      "\<forall>n. get_local s n \<noteq> None \<longleftrightarrow> is_hostapd n \<and> n \<in> fst ` set (e_objects sample_env)"
    by (metis isl_def sum.exhaust)
  have "is_hostapd ''hostapd.wlan0''" "''hostapd.wlan0'' \<in> fst ` set (e_objects sample_env)"
    by (simp_all add: is_hostapd_def sample_env_def)
  with s show ?thesis by blast
qed

section \<open>Properties\<close>



text \<open>
  C2. Types of the nodes. In every state the daemon reaches, a node among the local ones is an object
  of hostapd and says so, a node among the remote ones says it is remote and is shown under the address of its
  instance, a number sign and its name; the keys of the remote nodes are fresh and different, the interfaces sorted by
  name without duplicates. (The code tells local from remote nodes by this field alone before it
  casts a pointer.)
\<close>

theorem daemon_types:
  assumes "\<forall>E \<in> Es. env_ok E" "reachable Es s"
  shows "(\<forall>n l. get_local s n = Some l \<longrightarrow> take 8 n = ''hostapd.'' \<and> node_type (ln_node l) = NODE_TYPE_LOCAL) \<and>
    (\<forall>k rn. get_remote s k = Some rn \<longrightarrow> node_type (rn_node rn) = NODE_TYPE_REMOTE \<and>
       (\<exists>addr. rn_full_name rn = addr @ ''#'' @ rn_name rn)) \<and>
    distinct (map fst (remote_nodes s)) \<and> (\<forall>k \<in> fst ` set (remote_nodes s). k < rn_next s) \<and>
    sorted (map fst (interfaces s)) \<and> distinct (map fst (interfaces s))"
proof -
  have typed: "well_typed s" using reachable_inv [OF assms] by (simp add: daemon_inv_def)
  then have "k < rn_next s" if "(k, rn) \<in> set (remote_nodes s)" for k rn
    using that by (auto simp: well_typed_def get_remote_def)
  with typed show ?thesis
    by (auto simp: well_typed_def local_typed_def remote_typed_def is_hostapd_def dict_ok_def)
qed

theorem daemon_types_witness:
  "\<exists>s. usteer_main sample_env sample_start = Some (Inr s) \<and>
     (\<exists>l. get_local s ''hostapd.wlan0'' = Some l \<and> node_type (ln_node l) = NODE_TYPE_LOCAL) \<and> sorted (map fst (interfaces s))"
proof -
  from sample_runs obtain s where s: "usteer_main sample_env sample_start = Some (Inr s)" "get_local s ''hostapd.wlan0'' \<noteq> None"
    by blast
  have "reachable {sample_env} s" by (rule reachable.start [OF _ sample_start_ok s(1)]) simp
  moreover have "\<forall>E \<in> {sample_env}. env_ok E" by (simp add: sample_env_ok)
  ultimately have "(\<forall>n l. get_local s n = Some l \<longrightarrow> take 8 n = ''hostapd.'' \<and> node_type (ln_node l) = NODE_TYPE_LOCAL) \<and>
      sorted (map fst (interfaces s))"
    using daemon_types [of "{sample_env}" s] by blast
  with s show ?thesis by blast
qed



end
