(* ===== verification/Tools.thy ===== *)
theory Tools
  imports Parse
begin

text \<open>
  The two programs beside the daemon: monitor.c prints the messages between instances that it captures, fakeap.c
  sends the probe requests of made-up stations. What is printed or sent is a list; the bytes
  of a captured message are turned into an attribute of libubox by \<open>attr_of\<close>; random bytes and \<open>strtoul\<close> come
  from the C library.
\<close>

unbundle bit_operations_syntax

section \<open>Monitor\<close>

text \<open>The lines of the output, with their arguments.\<close>

datatype 'b monitor_line =
  Packet_line "u8 list" int
| Invalid_data
| Missing_fields
| Head_line u32 u32
| Node_line "string option" s32 s32 s32 s32 s32
| Rrm_line "string option list"
| Script_line 'b
| Sta_line mac s32 bool s32
| Usage_line
| Open_failed string
| Invalid_link_type

definition decode_sta :: "'b libblob \<Rightarrow> 'b \<Rightarrow> 'b monitor_line list" where
  "decode_sta B data =
     (case parse_apmsg_sta B data of
        None \<Rightarrow> []
      | Some msg \<Rightarrow> [Sta_line (aps_addr msg) (aps_signal msg) (aps_connected msg) (aps_timeout msg)])"

definition decode_node :: "'b libblob \<Rightarrow> 'b \<Rightarrow> 'b monitor_line list" where
  "decode_node B data =
     (case parse_apmsg_node B data of
        None \<Rightarrow> []
      | Some msg \<Rightarrow>
          [Node_line (apn_name msg) (apn_freq msg) (apn_n_assoc msg) (apn_noise msg) (apn_load msg) (apn_max_assoc msg)] @
          (case apn_rrm_nr msg of
             None \<Rightarrow> []
           | Some nr \<Rightarrow> [Rrm_line (map (blob_string B)
               (filter (\<lambda>cur. blobmsg_check_attr B cur \<and> blobmsg_type_of B cur = BLOBMSG_TYPE_STRING) (blobmsg_attrs B nr)))]) @
          (case apn_script_data msg of None \<Rightarrow> [] | Some d \<Rightarrow> [Script_line d]) @
          concat (map (decode_sta B) (blob_attrs B (apn_stations msg))))"

definition decode_packet :: "'b libblob \<Rightarrow> 'b \<Rightarrow> 'b monitor_line list" where
  "decode_packet B data =
     (case parse_apmsg B data of
        None \<Rightarrow> [Missing_fields]
      | Some msg \<Rightarrow> Head_line (apmsg_id msg) (apmsg_seq msg) # concat (map (decode_node B) (blob_attrs B (apmsg_nodes msg))))"

definition APMGR_PORT :: nat where "APMGR_PORT = 16720"

text \<open>The captured bytes from the IP header on; a read past their end is undefined.\<close>

definition recv_packet :: "'b libblob \<Rightarrow> (u8 list \<Rightarrow> 'b) \<Rightarrow> nat \<Rightarrow> u8 list \<Rightarrow> 'b monitor_line list option" where
  "recv_packet B attr_of pkt_offset packet =
     (let len = int (length packet) - int pkt_offset;
          packet = drop pkt_offset packet
      in if packet = [] then None
         else
           (let hdrlen = unat (packet ! 0 AND 0x0f) * 4
            in if hdrlen < 20 \<or> int hdrlen \<ge> len then Some []
               else
                 (let len = len - int hdrlen;
                      addr = take 4 (drop 12 packet);
                      packet = drop hdrlen packet
                  in if len \<le> 8 then Some []
                     else
                       (let dport = 256 * unat (packet ! 2) + unat (packet ! 3);
                            packet = drop 8 packet;
                            len = len - 8
                        in if dport \<noteq> APMGR_PORT then Some []
                           else if len < 4 then None
                           else if len \<noteq> int (blob_pad_len B (attr_of packet)) then Some [Packet_line addr len, Invalid_data]
                           else Some (Packet_line addr len # decode_packet B (attr_of packet))))))"

text \<open>
  The program: \<open>pcap_open_live\<close> gives the link type of an interface it can open; the loop runs over the
  packets that pass the filter.
\<close>

datatype link_type = DLT_EN10MB | DLT_RAW | DLT_OTHER

definition monitor_main ::
    "'b libblob \<Rightarrow> (u8 list \<Rightarrow> 'b) \<Rightarrow> string list \<Rightarrow> (string \<Rightarrow> link_type option) \<Rightarrow> u8 list list \<Rightarrow>
     (int \<times> 'b monitor_line list) option" where
  "monitor_main B attr_of argv pcap_open_live packets =
     (if length argv \<noteq> 2 then Some (1, [Usage_line])
      else
        (case pcap_open_live (argv ! 1) of
           None \<Rightarrow> Some (1, [Open_failed (argv ! 1)])
         | Some DLT_OTHER \<Rightarrow> Some (- 1, [Invalid_link_type])
         | Some dlt \<Rightarrow> do {
             let pkt_offset = (case dlt of DLT_EN10MB \<Rightarrow> 14 | _ \<Rightarrow> 0);
             printed \<leftarrow> those (map (recv_packet B attr_of pkt_offset) packets);
             Some (0, concat printed)
           }))"

section \<open>Fake access point\<close>

record var =
  v_cur :: s32
  v_min :: s32
  v_max :: s32

text \<open>\<open>v\<close> is the random byte; the subtraction must not overflow.\<close>

definition gen_val :: "u8 \<Rightarrow> var \<Rightarrow> var option" where
  "gen_val v val =
     (if sint (v_max val) - sint (v_min val) \<notin> {- (2 ^ 31) ..< 2 ^ 31} then None
      else
        (let delta = v_max val - v_min val;
             val = val\<lparr>v_cur := v_min val\<rparr>
         in if delta = 0 then Some val
            else Some (val\<lparr>v_cur := v_cur val + (ucast v * delta) div 0xff\<rparr>)))"

text \<open>\<open>strtoul\<close> gives the number and the rest of the string.\<close>

definition parse_var :: "(string \<Rightarrow> u64 \<times> string) \<Rightarrow> string \<Rightarrow> var \<Rightarrow> bool \<times> var" where
  "parse_var strtoul str var =
     (case strtoul str of (m, err) \<Rightarrow>
        let var = var\<lparr>v_min := ucast m, v_max := ucast m\<rparr>
        in case err of
             [] \<Rightarrow> (True, var)
           | c # rest \<Rightarrow>
               if c \<noteq> CHR '':'' then (False, var)
               else (case strtoul rest of (m', err) \<Rightarrow> (err = [], var\<lparr>v_max := ucast m'\<rparr>)))"

record sta_data =
  sd_probe :: var
  sd_signal :: var
  sd_addr :: mac

text \<open>The string buffer has room for 20 characters.\<close>

definition blobmsg_add_macaddr :: "string \<Rightarrow> mac \<Rightarrow> string \<times> blobmsg" where
  "blobmsg_add_macaddr name addr = (name, Add_string (mac_addr_fmt addr))"

text \<open>The notification of a probe request.\<close>

definition sta_send_probe :: "s32 \<Rightarrow> sta_data \<Rightarrow> string \<times> (string \<times> blobmsg) list" where
  "sta_send_probe freq sta =
     (let sig = - 95 + v_cur (sd_signal sta)
      in (''probe'', [blobmsg_add_macaddr ''address'' (sd_addr sta), (''freq'', Add_u32 freq), (''signal'', Add_u32 sig)]))"

text \<open>Two random bytes; the timer of station \<open>t\<close>.\<close>

definition sta_schedule_probe ::
    "tree_insert \<Rightarrow> u32 \<Rightarrow> u8 \<Rightarrow> u8 \<Rightarrow> nat \<Rightarrow> sta_data \<Rightarrow> usteer_timeout_queue \<Rightarrow> (sta_data \<times> usteer_timeout_queue) option" where
  "sta_schedule_probe ins now r1 r2 t sta q = do {
     p \<leftarrow> gen_val r1 (sd_probe sta);
     g \<leftarrow> gen_val r2 (sd_signal sta);
     Some (sta\<lparr>sd_probe := p, sd_signal := g\<rparr>, usteer_timeout_set ins q t (v_cur p) now)
   }"

definition sta_probe ::
    "tree_insert \<Rightarrow> u32 \<Rightarrow> u8 \<Rightarrow> u8 \<Rightarrow> s32 \<Rightarrow> nat \<Rightarrow> sta_data \<Rightarrow> usteer_timeout_queue \<Rightarrow>
     ((string \<times> (string \<times> blobmsg) list) \<times> sta_data \<times> usteer_timeout_queue) option" where
  "sta_probe ins now r1 r2 freq t sta q = do {
     (sta', q) \<leftarrow> sta_schedule_probe ins now r1 r2 t sta q;
     Some (sta_send_probe freq sta, sta', q)
   }"

definition init_station ::
    "tree_insert \<Rightarrow> u32 \<Rightarrow> mac \<Rightarrow> u8 \<Rightarrow> u8 \<Rightarrow> sta_data \<Rightarrow> sta_data list \<times> usteer_timeout_queue \<Rightarrow>
     (sta_data list \<times> usteer_timeout_queue) option" where
  "init_station ins now addr r1 r2 sta stq = do {
     let sta = sta\<lparr>sd_addr := (case addr of MAC a b c d e f \<Rightarrow> MAC (a AND NOT 1) b c d e f)\<rparr>;
     (sta, q) \<leftarrow> sta_schedule_probe ins now r1 r2 (length (fst stq)) sta (snd stq);
     Some (fst stq @ [sta], q)
   }"

text \<open>\<open>now i\<close> is the clock and \<open>rnd i\<close> are the random bytes that station \<open>i\<close> of this call reads.\<close>

definition create_stations ::
    "tree_insert \<Rightarrow> (nat \<Rightarrow> u32) \<Rightarrow> (nat \<Rightarrow> mac \<times> u8 \<times> u8) \<Rightarrow> sta_data \<Rightarrow> int \<Rightarrow> sta_data list \<times> usteer_timeout_queue \<Rightarrow>
     (sta_data list \<times> usteer_timeout_queue) option" where
  "create_stations ins now rnd ref n stq =
     for_each (\<lambda>i stq. case rnd i of (addr, r1, r2) \<Rightarrow> init_station ins (now i) addr r1 r2 ref stq) [0..<nat n] stq"

subsection \<open>The program\<close>

record fakeap_state =
  fs_sdata :: sta_data
  fs_freq :: s32
  fs_verbose :: s32
  fs_stations :: "sta_data list"
  fs_tq :: usteer_timeout_queue
  fs_out :: "(string \<times> (string \<times> blobmsg) list) list"

datatype fakeap_option = Fake_p string | Fake_s string | Fake_f string | Fake_n string | Fake_v | Fake_unknown

text \<open>The options, in order; a bad one ends the program with the usage text. Each \<^verbatim>\<open>-n\<close> reads clock and random bytes of its own.\<close>

fun fakeap_options ::
    "tree_insert \<Rightarrow> (string \<Rightarrow> u64 \<times> string) \<Rightarrow> (string \<Rightarrow> s32) \<Rightarrow> (nat \<Rightarrow> nat \<Rightarrow> u32) \<Rightarrow> (nat \<Rightarrow> nat \<Rightarrow> mac \<times> u8 \<times> u8) \<Rightarrow>
     fakeap_option list \<Rightarrow> fakeap_state \<Rightarrow> fakeap_state option option" where
  "fakeap_options ins strtoul atoi now rnd [] s = Some (Some s)"
| "fakeap_options ins strtoul atoi now rnd (Fake_p arg # os) s =
     (case parse_var strtoul arg (sd_probe (fs_sdata s)) of (ok, var) \<Rightarrow>
        if \<not> ok then Some None
        else fakeap_options ins strtoul atoi now rnd os (s\<lparr>fs_sdata := (fs_sdata s)\<lparr>sd_probe := var\<rparr>\<rparr>))"
| "fakeap_options ins strtoul atoi now rnd (Fake_s arg # os) s =
     (case parse_var strtoul arg (sd_signal (fs_sdata s)) of (ok, var) \<Rightarrow>
        if \<not> ok then Some None
        else fakeap_options ins strtoul atoi now rnd os (s\<lparr>fs_sdata := (fs_sdata s)\<lparr>sd_signal := var\<rparr>\<rparr>))"
| "fakeap_options ins strtoul atoi now rnd (Fake_f arg # os) s =
     fakeap_options ins strtoul atoi now rnd os (s\<lparr>fs_freq := atoi arg\<rparr>)"
| "fakeap_options ins strtoul atoi now rnd (Fake_n arg # os) s = do {
     (stas, q) \<leftarrow> create_stations ins (now 0) (rnd 0) (fs_sdata s) (sint (atoi arg)) (fs_stations s, fs_tq s);
     fakeap_options ins strtoul atoi (\<lambda>i. now (Suc i)) (\<lambda>i. rnd (Suc i)) os (s\<lparr>fs_stations := stas, fs_tq := q\<rparr>)
   }"
| "fakeap_options ins strtoul atoi now rnd (Fake_v # os) s =
     fakeap_options ins strtoul atoi now rnd os (s\<lparr>fs_verbose := fs_verbose s + 1\<rparr>)"
| "fakeap_options ins strtoul atoi now rnd (Fake_unknown # os) s = Some None"

definition fakeap_initial :: fakeap_state where
  "fakeap_initial = \<lparr>
     fs_sdata = \<lparr>sd_probe = \<lparr>v_cur = 0, v_min = 1000, v_max = 30000\<rparr>, sd_signal = \<lparr>v_cur = 0, v_min = - 30, v_max = - 30\<rparr>,
       sd_addr = MAC 0 0 0 0 0 0\<rparr>,
     fs_freq = 2412, fs_verbose = 0, fs_stations = [], fs_tq = usteer_timeout_init, fs_out = []\<rparr>"

text \<open>
  \<open>opened\<close>: the random device; \<open>ctx\<close>, \<open>added\<close>: ubus and the object of the access point. The result is
  the exit code or the state in which the event loop starts.
\<close>

definition fakeap_main ::
    "tree_insert \<Rightarrow> (string \<Rightarrow> u64 \<times> string) \<Rightarrow> (string \<Rightarrow> s32) \<Rightarrow> (nat \<Rightarrow> nat \<Rightarrow> u32) \<Rightarrow> (nat \<Rightarrow> nat \<Rightarrow> mac \<times> u8 \<times> u8) \<Rightarrow>
     bool \<Rightarrow> fakeap_option list \<Rightarrow> bool \<Rightarrow> bool \<Rightarrow> (int + fakeap_state) option" where
  "fakeap_main ins strtoul atoi now rnd opened os ctx added =
     (if \<not> opened then Some (Inl 1)
      else do {
        r \<leftarrow> fakeap_options ins strtoul atoi now rnd os fakeap_initial;
        (case r of
           None \<Rightarrow> Some (Inl 1)
         | Some s \<Rightarrow> if \<not> ctx then Some (Inl 1) else if \<not> added then Some (Inl 1) else Some (Inr s))
      })"

text \<open>The only method of the object answers that there are no clients.\<close>

definition hostapd_bss_get_clients :: "int \<times> (string \<times> blobmsg) list" where
  "hostapd_bss_get_clients = (0, [])"

text \<open>The timer of station \<open>t\<close> is due: the queue cancels it and calls back.\<close>

definition fakeap_timer :: "tree_insert \<Rightarrow> nat \<times> u32 \<times> u8 \<times> u8 \<Rightarrow> fakeap_state \<Rightarrow> fakeap_state option" where
  "fakeap_timer ins = (\<lambda>(t, now, r1, r2) s.
     if t < length (fs_stations s) then do {
       (m, sta, q) \<leftarrow> sta_probe ins now r1 r2 (fs_freq s) t (fs_stations s ! t) (usteer_timeout_cancel (fs_tq s) t);
       Some (s\<lparr>fs_stations := (fs_stations s)[t := sta], fs_tq := q, fs_out := fs_out s @ [m]\<rparr>)
     } else None)"

section \<open>Well-formed state\<close>

definition gen_range :: "var \<Rightarrow> bool" where
  "gen_range val \<longleftrightarrow> sint (v_min val) \<le> sint (v_max val) \<and> (sint (v_max val) - sint (v_min val)) * 255 < 2 ^ 32"

definition in_range :: "s32 \<Rightarrow> var \<Rightarrow> bool" where
  "in_range x val \<longleftrightarrow> sint (v_min val) \<le> sint x \<and> sint x \<le> sint (v_max val)"

definition unicast :: "mac \<Rightarrow> bool" where
  "unicast m \<longleftrightarrow> (case m of MAC a b c d e f \<Rightarrow> a AND 1 = 0)"

text \<open>Every station has its timer, and only the stations have one.\<close>

definition fake_ok :: "sta_data list \<times> usteer_timeout_queue \<Rightarrow> bool" where
  "fake_ok = (\<lambda>(stas, q). tq_wf q \<and> (\<forall>t. tq_linked q t \<longleftrightarrow> t < length stas))"

text \<open>A station made from \<open>ref\<close>.\<close>

definition fake_station :: "sta_data \<Rightarrow> sta_data \<Rightarrow> bool" where
  "fake_station ref sta \<longleftrightarrow> unicast (sd_addr sta) \<and>
     sd_probe sta = (sd_probe ref)\<lparr>v_cur := v_cur (sd_probe sta)\<rparr> \<and> in_range (v_cur (sd_probe sta)) (sd_probe ref) \<and>
     sd_signal sta = (sd_signal ref)\<lparr>v_cur := v_cur (sd_signal sta)\<rparr> \<and> in_range (v_cur (sd_signal sta)) (sd_signal ref)"

section \<open>Lemmas\<close>

lemma uint_diff_sint:
  fixes a b :: s32
  assumes "0 \<le> sint a - sint b" "sint a - sint b < 2 ^ 32"
  shows "uint (a - b) = sint a - sint b"
proof -
  have "a - b = word_of_int (sint a - sint b)" by simp
  then have "uint (a - b) = (sint a - sint b) mod 2 ^ 32" by (simp add: unsigned_of_int take_bit_eq_mod del: of_int_diff)
  with assms show ?thesis by simp
qed

lemma sint_add_uint:
  fixes a b :: s32
  assumes "sint a + uint b < 2 ^ 31"
  shows "sint (a + b) = sint a + uint b"
proof -
  have "a + b = word_of_int (sint a + uint b)" by simp
  then have eq: "sint (a + b) = signed_take_bit 31 (sint a + uint b)" by (simp only: signed_of_int) simp
  have "- (2 ^ 31) \<le> sint a" "0 \<le> uint b" using sint_ge [of a] by simp_all
  then have "- (2 ^ 31) \<le> sint a + uint b" by linarith
  with eq show ?thesis using assms by (simp add: signed_take_bit_int_eq_self_iff)
qed

lemma recv_packet_short_header:
  "pkt_offset < length packet \<Longrightarrow> unat (packet ! pkt_offset AND 0x0f) < 5 \<Longrightarrow> recv_packet B attr_of pkt_offset packet = Some []"
  by (simp add: recv_packet_def Let_def)

lemma gen_val_range:
  assumes "sint (v_min val) \<le> sint (v_max val)" "(sint (v_max val) - sint (v_min val)) * 255 < 2 ^ 32"
  shows "\<exists>x. gen_val v val = Some (val\<lparr>v_cur := x\<rparr>) \<and> sint (v_min val) \<le> sint x \<and> sint x \<le> sint (v_max val)"
proof -
  let ?d = "sint (v_max val) - sint (v_min val)" and ?delta = "v_max val - v_min val"
  let ?k = "uint v * ?d div 255"
  have d: "0 \<le> ?d" "?d * 255 < 2 ^ 32" using assms by simp_all
  have ud: "uint ?delta = ?d" by (rule uint_diff_sint [OF d(1)]) (use d in simp)
  have v: "0 \<le> uint v" "uint v \<le> 255" using uint_lt2p [of v] by simp_all
  have le: "uint v * ?d \<le> 255 * ?d" using v d(1) by (intro mult_right_mono) simp_all
  have "uint (ucast v :: u32) = uint v" using v by (simp add: unsigned_ucast_eq take_bit_int_eq_self)
  then have "uint (ucast v * ?delta) = uint v * ?d"
    using ud le d v by (simp add: uint_word_ariths)
  then have uk: "uint ((ucast v * ?delta) div 0xff) = ?k" by (simp add: uint_div)
  have "0 \<le> uint v * ?d" using v d(1) by (intro mult_nonneg_nonneg)
  moreover have "?k \<le> 255 * ?d div 255" using le by (rule zdiv_mono1) simp
  ultimately have k: "0 \<le> ?k" "?k \<le> ?d" by (simp_all add: pos_imp_zdiv_nonneg_iff)
  let ?x = "v_min val + (ucast v * ?delta) div 0xff"
  have x: "sint ?x = sint (v_min val) + ?k" unfolding uk [symmetric]
    by (rule sint_add_uint) (use k uk sint_lt [of "v_max val"] in simp)
  have run: "gen_val v val = Some (val\<lparr>v_cur := ?x\<rparr>)"
    using d sint_lt [of "v_max val"] sint_ge [of "v_min val"] by (simp add: gen_val_def Let_def)
  show ?thesis using k x run by (intro exI [of _ ?x]) simp
qed

text \<open>The buffer for an address is large enough.\<close>

lemma macaddr_fits: "length (mac_addr_fmt m) = 17"
  by (cases m) (simp add: mac_addr_fmt_def hex_byte_def enumerate_eq_zip upt_rec)

lemma clear_group_bit: "(a AND NOT 1) AND 1 = (0 :: u8)"
  by (rule bit_eqI) (auto simp: bit_simps)

lemma init_station_starts:
  assumes "avl_dups_tree ins" "gen_range (sd_probe ref)" "gen_range (sd_signal ref)" "fake_ok (stas, q)"
  shows "\<exists>sta q'. init_station ins now addr r1 r2 ref (stas, q) = Some (stas @ [sta], q') \<and> fake_ok (stas @ [sta], q') \<and>
    fake_station ref sta"
proof -
  obtain p where p: "gen_val r1 (sd_probe ref) = Some ((sd_probe ref)\<lparr>v_cur := p\<rparr>)" "in_range p (sd_probe ref)"
    using gen_val_range [of "sd_probe ref" r1] assms(2) by (auto simp: gen_range_def in_range_def)
  obtain g where g: "gen_val r2 (sd_signal ref) = Some ((sd_signal ref)\<lparr>v_cur := g\<rparr>)" "in_range g (sd_signal ref)"
    using gen_val_range [of "sd_signal ref" r2] assms(3) by (auto simp: gen_range_def in_range_def)
  show ?thesis
    using assms(4) p(2) g(2) avl_dups_tree.set_wf [OF assms(1)] clear_group_bit [simplified]
    by (auto simp: init_station_def sta_schedule_probe_def p(1) g(1) fake_ok_def fake_station_def unicast_def less_Suc_eq
        avl_dups_tree.set_linked [OF assms(1)] split: mac.split)
qed

section \<open>Properties\<close>



text \<open>
  Stations of the fake access point. Creating stations from a template with value ranges that do not run backwards (and of
  a width at most 16843009) appends exactly the requested number of stations; each has a unicast address, a probe
  interval and a signal within the ranges of the template, and a timer is pending for exactly the stations there are.
\<close>

lemma fakeap_stations_started:
  assumes "avl_dups_tree ins" "gen_range (sd_probe ref)" "gen_range (sd_signal ref)" "fake_ok (stas, q)"
  shows "\<exists>new q'. create_stations ins now rnd ref n (stas, q) = Some (stas @ new, q') \<and> length new = nat n \<and>
    fake_ok (stas @ new, q') \<and> (\<forall>sta \<in> set new. fake_station ref sta)"
  unfolding create_stations_def
proof (induction "nat n" arbitrary: n)
  case 0
  then show ?case using assms(4) by simp
next
  case (Suc m)
  let ?step = "\<lambda>i stq. case rnd i of (addr, r1, r2) \<Rightarrow> init_station ins (now i) addr r1 r2 ref stq"
  from Suc.hyps(1) [of "int m"] obtain new q' where
      IH: "for_each ?step [0..<m] (stas, q) = Some (stas @ new, q')" "length new = m"
        "fake_ok (stas @ new, q')" "\<forall>sta \<in> set new. fake_station ref sta"
    by auto
  obtain addr r1 r2 where rnd: "rnd m = (addr, r1, r2)" by (cases "rnd m")
  obtain sta q'' where "init_station ins (now m) addr r1 r2 ref (stas @ new, q') = Some ((stas @ new) @ [sta], q'')"
      "fake_ok ((stas @ new) @ [sta], q'')" "fake_station ref sta"
    using init_station_starts [OF assms(1-3) IH(3)] by blast
  with IH rnd show ?case
    by (intro exI [of _ "new @ [sta]"] exI [of _ q'']) (simp add: Suc.hyps(2) [symmetric] for_each_append)
qed

text \<open>
  Every probe schedules the next one: the timer of the station, cancelled before, is pending again, and its values stay
  in their ranges.
\<close>

lemma probe_repeats:
  assumes "avl_dups_tree ins" "tq_wf q" "\<And>u. tq_linked q u \<or> u = t \<longleftrightarrow> u < length stas" "fake_station ref (stas ! t)"
    and "gen_range (sd_probe ref)" "gen_range (sd_signal ref)"
  shows "\<exists>sta q'. sta_probe ins now r1 r2 freq t (stas ! t) q = Some (sta_send_probe freq (stas ! t), sta, q') \<and>
    fake_ok (stas[t := sta], q') \<and> fake_station ref sta"
proof -
  let ?sta = "stas ! t"
  have same: "v_min (sd_probe ?sta) = v_min (sd_probe ref)" "v_max (sd_probe ?sta) = v_max (sd_probe ref)"
    "v_min (sd_signal ?sta) = v_min (sd_signal ref)" "v_max (sd_signal ?sta) = v_max (sd_signal ref)"
    using assms(4) by (metis fake_station_def var.select_convs(2,3) var.surjective var.update_convs(1))+
  obtain p where p: "gen_val r1 (sd_probe ?sta) = Some ((sd_probe ?sta)\<lparr>v_cur := p\<rparr>)" "in_range p (sd_probe ref)"
    using gen_val_range [of "sd_probe ?sta" r1] assms(5) same by (auto simp: gen_range_def in_range_def)
  obtain g where g: "gen_val r2 (sd_signal ?sta) = Some ((sd_signal ?sta)\<lparr>v_cur := g\<rparr>)" "in_range g (sd_signal ref)"
    using gen_val_range [of "sd_signal ?sta" r2] assms(6) same by (auto simp: gen_range_def in_range_def)
  have "(sd_probe ?sta)\<lparr>v_cur := p\<rparr> = (sd_probe ref)\<lparr>v_cur := p\<rparr>" "(sd_signal ?sta)\<lparr>v_cur := g\<rparr> = (sd_signal ref)\<lparr>v_cur := g\<rparr>"
    using same by (simp_all add: var.equality)
  with p g assms(2-4) avl_dups_tree.set_wf [OF assms(1)] show ?thesis
    by (auto simp: sta_probe_def sta_schedule_probe_def fake_ok_def fake_station_def avl_dups_tree.set_linked [OF assms(1)])
qed

text \<open>Each station within the ranges it was made with.\<close>

definition fakeap_ok :: "fakeap_state \<Rightarrow> bool" where
  "fakeap_ok s \<longleftrightarrow> fake_ok (fs_stations s, fs_tq s) \<and>
     (\<forall>sta \<in> set (fs_stations s). fake_station sta sta \<and> gen_range (sd_probe sta) \<and> gen_range (sd_signal sta))"

lemma fake_station_own:
  assumes "fake_station ref sta" "gen_range (sd_probe ref)" "gen_range (sd_signal ref)"
  shows "fake_station sta sta \<and> gen_range (sd_probe sta) \<and> gen_range (sd_signal sta)"
proof -
  have "v_min (sd_probe sta) = v_min (sd_probe ref)" "v_max (sd_probe sta) = v_max (sd_probe ref)"
    "v_min (sd_signal sta) = v_min (sd_signal ref)" "v_max (sd_signal sta) = v_max (sd_signal ref)"
    using assms(1) by (metis fake_station_def var.select_convs(2,3) var.surjective var.update_convs(1))+
  with assms show ?thesis by (simp add: fake_station_def gen_range_def in_range_def)
qed

text \<open>The ranges that are used to make stations do not run backwards and are not too wide.\<close>

fun ranges_ok :: "(string \<Rightarrow> u64 \<times> string) \<Rightarrow> fakeap_option list \<Rightarrow> sta_data \<Rightarrow> bool" where
  "ranges_ok strtoul [] sd \<longleftrightarrow> True"
| "ranges_ok strtoul (Fake_p arg # os) sd \<longleftrightarrow> ranges_ok strtoul os (sd\<lparr>sd_probe := snd (parse_var strtoul arg (sd_probe sd))\<rparr>)"
| "ranges_ok strtoul (Fake_s arg # os) sd \<longleftrightarrow> ranges_ok strtoul os (sd\<lparr>sd_signal := snd (parse_var strtoul arg (sd_signal sd))\<rparr>)"
| "ranges_ok strtoul (Fake_n arg # os) sd \<longleftrightarrow> gen_range (sd_probe sd) \<and> gen_range (sd_signal sd) \<and> ranges_ok strtoul os sd"
| "ranges_ok strtoul (_ # os) sd \<longleftrightarrow> ranges_ok strtoul os sd"

text \<open>The options are read to the end or to a bad one; then every station has its timer and its values are in range.\<close>

lemma fakeap_options_total:
  assumes "avl_dups_tree ins" "fakeap_ok s" "ranges_ok strtoul os (fs_sdata s)"
  shows "\<exists>r. fakeap_options ins strtoul atoi now rnd os s = Some r \<and> (\<forall>s'. r = Some s' \<longrightarrow> fakeap_ok s')"
  using assms
proof (induction ins strtoul atoi now rnd os s rule: fakeap_options.induct)
  case (5 ins strtoul atoi now rnd arg os s)
  then have r: "gen_range (sd_probe (fs_sdata s))" "gen_range (sd_signal (fs_sdata s))" "ranges_ok strtoul os (fs_sdata s)"
    "fake_ok (fs_stations s, fs_tq s)" by (simp_all add: fakeap_ok_def)
  from fakeap_stations_started [OF 5(2) r(1,2,4), of "now 0" "rnd 0" "sint (atoi arg)"] obtain new q where
    new: "create_stations ins (now 0) (rnd 0) (fs_sdata s) (sint (atoi arg)) (fs_stations s, fs_tq s) = Some (fs_stations s @ new, q)"
      "fake_ok (fs_stations s @ new, q)" "\<forall>sta \<in> set new. fake_station (fs_sdata s) sta" by blast
  then have "fakeap_ok (s\<lparr>fs_stations := fs_stations s @ new, fs_tq := q\<rparr>)"
    using 5(3) fake_station_own [OF _ r(1,2)] by (auto simp: fakeap_ok_def)
  from 5(1) [OF new(1) refl 5(2) this] new(1) r(3) show ?case by simp
qed (auto simp: fakeap_ok_def split: prod.splits)

lemma fakeap_main_total:
  assumes "avl_dups_tree ins" "ranges_ok strtoul os (fs_sdata fakeap_initial)"
  shows "\<exists>r. fakeap_main ins strtoul atoi now rnd opened os ctx added = Some r \<and> (\<forall>s. r = Inr s \<longrightarrow> fakeap_ok s)"
proof -
  have "fakeap_ok fakeap_initial" by (simp add: fakeap_ok_def fakeap_initial_def fake_ok_def tq_wf_init) (simp add: usteer_timeout_init_def)
  from fakeap_options_total [OF assms(1) this assms(2), of atoi now rnd] show ?thesis
    by (auto simp: fakeap_main_def split: option.splits)
qed

text \<open>Any sequence of probes is defined and keeps all timers pending and all values in range.\<close>

lemma fakeap_timers_total:
  assumes "avl_dups_tree ins" "fakeap_ok s" "\<forall>e \<in> set es. fst e < length (fs_stations s)"
  shows "\<exists>s'. for_each (fakeap_timer ins) es s = Some s' \<and> fakeap_ok s' \<and> length (fs_stations s') = length (fs_stations s) \<and>
    length (fs_out s') = length (fs_out s) + length es"
  using assms(2,3)
proof (induction es arbitrary: s)
  case (Cons e es)
  obtain t now r1 r2 where e: "e = (t, now, r1, r2)" by (cases e)
  let ?sta = "fs_stations s ! t" and ?q = "usteer_timeout_cancel (fs_tq s) t"
  have t: "t < length (fs_stations s)" using Cons.prems(2) e by simp
  then have sta: "fake_station ?sta ?sta" "gen_range (sd_probe ?sta)" "gen_range (sd_signal ?sta)"
    using Cons.prems(1) by (auto simp: fakeap_ok_def)
  have q: "tq_wf ?q" "tq_linked ?q u \<or> u = t \<longleftrightarrow> u < length (fs_stations s)" for u
    using Cons.prems(1) t by (auto simp: fakeap_ok_def fake_ok_def tq_wf_cancel)
  obtain sta q' where new: "sta_probe ins now r1 r2 (fs_freq s) t ?sta ?q = Some (sta_send_probe (fs_freq s) ?sta, sta, q')"
      "fake_ok ((fs_stations s)[t := sta], q')" "fake_station ?sta sta"
    using probe_repeats [OF assms(1) q sta] by blast
  let ?s = "s\<lparr>fs_stations := (fs_stations s)[t := sta], fs_tq := q', fs_out := fs_out s @ [sta_send_probe (fs_freq s) ?sta]\<rparr>"
  have "fakeap_timer ins e s = Some ?s" using e t new(1) by (simp add: fakeap_timer_def)
  moreover have "fakeap_ok ?s"
    using Cons.prems(1) new(2) fake_station_own [OF new(3) sta(2,3)] set_update_subset_insert [of "fs_stations s" t sta]
    by (auto simp: fakeap_ok_def)
  moreover from Cons.IH [OF this] Cons.prems(2) obtain s' where "for_each (fakeap_timer ins) es ?s = Some s'" "fakeap_ok s'"
      "length (fs_stations s') = length (fs_stations s)" "length (fs_out s') = length (fs_out s) + Suc (length es)" by auto
  ultimately show ?case by simp
qed simp

text \<open>IPv6 packets leave the monitor silent.\<close>

lemma monitor_silent:
  assumes "length argv = 2" "pcap_open_live (argv ! 1) = Some DLT_EN10MB"
    and "\<forall>p \<in> set packets. 14 < length p \<and> unat (p ! 14 AND 0x0f) < 5"
  shows "monitor_main B attr_of argv pcap_open_live packets = Some (0, [])"
proof -
  have "those (map (recv_packet B attr_of 14) packets) = Some (map (\<lambda>_. []) packets)"
    using assms(3) by (induction packets) (auto simp: recv_packet_short_header)
  with assms(1,2) show ?thesis by (simp add: monitor_main_def)
qed

end
