(* ===== verification/Spec2Isabelle.thy ===== *)
theory Spec2Isabelle
  imports Daemon Tools
begin

text \<open>
  usteer steers the clients of wireless access points. One instance runs on every access point; it
  watches the local hostapd processes over ubus, tells the other instances on the network what it sees, and from
  all of this decides whether a client may connect, whether it should be told to roam, and whether it is kicked.
  This development models the C program under src/ and proves what it promises.

  \<^bold>\<open>Parts of the program and their theories.\<close> The theories follow the source files.

  \<^item> \<^verbatim>\<open>Prelude\<close>: machine integers, hardware addresses with their order (the comparator of sta.c), key-ordered
    dictionaries (the AVL trees of libubox that have no duplicates) and loops that may fail, with their lemmas.
  \<^item> \<^verbatim>\<open>Usteer_State\<close>: the structures of usteer.h, node.h and hearing_map.h as records and datatypes, the default
    configuration (main.c), and the state of the daemon. The entries of clients at nodes (\<^verbatim>\<open>struct sta_info\<close>) live in
    a heap, since they are linked into three structures at once and are freed; an access to an address that
    is not in the heap is \<^term>\<open>None\<close>. What the program sends is appended to the field \<open>out\<close>.
  \<^item> \<^verbatim>\<open>Timeout\<close> (timeout.c): the queue of timers with 32-bit wrap-around. The tree insertion of libubox is the
    parameter of the locale \<open>avl_dups_tree\<close>; \<open>timeout_client\<close> is what the owner of a queue promises, and
    there it is shown once that the expiry loop ends.
  \<^item> \<^verbatim>\<open>Stations\<close> (sta.c): stations, entries and their life. \<open>wf_state\<close> is the invariant of the whole
    development: every list, tree and timer refers to live memory, and everything alive is linked where it belongs.
    \<open>entry_store\<close> is the interface its clients use, an abstract map from client and node to entry.
  \<^item> \<^verbatim>\<open>Hearing_Map\<close> (hearing_map.c), \<^verbatim>\<open>Ubus_Actions\<close> (ubus.c, calls on hostapd), \<^verbatim>\<open>Policy\<close> and \<^verbatim>\<open>Kicking\<close>
    (policy.c): beacon reports, the choice of a better node, the roaming state machine and the three ways to kick a client.
  \<^item> \<^verbatim>\<open>Remote_Send\<close>, \<^verbatim>\<open>Parse\<close>, \<^verbatim>\<open>Remote_Recv\<close>, \<^verbatim>\<open>Mirror\<close> (remote.c, parse.c, node.c): messages between
    instances. \<open>blob_codec\<close> is the contract of the attribute reader of libubox, \<open>remote_tree\<close> that of the tree of remote
    nodes; \<^verbatim>\<open>Mirror\<close> composes a sender with a receiver.
  \<^item> \<^verbatim>\<open>Sta_Event\<close> (sta.c, the event handler), \<^verbatim>\<open>Ssid\<close> (ubus.c, configured SSIDs).
  \<^item> \<^verbatim>\<open>Local_Node\<close> and \<^verbatim>\<open>Client_List\<close> (local_node.c): the nodes of the local hostapd processes, their events, requests
    and client lists. A node calls a list of handlers; \<open>handler_contract\<close> is what every handler keeps, and
    the operations of a node are proved safe under it.
  \<^item> \<^verbatim>\<open>Netifd\<close> (netifd.c), \<^verbatim>\<open>Nl80211\<close> (nl80211.c): the two handlers. \<^verbatim>\<open>Handlers\<close> shows that they keep the
    contract, and interprets it on them.
  \<^item> \<^verbatim>\<open>Interfaces\<close> (remote.c): the configured network interfaces, the vendor element with the addresses, and the socket.
  \<^item> \<^verbatim>\<open>Ubus_Config\<close> (ubus.c): the methods of the usteer object: clients, nodes and configuration.
  \<^item> \<^verbatim>\<open>Runtime\<close> (main.c, timeout.c): the two clocks and the log.
  \<^item> \<^verbatim>\<open>Kept\<close>: invariants of all operations. The locale \<open>kept\<close> and its extensions (\<open>kept_timers\<close>, \<open>kept_recv\<close>,
    \<open>kept_config\<close>) name the few primitive changes of the state the program is made of; a predicate that survives
    them survives every operation, which is shown once, operation by operation. Interpreted on the order of the timers
    (\<open>timers_ordered\<close>), of the remote nodes (\<open>nodes_ordered\<close>), on the types of the nodes (\<open>well_typed\<close>), and in \<^verbatim>\<open>Daemon\<close> on the
    settings, which only a request to set them changes.
  \<^item> \<^verbatim>\<open>Daemon\<close> (main.c): the start, and one constructor per callback of the event loop; \<open>reachable\<close> are the
    states after any sequence of them, each in an environment of its own.
  \<^item> \<^verbatim>\<open>Tools\<close> (monitor.c, fakeap.c): the two programs beside the daemon.

  \<^bold>\<open>How the model reads.\<close> A C function is a definition with its name; it takes the state and returns
  the new one, in an option type when the code can follow a bad pointer, leave an array or divide by zero: then the
  result is \<^term>\<open>None\<close>. Integers are words of the width the code has; comparisons of signed ones go through
  \<^term>\<open>sint\<close>. Loops are recursions or \<open>for_each\<close>; a loop body or a condition that
  a proof talks about has a definition of its own. Parsed messages are records of optional attributes.

  \<^bold>\<open>Parameters.\<close> Code outside src/ is an argument: tree operations, address conversions, the attribute
  reader, the answers of ubus, netlink and the kernel, random bytes, clock readings and the rounding of floating
  point. What is assumed of the trees and the reader is a locale; each has an interpretation on an executable
  instance, which is also the one of the witnesses. The rounding is only assumed to be monotone, exact on
  whole numbers up to 100 and on the products of the two weights, and the conversion to an integer to cut off
  the fraction (\<open>ieee\<close> in \<^verbatim>\<open>Nl80211\<close>).

  \<^bold>\<open>Bounds.\<close> The expiry loop reads the clock once per sweep; the readings are a list, and one more than there
  are timers is enough for the loop to end, which is part of the theorem. The receive loop ends with the error
  that ends it in the code. There is no other fuel. The theorems on timers ask that all timers lie within half the
  circle of the 32-bit clock, those on remote nodes that the identifiers can be compared, since
  the comparators are not orders otherwise. For the daemon as a whole this becomes a condition on the inputs: a callback
  that sets timers reads a clock within six days of the pending timers' reference (\<open>clocks_fit\<close>), a
  message comes from an instance whose identifier can be compared with the known ones; that the trees are ordered
  is then an invariant.

  \<^bold>\<open>What is shown.\<close>
  \<^item> The daemon as a whole: the invariant holds in every reachable state, trees are ordered, nodes have their types, and no
    admissible callback fails; the start.
    \<open>admissible\<close> names the inputs the code cannot cope with, most of which are the subject of a theorem below.
  \<^item> Refinement: entries implement a map, the roaming code implements its state machine, a receiver mirrors the sender.
  \<^item> The decisions: soundness, equivalence with a specification and asymmetry of the search for a better node, the answer to
    a request, the selection of the kicked client, at most as many kicks as announcements and at most three per turn.
  \<^item> Node by node: client lists connect exactly the associated clients; requests are sent in order and end; removal frees
    exactly the entries of the node; the channel load stays within its bounds.
  \<^item> Configuration and queries: round trip of the configuration, lists of clients and their details.
  \<^item> Faults, as theorems about the code as it is: the refusal streak that never times out correctly, the inverted load criterion, freed
    entries in use, statistics out of bounds, null pointers from incomplete messages, the walk past the end of
    scan elements, the vendor element with too many addresses, the monitor that cannot read what the daemon sends.

  \<^bold>\<open>Not modelled.\<close> The texts of log calls and usage; the netlink and capture connections, which only call the
  operating system; the event loop and ubus themselves, which are libraries.
  Memory is assumed not to run out.
\<close>

end
